(* ===== verification/Prelude.thy ===== *)
theory Prelude
  imports Main "HOL-Library.Word" "HOL-Library.Monad_Syntax"
begin

text \<open>
  Shared vocabulary of the development: the fixed width integer types of the C code, the
  collections of rewrite rules the component theories extend, and the generic facts on words,
  options and lists that more than one component needs.

  A firmware operation is a function from a machine state to an optional pair of a result and
  the next state. \<open>None\<close> stands for every way in which the C function does not come back with
  a defined result: it indexes an array out of its bounds, it spins on a lock that nobody will
  release, or it polls a device that never answers.
\<close>

unbundle bit_operations_syntax

type_synonym u8 = "8 word"
type_synonym u16 = "16 word"
type_synonym u32 = "32 word"
type_synonym u64 = "64 word"

type_synonym ('s, 'a) op = "'s \<Rightarrow> ('a \<times> 's) option"

named_theorems frame_simps \<open>fields an operation leaves alone\<close>
named_theorems page_simps \<open>page arithmetic on unsigned numbers\<close>

section \<open>Options\<close>

lemma bind_SomeE [elim!]:
  assumes "Option.bind m f = Some r"
  obtains x where "m = Some x" and "f x = Some r"
  using assms by (cases m) auto

section \<open>Lists\<close>

lemma find_SomeD: "find q xs = Some x \<Longrightarrow> x \<in> set xs \<and> q x"
  by (induction xs) (auto split: if_splits)

lemma find_unique:
  assumes "i \<in> set xs" and "q i" and uniq: "\<forall>j \<in> set xs. q j \<longrightarrow> j = i"
  shows "find q xs = Some i"
proof (cases "find q xs")
  case None
  then show ?thesis
    using assms(1,2) by (simp add: find_None_iff)
next
  case (Some j)
  then show ?thesis
    using uniq find_SomeD [OF Some] by simp
qed

section \<open>Words\<close>

lemma word_and_not_mask_eq: "x AND NOT (mask n) = push_bit n (drop_bit n x)"
  for x :: "'a::len word"
  by (rule bit_word_eqI) (auto simp: bit_simps)

lemma unat_less_exp: "unat x < 2 ^ LENGTH('a)"
  for x :: "'a::len word"
  by (rule unsigned_less)

lemma unat_push_drop:
  "unat (push_bit n (drop_bit n x)) = unat x div 2 ^ n * 2 ^ n"
  for x :: "'a::len word"
proof -
  have "unat x div 2 ^ n * 2 ^ n \<le> unat x"
    by simp
  then have "take_bit LENGTH('a) (unat x div 2 ^ n * 2 ^ n) = unat x div 2 ^ n * 2 ^ n"
    using unat_less_exp [of x] by (intro take_bit_nat_eq_self) (rule order_le_less_trans)
  then show ?thesis
    unfolding unsigned_push_bit_eq unat_drop_bit_eq by (simp add: drop_bit_eq_div push_bit_eq_mult)
qed

lemma unat_and_not_mask: "unat (x AND NOT (mask n)) = unat x div 2 ^ n * 2 ^ n"
  for x :: "'a::len word"
  by (simp only: word_and_not_mask_eq unat_push_drop)

lemma unat_and_mask: "unat (x AND mask n) = unat x mod 2 ^ n"
  for x :: "'a::len word"
  unfolding take_bit_eq_mask [symmetric] unsigned_take_bit_eq by (rule take_bit_eq_mod)

lemma unat_drop: "unat (drop_bit n x) = unat x div 2 ^ n"
  for x :: "'a::len word"
  unfolding unat_drop_bit_eq by (rule drop_bit_eq_div)

lemma unat_plus_less:
  "unat a + unat b < 2 ^ LENGTH('a) \<Longrightarrow> unat (a + b) = unat a + unat b"
  for a b :: "'a::len word"
  by (simp add: unat_word_ariths)

lemma unat_of_nat_small: "k < 2 ^ LENGTH('a) \<Longrightarrow> unat (of_nat k :: 'a::len word) = k"
  by (simp add: unat_of_nat)

lemma unat_suc_less: "p < e \<Longrightarrow> unat (p + 1) = Suc (unat p)"
  for p e :: "'a::len word"
proof -
  assume "p < e"
  then have "unat p < unat e"
    by (simp add: word_less_nat_alt)
  then have "unat p + 1 < 2 ^ LENGTH('a)"
    using unat_less_exp [of e] by linarith
  then show "unat (p + 1) = Suc (unat p)"
    using unat_plus_less [of p 1] by simp
qed

lemma scast_of_nat_small: "i < 2 ^ 31 \<Longrightarrow> (scast (of_nat i :: u32) :: u64) = of_nat i"
proof -
  assume i: "i < 2 ^ 31"
  have "signed_take_bit 31 (int i) = int i"
    by (rule signed_take_bit_int_eq_self) (use i in simp_all)
  then have "sint (of_nat i :: u32) = int i"
    by (simp add: signed_of_nat)
  then show ?thesis
    by (simp add: scast_eq)
qed

end
