(* ===== verification/Memory.thy ===== *)
theory Memory
  imports Prelude
begin

text \<open>
  Byte addressed memory and the little-endian stores and loads of the C integer types, the
  interface \<open>cell_store\<close> that the page table code relies on, and its interpretation by aligned
  64-bit cells.
\<close>

unbundle bit_operations_syntax

type_synonym memory = "u64 \<Rightarrow> u8"

section \<open>Little-endian byte runs\<close>

primrec le_bytes :: "nat \<Rightarrow> 'a::len word \<Rightarrow> u8 list" where
  "le_bytes 0 v = []"
| "le_bytes (Suc n) v = ucast v # le_bytes n (drop_bit 8 v)"

primrec le_word :: "u8 list \<Rightarrow> 'a::len word" where
  "le_word [] = 0"
| "le_word (b # bs) = ucast b OR push_bit 8 (le_word bs)"

lemma length_le_bytes [simp]: "length (le_bytes n v) = n"
  by (induction n arbitrary: v) auto

lemma le_word_le_bytes: "le_word (le_bytes n v) = take_bit (8 * n) v"
  for v :: "'a::len word"
proof (induction n arbitrary: v)
  case 0
  show ?case
    by simp
next
  case (Suc n)
  have "bit (le_word (le_bytes (Suc n) v) :: 'a word) i = bit (take_bit (8 * Suc n) v) i"
    if "i < LENGTH('a)" for i
    using that by (cases "i < 8") (auto simp: Suc bit_simps)
  then show ?case
    by (rule bit_word_eqI)
qed

section \<open>Loads and stores\<close>

primrec st_bytes :: "memory \<Rightarrow> u64 \<Rightarrow> u8 list \<Rightarrow> memory" where
  "st_bytes m a [] = m"
| "st_bytes m a (b # bs) = st_bytes (m(a := b)) (a + 1) bs"

primrec ld_bytes :: "memory \<Rightarrow> u64 \<Rightarrow> nat \<Rightarrow> u8 list" where
  "ld_bytes m a 0 = []"
| "ld_bytes m a (Suc n) = m a # ld_bytes m (a + 1) n"

lemma length_ld_bytes [simp]: "length (ld_bytes m a n) = n"
  by (induction n arbitrary: a) auto

lemma nth_ld_bytes: "k < n \<Longrightarrow> ld_bytes m a n ! k = m (a + of_nat k)"
  by (induction n arbitrary: a k) (auto simp: nth_Cons split: nat.splits, simp add: algebra_simps)

lemma unat_diff_pred:
  fixes x a :: u64
  assumes "x \<noteq> a"
  shows "unat (x - a) = Suc (unat (x - (a + 1)))"
proof -
  have "x - a \<noteq> 0"
    using assms by simp
  then have "unat (x - a - 1) = unat (x - a) - 1"
    by (rule unat_minus_one)
  moreover have "0 < unat (x - a)"
    using \<open>x - a \<noteq> 0\<close> by (simp add: unat_gt_0)
  ultimately show ?thesis
    by (simp add: diff_diff_eq)
qed

lemma st_bytes_apply:
  "length bs < 2 ^ 64 \<Longrightarrow>
   st_bytes m a bs x = (if unat (x - a) < length bs then bs ! unat (x - a) else m x)"
proof (induction bs arbitrary: m a)
  case Nil
  then show ?case by simp
next
  case (Cons b bs)
  have IH: "st_bytes (m(a := b)) (a + 1) bs x =
      (if unat (x - (a + 1)) < length bs then bs ! unat (x - (a + 1)) else (m(a := b)) x)"
    using Cons by simp
  show ?case
  proof (cases "x = a")
    case True
    have "unat (- 1 :: u64) = 2 ^ 64 - 1"
      by (simp add: unsigned_minus_1_eq_mask mask_eq_exp_minus_1)
    then have "\<not> unat (x - (a + 1)) < length bs"
      using Cons.prems True by simp
    then show ?thesis
      using IH True by simp
  next
    case False
    then show ?thesis
      using IH unat_diff_pred [OF False] by simp
  qed
qed

lemma ld_bytes_cong:
  "(\<And>k. k < n \<Longrightarrow> m (a + of_nat k) = m' (a + of_nat k)) \<Longrightarrow> ld_bytes m a n = ld_bytes m' a n"
  by (rule nth_equalityI) (auto simp: nth_ld_bytes)

lemma ld_st_bytes_same:
  "length bs < 2 ^ 64 \<Longrightarrow> ld_bytes (st_bytes m a bs) a (length bs) = bs"
  by (rule nth_equalityI) (auto simp: nth_ld_bytes st_bytes_apply unat_of_nat_small)

lemma ld_st_bytes_other:
  assumes "length bs < 2 ^ 64"
    and "\<And>k. k < n \<Longrightarrow> length bs \<le> unat (b + of_nat k - a)"
  shows "ld_bytes (st_bytes m a bs) b n = ld_bytes m b n"
  using assms by (intro ld_bytes_cong) (auto simp: st_bytes_apply not_less [symmetric])

definition ld16 :: "memory \<Rightarrow> u64 \<Rightarrow> u16" where
  "ld16 m a = le_word (ld_bytes m a 2)"

definition ld32 :: "memory \<Rightarrow> u64 \<Rightarrow> u32" where
  "ld32 m a = le_word (ld_bytes m a 4)"

definition ld64 :: "memory \<Rightarrow> u64 \<Rightarrow> u64" where
  "ld64 m a = le_word (ld_bytes m a 8)"

definition st16 :: "memory \<Rightarrow> u64 \<Rightarrow> u16 \<Rightarrow> memory" where
  "st16 m a v = st_bytes m a (le_bytes 2 v)"

definition st32 :: "memory \<Rightarrow> u64 \<Rightarrow> u32 \<Rightarrow> memory" where
  "st32 m a v = st_bytes m a (le_bytes 4 v)"

definition st64 :: "memory \<Rightarrow> u64 \<Rightarrow> u64 \<Rightarrow> memory" where
  "st64 m a v = st_bytes m a (le_bytes 8 v)"

lemma take_bit_full: "LENGTH('a) \<le> n \<Longrightarrow> take_bit n v = v" for v :: "'a::len word"
  by (rule bit_word_eqI) (simp add: bit_simps)

lemma ld64_st64_same [simp]: "ld64 (st64 m a v) a = v"
  using ld_st_bytes_same [of "le_bytes 8 v" m a]
  by (simp add: ld64_def st64_def le_word_le_bytes take_bit_full)

lemma ld32_st32_same [simp]: "ld32 (st32 m a v) a = v"
  using ld_st_bytes_same [of "le_bytes 4 v" m a]
  by (simp add: ld32_def st32_def le_word_le_bytes take_bit_full)

lemma ld16_st16_same [simp]: "ld16 (st16 m a v) a = v"
  using ld_st_bytes_same [of "le_bytes 2 v" m a]
  by (simp add: ld16_def st16_def le_word_le_bytes take_bit_full)

lemma st64_apply:
  "st64 m a v x = (if unat (x - a) < 8 then le_bytes 8 v ! unat (x - a) else m x)"
  unfolding st64_def by (subst st_bytes_apply) simp_all

lemma st64_outside: "8 \<le> unat (x - a) \<Longrightarrow> st64 m a v x = m x"
  by (simp add: st64_apply)

lemma ld64_cong:
  "(\<And>k. k < 8 \<Longrightarrow> m (a + of_nat k) = m' (a + of_nat k)) \<Longrightarrow> ld64 m a = ld64 m' a"
  unfolding ld64_def by (metis ld_bytes_cong)

section \<open>Cells\<close>

text \<open>
  What code that keeps a table of cells in memory relies on: a read at a valid address returns
  what was last written there, and writes elsewhere do not disturb it.
\<close>

locale cell_store =
  fixes rd :: "'m \<Rightarrow> 'a \<Rightarrow> 'v"
    and wr :: "'m \<Rightarrow> 'a \<Rightarrow> 'v \<Rightarrow> 'm"
    and valid :: "'a \<Rightarrow> bool"
  assumes rd_wr_same: "valid a \<Longrightarrow> rd (wr m a v) a = v"
    and rd_wr_other: "valid a \<Longrightarrow> valid b \<Longrightarrow> a \<noteq> b \<Longrightarrow> rd (wr m a v) b = rd m b"
begin

lemma rd_wr: "valid a \<Longrightarrow> valid b \<Longrightarrow> rd (wr m a v) b = (if a = b then v else rd m b)"
  by (simp add: rd_wr_same rd_wr_other)

lemma rd_fill:
  "\<forall>i \<in> set is. valid (adr i) \<Longrightarrow> valid b \<Longrightarrow>
   rd (foldl (\<lambda>m i. wr m (adr i) v) m is) b = (if b \<in> adr ` set is then v else rd m b)"
  by (induction "is" arbitrary: m) (auto simp: rd_wr)

end

text \<open>Aligned cells of \<open>w\<close> bytes do not overlap.\<close>

lemma aligned_far:
  fixes a b :: u64
  assumes "unat a mod w = 0" and "unat b mod w = 0" and w: "w dvd 2 ^ 64" and "a \<noteq> b" and "k < w"
  shows "w \<le> unat (b + of_nat k - a)"
proof -
  have wpos: "0 < w" and wle: "w \<le> 2 ^ 64"
    using w by (auto intro: Nat.gr0I dvd_imp_le)
  have dv: "w dvd unat a" "w dvd unat b"
    using assms(1,2) by (simp_all add: mod_eq_0_iff_dvd)
  have m: "w dvd unat (b - a)"
    unfolding unat_sub_if' using dv w by (auto intro!: dvd_diff_nat dvd_add)
  have pos: "0 < unat (b - a)"
    using assms(4) by (simp add: unat_gt_0)
  then have le: "w \<le> unat (b - a)"
    using m by (intro dvd_imp_le)
  have "unat (b - a) < 2 ^ 64"
    using unat_less_exp [of "b - a"] by simp
  moreover obtain i j where ij: "unat (b - a) = w * i" "2 ^ 64 = w * j"
    using m w by (metis dvdE)
  ultimately have "Suc i \<le> j"
    by (metis Suc_leI mult_less_cancel1)
  then have "w * Suc i \<le> 2 ^ 64"
    unfolding ij(2) by (rule mult_le_mono2)
  then have sum: "unat (b - a) + k < 2 ^ 64"
    using assms(5) ij(1) by simp
  have "unat (of_nat k :: u64) = k"
    using assms(5) wle by (intro unat_of_nat_small) simp
  then have "unat (b - a + of_nat k) = unat (b - a) + k"
    using sum by (simp add: unat_plus_less)
  moreover have "b + of_nat k - a = b - a + of_nat k"
    by simp
  ultimately show ?thesis
    using le by (metis le_add1 le_trans)
qed

definition aligned8 :: "u64 \<Rightarrow> bool" where
  "aligned8 a \<longleftrightarrow> unat a mod 8 = 0"

definition aligned2 :: "u64 \<Rightarrow> bool" where
  "aligned2 a \<longleftrightarrow> unat a mod 2 = 0"

lemma ld64_st64_other:
  "aligned8 a \<Longrightarrow> aligned8 b \<Longrightarrow> a \<noteq> b \<Longrightarrow> ld64 (st64 m a v) b = ld64 m b"
  by (rule ld64_cong) (simp add: st64_outside aligned8_def aligned_far)

lemma ld16_st16_other:
  "aligned2 a \<Longrightarrow> aligned2 b \<Longrightarrow> a \<noteq> b \<Longrightarrow> ld16 (st16 m a v) b = ld16 m b"
  unfolding ld16_def st16_def
  by (subst ld_st_bytes_other) (simp_all add: aligned2_def aligned_far)

interpretation qw: cell_store ld64 st64 aligned8
  by unfold_locales (auto simp: ld64_st64_other)

interpretation hw: cell_store ld16 st16 aligned2
  by unfold_locales (auto simp: ld16_st16_other)

end
