(* ===== verification/Paging.thy ===== *)
theory Paging
  imports Memory "HOL-Library.Sublist"
begin

text \<open>
  The abstract side of the pager: what a set of x86-64 page tables in physical memory means. The
  processor's walk is written out as a function of memory, the address of the top table and a
  virtual address; on top of it stand the notion of a tree of tables (no table is reached along
  two paths) and the two facts every change of an entry rests on: an entry matters only to the
  addresses whose path runs through it, and a fresh empty table can be hung into an absent entry
  without changing any translation.
\<close>

unbundle bit_operations_syntax

section \<open>Entries\<close>

definition present :: "u64 \<Rightarrow> bool" where
  "present e \<longleftrightarrow> bit e 0"

definition huge :: "u64 \<Rightarrow> bool" where
  "huge e \<longleftrightarrow> bit e 7"

text \<open>The physical address in an entry: bits 51 to 12.\<close>

definition hw_addr :: "u64 \<Rightarrow> u64" where
  "hw_addr e = e AND 0x000FFFFFFFFFF000"

definition ent :: "memory \<Rightarrow> u64 \<Rightarrow> nat \<Rightarrow> u64" where
  "ent m t i = ld64 m (t + 8 * of_nat i)"

section \<open>The walk\<close>

text \<open>The table at the end of a path of indices.\<close>

fun reach :: "memory \<Rightarrow> u64 \<Rightarrow> nat list \<Rightarrow> u64 option" where
  "reach m t [] = Some t"
| "reach m t (i # is) =
     (let e = ent m t i in if present e \<and> \<not> huge e then reach m (hw_addr e) is else None)"

text \<open>
  The entry that maps an address, given by its indices, and the number of levels left below it:
  0 for a 4 KiB page, 1 for a 2 MiB page, 2 for a 1 GiB page.
\<close>

fun leaf :: "memory \<Rightarrow> u64 \<Rightarrow> nat list \<Rightarrow> (u64 \<times> nat) option" where
  "leaf m t [] = None"
| "leaf m t (i # is) =
     (let e = ent m t i in
      if \<not> present e then None
      else if is = [] \<or> huge e then Some (e, length is)
      else leaf m (hw_addr e) is)"

definition idx :: "nat \<Rightarrow> u64 \<Rightarrow> nat" where
  "idx k v = unat (drop_bit k v AND 0x1FF)"

definition vpath :: "u64 \<Rightarrow> nat list" where
  "vpath v = [idx 39 v, idx 30 v, idx 21 v, idx 12 v]"

text \<open>
  The translation of a virtual address: physical address and the low twelve bits of the mapping
  entry, without the bit that marks a large page. An address that is not canonical has none.
\<close>

definition canonical :: "u64 \<Rightarrow> bool" where
  "canonical v \<longleftrightarrow> (\<forall>n \<in> {48..<64}. bit v n = bit v 47)"

definition page_of :: "u64 \<times> nat \<Rightarrow> u64 \<Rightarrow> (u64 \<times> u64) option" where
  "page_of = (\<lambda>(e, n) v.
     if n = 0 then Some (hw_addr e + (v AND mask 12), e AND mask 12)
     else if n = 1 then Some ((hw_addr e AND NOT (mask 21)) + (v AND mask 21), e AND NOT 0x80 AND mask 12)
     else if n = 2 then Some ((hw_addr e AND NOT (mask 30)) + (v AND mask 30), e AND NOT 0x80 AND mask 12)
     else None)"

definition translate :: "memory \<Rightarrow> u64 \<Rightarrow> u64 \<Rightarrow> (u64 \<times> u64) option" where
  "translate m root v =
     (if canonical v then Option.bind (leaf m root (vpath v)) (\<lambda>l. page_of l v) else None)"

section \<open>Paths\<close>

definition path :: "nat list \<Rightarrow> bool" where
  "path is \<longleftrightarrow> (\<forall>i \<in> set is. i < 512)"

lemma path_simps [simp]:
  "path []" "path (i # is) \<longleftrightarrow> i < 512 \<and> path is" "path (is @ js) \<longleftrightarrow> path is \<and> path js"
  by (auto simp: path_def)

lemma path_take: "path is \<Longrightarrow> path (take n is)"
  by (auto simp: path_def dest: in_set_takeD)

lemma idx_less: "idx k v < 512"
proof -
  have "unat (drop_bit k v AND mask 9) < 2 ^ 9"
    unfolding unat_and_mask by simp
  then show ?thesis
    by (simp add: idx_def mask_eq_exp_minus_1)
qed

lemma vpath_path [simp]: "path (vpath v)" and vpath_length [simp]: "length (vpath v) = 4"
  by (simp_all add: vpath_def idx_less)

lemma reach_append:
  "reach m t (is @ js) = Option.bind (reach m t is) (\<lambda>u. reach m u js)"
  by (induction "is" arbitrary: t) (auto simp: Let_def)

lemma leaf_reach:
  "reach m t is = Some u \<Longrightarrow> js \<noteq> [] \<Longrightarrow> leaf m t (is @ js) = leaf m u js"
  by (induction "is" arbitrary: t) (auto simp: Let_def split: if_splits)

lemma leaf_cong:
  "(\<And>n u. n < length js \<Longrightarrow> reach m t (take n js) = Some u \<Longrightarrow>
      ent m' u (js ! n) = ent m u (js ! n)) \<Longrightarrow> leaf m' t js = leaf m t js"
proof (induction js arbitrary: t)
  case Nil
  then show ?case by simp
next
  case (Cons i js)
  have here: "ent m' t i = ent m t i"
    using Cons.prems [of 0 t] by simp
  show ?case
  proof (cases "present (ent m t i) \<and> \<not> huge (ent m t i)")
    case True
    have "leaf m' (hw_addr (ent m t i)) js = leaf m (hw_addr (ent m t i)) js"
    proof (rule Cons.IH)
      fix n u
      assume "n < length js" and "reach m (hw_addr (ent m t i)) (take n js) = Some u"
      then show "ent m' u (js ! n) = ent m u (js ! n)"
        using Cons.prems [of "Suc n" u] True by (simp add: Let_def)
    qed
    then show ?thesis
      by (simp add: here Let_def)
  next
    case False
    then show ?thesis
      by (auto simp: here Let_def)
  qed
qed

section \<open>Trees of tables\<close>

definition tables :: "memory \<Rightarrow> u64 \<Rightarrow> u64 set" where
  "tables m root = {t. \<exists>is. path is \<and> length is \<le> 3 \<and> reach m root is = Some t}"

text \<open>
  A tree: every table is reached along one path only, an entry of the two upper levels never maps
  a page by itself, and the entries that point to tables have no bits above bit 51.
\<close>

definition tree :: "memory \<Rightarrow> u64 \<Rightarrow> bool" where
  "tree m root \<longleftrightarrow>
     (\<forall>is js t. path is \<and> path js \<and> length is \<le> 3 \<and> length js \<le> 3
        \<and> reach m root is = Some t \<and> reach m root js = Some t \<longrightarrow> is = js)
   \<and> (\<forall>is i t. path is \<and> length is \<le> 2 \<and> i < 512 \<and> reach m root is = Some t
        \<and> present (ent m t i) \<longrightarrow>
          (length is \<le> 1 \<longrightarrow> \<not> huge (ent m t i))
        \<and> (\<not> huge (ent m t i) \<longrightarrow> ent m t i AND NOT (mask 12) = hw_addr (ent m t i)))"

lemma tree_unique:
  "tree m root \<Longrightarrow> path is \<Longrightarrow> path js \<Longrightarrow> length is \<le> 3 \<Longrightarrow> length js \<le> 3 \<Longrightarrow>
   reach m root is = Some t \<Longrightarrow> reach m root js = Some t \<Longrightarrow> is = js"
  unfolding tree_def by blast

lemma tree_entry:
  assumes "tree m root" "path is" "length is \<le> 2" "i < 512" "reach m root is = Some t"
    "present (ent m t i)"
  shows "length is \<le> 1 \<Longrightarrow> \<not> huge (ent m t i)"
    and "\<not> huge (ent m t i) \<Longrightarrow> ent m t i AND NOT (mask 12) = hw_addr (ent m t i)"
  using assms unfolding tree_def by blast+

text \<open>\<open>m'\<close> differs from \<open>m\<close>, on the tables of \<open>m\<close>, at most in entry \<open>i\<close> of table \<open>t\<close>.\<close>

definition same_but :: "memory \<Rightarrow> memory \<Rightarrow> u64 \<Rightarrow> u64 \<Rightarrow> nat \<Rightarrow> bool" where
  "same_but m m' root t i \<longleftrightarrow>
     (\<forall>u \<in> tables m root. \<forall>k < 512. (u, k) \<noteq> (t, i) \<longrightarrow> ent m' u k = ent m u k)"

lemma tablesI: "path is \<Longrightarrow> length is \<le> 3 \<Longrightarrow> reach m root is = Some t \<Longrightarrow> t \<in> tables m root"
  by (auto simp: tables_def)

lemma reach_off:
  assumes tree: "tree m root" and same: "same_but m m' root t i"
    and at: "reach m root at = Some t" "path at" "length at \<le> 3" "i < 512"
  shows "path is \<Longrightarrow> length is \<le> 3 \<Longrightarrow> \<not> prefix (at @ [i]) is \<Longrightarrow>
    reach m' root is = reach m root is"
proof (induction "is" rule: rev_induct)
  case Nil
  then show ?case by simp
next
  case (snoc k "is")
  then have IH: "reach m' root is = reach m root is"
    by auto
  show ?case
  proof (cases "reach m root is")
    case None
    then show ?thesis
      using IH by (simp add: reach_append)
  next
    case (Some u)
    have "(u, k) \<noteq> (t, i)"
    proof
      assume "(u, k) = (t, i)"
      then have "is = at"
        using tree_unique [OF tree, of "is" at t] snoc.prems at Some by simp
      then show False
        using snoc.prems(3) \<open>(u, k) = (t, i)\<close> by simp
    qed
    moreover have "u \<in> tables m root"
      using Some snoc.prems by (intro tablesI) auto
    ultimately have "ent m' u k = ent m u k"
      using same snoc.prems(1) by (simp add: same_but_def)
    then show ?thesis
      using IH Some by (simp add: reach_append Let_def)
  qed
qed

lemma leaf_off:
  assumes tree: "tree m root" and same: "same_but m m' root t i"
    and at: "reach m root at = Some t" "path at" "length at \<le> 3" "i < 512"
    and js: "path js" "length js = 4" "\<not> prefix (at @ [i]) js"
  shows "leaf m' root js = leaf m root js"
proof (rule leaf_cong)
  fix n u
  assume n: "n < length js" and u: "reach m root (take n js) = Some u"
  have small: "path (take n js)" "length (take n js) \<le> 3" "js ! n < 512"
    using js n by (auto simp: path_take, auto simp: path_def)
  have "(u, js ! n) \<noteq> (t, i)"
  proof
    assume "(u, js ! n) = (t, i)"
    then have "take n js = at"
      using tree_unique [OF tree small(1) at(2) small(2) at(3)] u at(1) by simp
    then have "at @ [i] = take (Suc n) js"
      using n \<open>(u, js ! n) = (t, i)\<close> by (simp add: take_Suc_conv_app_nth)
    then show False
      using js(3) by (simp add: take_is_prefix)
  qed
  then show "ent m' u (js ! n) = ent m u (js ! n)"
    using same small tablesI [OF small(1,2) u] by (simp add: same_but_def)
qed

section \<open>Hanging a fresh table into an absent entry\<close>

text \<open>
  \<open>m'\<close> is \<open>m\<close> with a fresh empty table \<open>c\<close> linked from the absent entry \<open>i\<close> of the table \<open>t\<close>
  at the end of the path \<open>at\<close>.
\<close>

definition hangs :: "memory \<Rightarrow> memory \<Rightarrow> u64 \<Rightarrow> nat list \<Rightarrow> u64 \<Rightarrow> nat \<Rightarrow> u64 \<Rightarrow> bool" where
  "hangs m m' root at t i c \<longleftrightarrow>
     tree m root \<and> reach m root at = Some t \<and> path at \<and> length at \<le> 2 \<and> i < 512
   \<and> \<not> present (ent m t i) \<and> same_but m m' root t i \<and> ent m' t i = c OR 3
   \<and> c AND NOT (mask 12) = c \<and> hw_addr c = c \<and> c \<notin> tables m root
   \<and> (\<forall>k < 512. ent m' c k = 0)"

lemma hangsD:
  assumes "hangs m m' root at t i c"
  shows "tree m root" "reach m root at = Some t" "path at" "length at \<le> 2" "i < 512"
    "\<not> present (ent m t i)" "same_but m m' root t i" "ent m' t i = c OR 3"
    "c AND NOT (mask 12) = c" "hw_addr c = c" "c \<notin> tables m root" "\<forall>k < 512. ent m' c k = 0"
  using assms by (simp_all add: hangs_def)

lemma link_bits:
  fixes c :: u64
  assumes c: "c AND NOT (mask 12) = c" "hw_addr c = c"
  shows "present (c OR 3)" "\<not> huge (c OR 3)" "hw_addr (c OR 3) = c"
    "(c OR 3) AND NOT (mask 12) = c"
proof -
  have "bit (c AND NOT (mask 12)) 7 = bit c 7"
    by (simp add: c(1))
  then have c7: "\<not> bit c 7"
    by (simp add: bit_simps)
  have "bit (3::u64) 0" and "\<not> bit (3::u64) 7"
    by (simp_all add: bit_iff_odd)
  then show "present (c OR 3)" and "\<not> huge (c OR 3)"
    using c7 by (simp_all add: present_def huge_def bit_or_iff)
  have "hw_addr (c OR 3) = hw_addr c OR hw_addr 3"
    unfolding hw_addr_def by (rule bit.conj_disj_distrib2)
  then show "hw_addr (c OR 3) = c"
    by (simp add: c(2)) (simp add: hw_addr_def)
  have "(c OR 3) AND NOT (mask 12) = (c AND NOT (mask 12)) OR (3 AND NOT (mask 12))"
    by (rule bit.conj_disj_distrib2)
  then show "(c OR 3) AND NOT (mask 12) = c"
    by (simp add: c(1)) (simp add: mask_eq_exp_minus_1)
qed

lemma hang_reach_old:
  "hangs m m' root at t i c \<Longrightarrow> path is \<Longrightarrow> length is \<le> 3 \<Longrightarrow> \<not> prefix (at @ [i]) is \<Longrightarrow>
   reach m' root is = reach m root is"
  using reach_off [of m root m' t i at] by (simp add: hangs_def)

lemma hang_reach:
  assumes h: "hangs m m' root at t i c"
  shows "reach m' root at = Some t" and "reach m' root (at @ [i]) = Some c"
    and "k < 512 \<Longrightarrow> reach m' root (at @ i # k # is) = None"
proof -
  note d = hangsD [OF h]
  note bits = link_bits [OF d(9,10)]
  have "\<not> prefix (at @ [i]) at"
    by (auto dest: prefix_length_le)
  then show at: "reach m' root at = Some t"
    using hang_reach_old [OF h, of at] d by simp
  then show "reach m' root (at @ [i]) = Some c"
    using bits d(8) by (simp add: reach_append Let_def)
  show "k < 512 \<Longrightarrow> reach m' root (at @ i # k # is) = None"
    using at bits d(8,12) by (simp add: reach_append present_def Let_def)
qed

lemma hang_reach_new:
  assumes h: "hangs m m' root at t i c"
    and "path is" and "length is \<le> 3" and "reach m' root is = Some u"
  shows "is = at @ [i] \<and> u = c \<or> \<not> prefix (at @ [i]) is \<and> reach m root is = Some u"
proof (cases "prefix (at @ [i]) is")
  case True
  then obtain js where js: "is = at @ i # js"
    by (auto simp: prefix_def)
  show ?thesis
    using assms(2-) js hang_reach [OF h] by (cases js) auto
next
  case False
  then show ?thesis
    using assms hang_reach_old [OF h] by simp
qed

lemma hang_tables:
  assumes h: "hangs m m' root at t i c"
  shows "tables m' root = insert c (tables m root)"
proof (rule set_eqI)
  fix u
  note d = hangsD [OF h]
  have old: "\<not> prefix (at @ [i]) is" if "reach m root is = Some u" for "is"
  proof
    assume "prefix (at @ [i]) is"
    then obtain js where "is = at @ i # js"
      by (auto simp: prefix_def)
    then show False
      using that d(2,6) by (simp add: reach_append Let_def)
  qed
  show "u \<in> tables m' root \<longleftrightarrow> u \<in> insert c (tables m root)"
  proof
    assume "u \<in> tables m' root"
    then show "u \<in> insert c (tables m root)"
      using hang_reach_new [OF h] by (fastforce simp: tables_def)
  next
    assume "u \<in> insert c (tables m root)"
    then show "u \<in> tables m' root"
    proof
      assume "u = c"
      then show ?thesis
        using hang_reach(2) [OF h] d(3,4,5) by (intro tablesI [of "at @ [i]"]) auto
    next
      assume "u \<in> tables m root"
      then obtain "is" where "is": "path is" "length is \<le> 3" "reach m root is = Some u"
        by (auto simp: tables_def)
      then show ?thesis
        using old hang_reach_old [OF h "is"(1,2)] by (intro tablesI [OF "is"(1,2)]) simp
    qed
  qed
qed

lemma hang_tree:
  assumes h: "hangs m m' root at t i c"
  shows "tree m' root"
  unfolding tree_def
proof (intro conjI allI impI)
  note d = hangsD [OF h]
  fix "is" js u
  assume a: "path is \<and> path js \<and> length is \<le> 3 \<and> length js \<le> 3
    \<and> reach m' root is = Some u \<and> reach m' root js = Some u"
  show "is = js"
    using hang_reach_new [OF h, of "is" u] hang_reach_new [OF h, of js u] a d(11)
      tree_unique [OF d(1), of "is" js u]
    by (auto intro: tablesI)
next
  note d = hangsD [OF h]
  note bits = link_bits [OF d(9,10)]
  fix "is" k u
  assume a: "path is \<and> length is \<le> 2 \<and> k < 512 \<and> reach m' root is = Some u \<and> present (ent m' u k)"
  then have "u \<noteq> c \<or> is \<noteq> at @ [i]"
    using d(12) by (auto simp: present_def)
  then have old: "reach m root is = Some u"
    using hang_reach_new [OF h, of "is" u] a by auto
  have "ent m' u k = ent m u k" if "(u, k) \<noteq> (t, i)"
    using d(7) that a tablesI [of "is" m root u] old by (auto simp: same_but_def)
  then have cases: "(u, k) = (t, i) \<or> ent m' u k = ent m u k"
    by blast
  { assume "length is \<le> 1"
    then show "\<not> huge (ent m' u k)"
      using cases tree_entry(1) [OF d(1), of "is" k u] a old d(8) bits by auto }
  { assume "\<not> huge (ent m' u k)"
    then show "ent m' u k AND NOT (mask 12) = hw_addr (ent m' u k)"
      using cases tree_entry(2) [OF d(1), of "is" k u] a old d(8) bits by auto }
qed

lemma hang_leaf:
  assumes h: "hangs m m' root at t i c" and js: "path js" "length js = 4"
  shows "leaf m' root js = leaf m root js"
proof (cases "prefix (at @ [i]) js")
  case False
  note d = hangsD [OF h]
  show ?thesis
    using leaf_off [OF d(1,7,2,3) _ d(5) js False] d(4) by simp
next
  case True
  note d = hangsD [OF h]
  note bits = link_bits [OF d(9,10)]
  from True obtain rest where rest: "js = at @ i # rest"
    by (auto simp: prefix_def)
  then obtain k "is" where tail: "rest = k # is"
    using js(2) d(4) by (cases rest) auto
  have "leaf m root js = None"
    using leaf_reach [OF d(2), of "i # k # is"] d(6) by (simp add: rest tail)
  moreover have "leaf m' root js = None"
    using leaf_reach [OF hang_reach(1) [OF h], of "i # k # is"] d(8,12) bits js(1)
    by (simp add: rest tail present_def)
  ultimately show ?thesis
    by simp
qed

lemma hang_translate: "hangs m m' root at t i c \<Longrightarrow> translate m' root v = translate m root v"
  by (simp add: translate_def hang_leaf)

section \<open>Writing a mapping entry\<close>

text \<open>
  \<open>m'\<close> is \<open>m\<close> with entry \<open>i\<close> of the table \<open>t\<close>, at the end of the path \<open>at\<close>, replaced by the
  mapping entry \<open>e\<close>.
\<close>

definition maps :: "memory \<Rightarrow> memory \<Rightarrow> u64 \<Rightarrow> nat list \<Rightarrow> u64 \<Rightarrow> nat \<Rightarrow> u64 \<Rightarrow> bool" where
  "maps m m' root at t i e \<longleftrightarrow>
     tree m root \<and> reach m root at = Some t \<and> path at \<and> i < 512
   \<and> same_but m m' root t i \<and> ent m' t i = e
   \<and> (length at = 3 \<or> length at = 2 \<and> (present e \<longrightarrow> huge e))"

lemma mapsD:
  assumes "maps m m' root at t i e"
  shows "tree m root" "reach m root at = Some t" "path at" "i < 512" "same_but m m' root t i"
    "ent m' t i = e" "length at = 3 \<or> length at = 2 \<and> (present e \<longrightarrow> huge e)" "length at \<le> 3"
  using assms by (auto simp: maps_def)

lemma maps_reach_old:
  "maps m m' root at t i e \<Longrightarrow> path is \<Longrightarrow> length is \<le> 3 \<Longrightarrow> \<not> prefix (at @ [i]) is \<Longrightarrow>
   reach m' root is = reach m root is"
  using reach_off [of m root m' t i at] by (auto simp: maps_def)

lemma maps_reach_at:
  assumes "maps m m' root at t i e"
  shows "reach m' root at = Some t"
proof -
  have "\<not> prefix (at @ [i]) at"
    by (auto dest: prefix_length_le)
  then show ?thesis
    using maps_reach_old [OF assms, of at] mapsD [OF assms] by simp
qed

lemma maps_reach_new:
  assumes w: "maps m m' root at t i e"
    and "is": "path is" "length is \<le> 3" "reach m' root is = Some u"
  shows "\<not> prefix (at @ [i]) is \<and> reach m root is = Some u"
proof -
  note d = mapsD [OF w]
  have "\<not> prefix (at @ [i]) is"
  proof
    assume p: "prefix (at @ [i]) is"
    then have "present e \<longrightarrow> huge e"
      using "is"(2) d(7) prefix_length_le by fastforce
    moreover obtain js where "is = at @ i # js"
      using p by (auto simp: prefix_def)
    ultimately show False
      using "is"(3) maps_reach_at [OF w] d(6) by (auto simp: reach_append Let_def)
  qed
  then show ?thesis
    using "is" maps_reach_old [OF w] by simp
qed

lemma maps_tables: "maps m m' root at t i e \<Longrightarrow> tables m' root \<subseteq> tables m root"
  using maps_reach_new by (fastforce simp: tables_def)

lemma maps_tree:
  assumes w: "maps m m' root at t i e"
  shows "tree m' root"
  unfolding tree_def
proof (intro conjI allI impI)
  fix "is" js u
  assume a: "path is \<and> path js \<and> length is \<le> 3 \<and> length js \<le> 3
    \<and> reach m' root is = Some u \<and> reach m' root js = Some u"
  then show "is = js"
    using maps_reach_new [OF w, of "is" u] maps_reach_new [OF w, of js u]
      tree_unique [OF mapsD(1) [OF w], of "is" js u] by simp
next
  note d = mapsD [OF w]
  fix "is" k u
  assume a: "path is \<and> length is \<le> 2 \<and> k < 512 \<and> reach m' root is = Some u \<and> present (ent m' u k)"
  then have old: "reach m root is = Some u"
    using maps_reach_new [OF w, of "is" u] by auto
  have cases: "(u, k) = (t, i) \<or> ent m' u k = ent m u k"
    using d(5) a tablesI [of "is" m root u] old by (auto simp: same_but_def)
  have at_is: "(u, k) = (t, i) \<Longrightarrow> length is = 2 \<and> huge (ent m' u k)"
    using tree_unique [OF d(1), of "is" at t] a old d(2,3,6,7,8) by auto
  { assume "length is \<le> 1"
    then show "\<not> huge (ent m' u k)"
      using cases at_is tree_entry(1) [OF d(1), of "is" k u] a old by auto }
  { assume "\<not> huge (ent m' u k)"
    then show "ent m' u k AND NOT (mask 12) = hw_addr (ent m' u k)"
      using cases at_is tree_entry(2) [OF d(1), of "is" k u] a old by auto }
qed

lemma maps_leaf:
  assumes w: "maps m m' root at t i e" and js: "path js" "length js = 4"
  shows "leaf m' root js =
    (if prefix (at @ [i]) js then (if present e then Some (e, 3 - length at) else None)
     else leaf m root js)"
proof (cases "prefix (at @ [i]) js")
  case False
  note d = mapsD [OF w]
  show ?thesis
    using leaf_off [OF d(1,5,2,3,8,4) js False] False by simp
next
  case True
  note d = mapsD [OF w]
  from True obtain rest where rest: "js = at @ i # rest"
    by (auto simp: prefix_def)
  have "leaf m' root js = leaf m' t (i # rest)"
    unfolding rest by (rule leaf_reach [OF maps_reach_at [OF w]]) simp
  also have "\<dots> = (if present e then Some (e, length rest) else None)"
    using d(6,7) js(2) rest by (auto simp: Let_def)
  also have "length rest = 3 - length at"
    using js(2) rest by simp
  finally show ?thesis
    using True by simp
qed

end
