(* ===== verification/Machine.thy ===== *)
theory Machine
  imports Memory
begin

text \<open>
  The machine the firmware runs on, as far as the C code touches it: memory, I/O ports and
  memory mapped registers (core.c), the interrupt flag, and the spin locks of core.c as one core
  sees them.

  Devices are not under src/. They are a parameter: a \<open>device\<close> answers each read with a value
  that may depend on everything the firmware did to the ports before (newest event first), which
  covers every deterministic device and every interleaving of its internal changes.

  Diagnostics printed by the components are recorded in \<open>klog\<close>, newest first, as the format
  string (without its final newline) and the arguments; what a format prints is the subject of
  the serial driver theory.
\<close>

unbundle bit_operations_syntax

section \<open>State\<close>

datatype parg = Num u64 | Str "string option"

datatype io_event =
    Out8 u16 u8 | Out16 u16 u16 | Out32 u16 u32
  | In8 u16 | In16 u16 | In32 u16
  | MmioRead u64 | MmioWrite u64 u32
  | Invlpg u64 | LoadCr3 u64 | Lidt u64 | Sti | Hlt | Int3 | Tsc

datatype lock_id =
    Avmf_lock | Avmf_lock2 | Acpi_lock | Ata_lock | Ps2_lock
  | Serial_lock | Serialp_lock | Serialf_lock | Serialc_lock
  | Vmem_lock | Vmemf_lock | Vmemc_lock | Vmem_cur_lock
  | Boot_lock | Queue_lock nat | Command_lock nat

record device =
  dev_in8 :: "io_event list \<Rightarrow> u16 \<Rightarrow> u8"
  dev_in16 :: "io_event list \<Rightarrow> u16 \<Rightarrow> u16"
  dev_in32 :: "io_event list \<Rightarrow> u16 \<Rightarrow> u32"
  dev_mmio :: "io_event list \<Rightarrow> u64 \<Rightarrow> u32"
  dev_tsc :: "io_event list \<Rightarrow> u64"
  dev_cpuid :: "u32 \<Rightarrow> u32 \<times> u32 \<times> u32 \<times> u32"

record mach =
  mem :: memory
  io :: "io_event list"
  klog :: "(string \<times> parg list) list"
  locks :: "lock_id \<Rightarrow> bool"
  rflags :: u64

definition diag :: "string \<Rightarrow> parg list \<Rightarrow> 'a mach_scheme \<Rightarrow> 'a mach_scheme" where
  "diag fmt args s = s\<lparr>klog := (fmt, args) # klog s\<rparr>"

definition event :: "io_event \<Rightarrow> 'a mach_scheme \<Rightarrow> 'a mach_scheme" where
  "event e s = s\<lparr>io := e # io s\<rparr>"

lemma diag_frame [simp]:
  "mem (diag f a s) = mem s" "io (diag f a s) = io s" "locks (diag f a s) = locks s"
  "rflags (diag f a s) = rflags s" "klog (diag f a s) = (f, a) # klog s"
  "mach.more (diag f a s) = mach.more s"
  by (simp_all add: diag_def)

lemma event_frame [simp]:
  "mem (event e s) = mem s" "io (event e s) = e # io s" "locks (event e s) = locks s"
  "rflags (event e s) = rflags s" "klog (event e s) = klog s"
  "mach.more (event e s) = mach.more s"
  by (simp_all add: event_def)

section \<open>Port I/O\<close>

definition outb :: "u16 \<Rightarrow> u8 \<Rightarrow> 'a mach_scheme \<Rightarrow> 'a mach_scheme" where
  "outb port value = event (Out8 port value)"

definition outw :: "u16 \<Rightarrow> u16 \<Rightarrow> 'a mach_scheme \<Rightarrow> 'a mach_scheme" where
  "outw port value = event (Out16 port value)"

definition outl :: "u16 \<Rightarrow> u32 \<Rightarrow> 'a mach_scheme \<Rightarrow> 'a mach_scheme" where
  "outl port value = event (Out32 port value)"

definition inb :: "device \<Rightarrow> u16 \<Rightarrow> 'a mach_scheme \<Rightarrow> u8 \<times> 'a mach_scheme" where
  "inb dev port s = (dev_in8 dev (io s) port, event (In8 port) s)"

definition inw :: "device \<Rightarrow> u16 \<Rightarrow> 'a mach_scheme \<Rightarrow> u16 \<times> 'a mach_scheme" where
  "inw dev port s = (dev_in16 dev (io s) port, event (In16 port) s)"

definition inl :: "device \<Rightarrow> u16 \<Rightarrow> 'a mach_scheme \<Rightarrow> u32 \<times> 'a mach_scheme" where
  "inl dev port s = (dev_in32 dev (io s) port, event (In32 port) s)"

text \<open>\<open>rep insw\<close> and \<open>rep outsw\<close>: \<open>count\<close> words between a port and consecutive memory.\<close>

fun insw :: "device \<Rightarrow> u16 \<Rightarrow> u64 \<Rightarrow> nat \<Rightarrow> 'a mach_scheme \<Rightarrow> 'a mach_scheme" where
  "insw dev port buf 0 s = s"
| "insw dev port buf (Suc count) s =
     (let (v, s) = inw dev port s
      in insw dev port (buf + 2) count (s\<lparr>mem := st16 (mem s) buf v\<rparr>))"

fun outsw :: "u16 \<Rightarrow> u64 \<Rightarrow> nat \<Rightarrow> 'a mach_scheme \<Rightarrow> 'a mach_scheme" where
  "outsw port buf 0 s = s"
| "outsw port buf (Suc count) s = outsw port (buf + 2) count (outw port (ld16 (mem s) buf) s)"

section \<open>Spin locks, as one core runs them\<close>

text \<open>
  \<open>__sync_lock_test_and_set\<close> on a free lock takes it; on a held lock the core spins. No other
  core runs in this sequential model, so spinning never ends: \<open>None\<close>. The interleaving of
  several cores is the subject of the theory on spin locks.
\<close>

definition spin_lock :: "lock_id \<Rightarrow> 'a mach_scheme \<Rightarrow> 'a mach_scheme option" where
  "spin_lock l s = (if locks s l then None else Some (s\<lparr>locks := (locks s)(l := True)\<rparr>))"

definition spin_unlock :: "lock_id \<Rightarrow> 'a mach_scheme \<Rightarrow> 'a mach_scheme" where
  "spin_unlock l s = s\<lparr>locks := (locks s)(l := False)\<rparr>"

text \<open>Bit 9 of the flags register enables interrupts; \<open>cli\<close> clears it.\<close>

definition cli :: "'a mach_scheme \<Rightarrow> 'a mach_scheme" where
  "cli s = s\<lparr>rflags := rflags s AND NOT (push_bit 9 1)\<rparr>"

definition spin_lock_irqsave :: "lock_id \<Rightarrow> ('a mach_scheme, u64) op" where
  "spin_lock_irqsave l s =
     (let flags = rflags s
      in map_option (\<lambda>s. (flags, s)) (spin_lock l (cli s)))"

definition spin_unlock_irqrestore :: "lock_id \<Rightarrow> u64 \<Rightarrow> 'a mach_scheme \<Rightarrow> 'a mach_scheme" where
  "spin_unlock_irqrestore l flags s = (spin_unlock l s)\<lparr>rflags := flags\<rparr>"

text \<open>
  A C function that takes a lock at entry and gives it back before each of its returns: the
  body between the two, whatever return it takes.
\<close>

definition locked :: "lock_id \<Rightarrow> ('a mach_scheme, 'r) op \<Rightarrow> ('a mach_scheme, 'r) op" where
  "locked l body s = do {
     (flags, s) \<leftarrow> spin_lock_irqsave l s;
     (r, s) \<leftarrow> body s;
     Some (r, spin_unlock_irqrestore l flags s) }"

definition taken :: "lock_id \<Rightarrow> 'a mach_scheme \<Rightarrow> 'a mach_scheme" where
  "taken l s = (cli s)\<lparr>locks := (locks s)(l := True)\<rparr>"

lemma locked_held: "locks s l \<Longrightarrow> locked l body s = None"
  by (simp add: locked_def spin_lock_irqsave_def spin_lock_def cli_def)

lemma locked_free:
  "\<not> locks s l \<Longrightarrow> locked l body s =
     map_option (\<lambda>(r, t). (r, t\<lparr>locks := (locks t)(l := False), rflags := rflags s\<rparr>))
       (body (taken l s))"
  by (cases "body (taken l s)")
     (auto simp: locked_def spin_lock_irqsave_def spin_lock_def cli_def taken_def
        spin_unlock_irqrestore_def spin_unlock_def)

lemma taken_frame [simp]:
  "mem (taken l s) = mem s" "io (taken l s) = io s" "klog (taken l s) = klog s"
  "locks (taken l s) = (locks s)(l := True)" "mach.more (taken l s) = mach.more s"
  by (simp_all add: taken_def cli_def)

end
