(* ===== verification/Bitmap.thy ===== *)
theory Bitmap
  imports Prelude
begin

text \<open>
  The physical page bitmap of avmf.c: one bit per 4 KiB page in an array of 64-bit words, the
  three bit operations, the loop that applies one of them to a run of pages, and the search for
  a run of free pages. \<open>page_map\<close> is the interface the allocator relies on, a set of page
  numbers below a capacity; it is interpreted by the bitmap.
\<close>

unbundle bit_operations_syntax

section \<open>Bit operations\<close>

definition bitmap_set :: "u64 list \<Rightarrow> u64 \<Rightarrow> u64 list option" where
  "bitmap_set bm page_idx =
     (let i = unat (drop_bit 6 page_idx) in
      if i < length bm
      then Some (bm[i := bm ! i OR push_bit (unat (page_idx AND 63)) 1]) else None)"

definition bitmap_clear :: "u64 list \<Rightarrow> u64 \<Rightarrow> u64 list option" where
  "bitmap_clear bm page_idx =
     (let i = unat (drop_bit 6 page_idx) in
      if i < length bm
      then Some (bm[i := bm ! i AND NOT (push_bit (unat (page_idx AND 63)) 1)]) else None)"

definition bitmap_test :: "u64 list \<Rightarrow> u64 \<Rightarrow> u8 option" where
  "bitmap_test bm page_idx =
     (let i = unat (drop_bit 6 page_idx) in
      if i < length bm
      then Some (ucast (drop_bit (unat (page_idx AND 63)) (bm ! i) AND 1)) else None)"

section \<open>Loops over pages\<close>

text \<open>\<open>for (j = 0; j < n; j++) f(p + j)\<close>\<close>

fun each_page :: "('b \<Rightarrow> u64 \<Rightarrow> 'b option) \<Rightarrow> u64 \<Rightarrow> nat \<Rightarrow> 'b \<Rightarrow> 'b option" where
  "each_page f p 0 b = Some b"
| "each_page f p (Suc n) b = do { b \<leftarrow> f b p; each_page f (p + 1) n b }"

text \<open>
  The \<open>while (p < end_page)\<close> loop of \<open>avmf_alloc_phys_contiguous\<close>: \<open>Some (Some r)\<close> when a
  run of \<open>need\<close> free pages starts at \<open>r\<close>, \<open>Some None\<close> when the loop runs to its end.
\<close>

function find_run ::
  "(u64 \<Rightarrow> u8 option) \<Rightarrow> u64 \<Rightarrow> u64 \<Rightarrow> u64 \<Rightarrow> u64 \<Rightarrow> u64 \<Rightarrow> u64 option option" where
  "find_run test need end_page p run_start run_len =
     (if p < end_page then do {
        used \<leftarrow> test p;
        if used = 0 then
          (let run_start' = (if run_len = 0 then p else run_start);
               run_len' = run_len + 1
           in if need \<le> run_len' then Some (Some run_start')
              else find_run test need end_page (p + 1) run_start' run_len')
        else find_run test need end_page (p + 1) run_start 0 }
      else Some None)"
  by pat_completeness auto
termination
  by (relation "measure (\<lambda>(t, n, e, p, s, l). unat e - unat p)")
     (auto simp: unat_suc_less word_less_nat_alt)

declare find_run.simps [simp del]

section \<open>The interface\<close>

locale page_map =
  fixes test :: "'b \<Rightarrow> u64 \<Rightarrow> u8 option"
    and set_bit :: "'b \<Rightarrow> u64 \<Rightarrow> 'b option"
    and clear_bit :: "'b \<Rightarrow> u64 \<Rightarrow> 'b option"
    and pages :: "'b \<Rightarrow> nat set"
    and cap :: "'b \<Rightarrow> nat"
  assumes test_in: "unat p < cap b \<Longrightarrow> test b p = Some (if unat p \<in> pages b then 1 else 0)"
    and set_in: "unat p < cap b \<Longrightarrow>
      \<exists>b'. set_bit b p = Some b' \<and> pages b' = insert (unat p) (pages b) \<and> cap b' = cap b"
    and clear_in: "unat p < cap b \<Longrightarrow>
      \<exists>b'. clear_bit b p = Some b' \<and> pages b' = pages b - {unat p} \<and> cap b' = cap b"
    and test_out: "\<not> unat p < cap b \<Longrightarrow> test b p = None"
begin

lemma each_set:
  "unat p + n \<le> cap b \<Longrightarrow> unat p + n < 2 ^ 64 \<Longrightarrow>
   \<exists>b'. each_page set_bit p n b = Some b' \<and> pages b' = pages b \<union> {unat p ..< unat p + n}
        \<and> cap b' = cap b"
proof (induction n arbitrary: p b)
  case 0
  then show ?case by simp
next
  case (Suc n)
  have p1: "unat (p + 1) = Suc (unat p)"
    using Suc.prems(2) by (subst unat_plus_less) simp_all
  obtain b1 where b1: "set_bit b p = Some b1" "pages b1 = insert (unat p) (pages b)"
      "cap b1 = cap b"
    using set_in [of p b] Suc.prems by auto
  have "unat (p + 1) + n \<le> cap b1" and "unat (p + 1) + n < 2 ^ 64"
    using Suc.prems b1 p1 by simp_all
  from Suc.IH [OF this] obtain b' where b': "each_page set_bit (p + 1) n b1 = Some b'"
      "pages b' = pages b1 \<union> {Suc (unat p) ..< Suc (unat p) + n}" "cap b' = cap b1"
    unfolding p1 by blast
  have "{unat p ..< unat p + Suc n} = insert (unat p) {Suc (unat p) ..< Suc (unat p) + n}"
    by auto
  with b1 b' show ?case
    by simp
qed

lemma each_clear:
  "unat p + n \<le> cap b \<Longrightarrow> unat p + n < 2 ^ 64 \<Longrightarrow>
   \<exists>b'. each_page clear_bit p n b = Some b' \<and> pages b' = pages b - {unat p ..< unat p + n}
        \<and> cap b' = cap b"
proof (induction n arbitrary: p b)
  case 0
  then show ?case by simp
next
  case (Suc n)
  have p1: "unat (p + 1) = Suc (unat p)"
    using Suc.prems(2) by (subst unat_plus_less) simp_all
  obtain b1 where b1: "clear_bit b p = Some b1" "pages b1 = pages b - {unat p}"
      "cap b1 = cap b"
    using clear_in [of p b] Suc.prems by auto
  have "unat (p + 1) + n \<le> cap b1" and "unat (p + 1) + n < 2 ^ 64"
    using Suc.prems b1 p1 by simp_all
  from Suc.IH [OF this] obtain b' where b': "each_page clear_bit (p + 1) n b1 = Some b'"
      "pages b' = pages b1 - {Suc (unat p) ..< Suc (unat p) + n}" "cap b' = cap b1"
    unfolding p1 by blast
  have "{unat p ..< unat p + Suc n} = insert (unat p) {Suc (unat p) ..< Suc (unat p) + n}"
    by auto
  moreover have "pages b - {unat p} - X = pages b - insert (unat p) X" for X
    by blast
  ultimately have pg: "pages b' = pages b - {unat p ..< unat p + Suc n}"
    by (simp only: b' b1)
  have "each_page clear_bit p (Suc n) b = Some b'" and "cap b' = cap b"
    by (simp_all add: b' b1)
  with pg show ?case
    by blast
qed

text \<open>
  The search started at \<open>q\<close>, with a current run of \<open>l\<close> free pages just before \<open>p\<close>. It stays
  in bounds, and its answer is the first run of \<open>need\<close> free pages at or after the start of the
  current run, if there is one below \<open>end_page\<close>.
\<close>

definition run_at :: "'b \<Rightarrow> nat \<Rightarrow> nat \<Rightarrow> nat \<Rightarrow> bool" where
  "run_at b need e r \<longleftrightarrow> r + need \<le> e \<and> {r ..< r + need} \<inter> pages b = {}"

lemma find_run_correct:
  assumes "unat e \<le> cap b" and "0 < need"
    and "unat l < unat need" and "unat l \<le> unat p" and "unat p \<le> unat e"
    and "{unat p - unat l ..< unat p} \<inter> pages b = {}"
    and "l \<noteq> 0 \<Longrightarrow> unat s = unat p - unat l"
  shows "(\<exists>r. find_run (test b) need e p s l = Some (Some r) \<and> run_at b (unat need) (unat e) (unat r)
            \<and> unat p - unat l \<le> unat r
            \<and> (\<forall>q. unat p - unat l \<le> q \<and> q < unat r \<longrightarrow> \<not> run_at b (unat need) (unat e) q))
       \<or> (find_run (test b) need e p s l = Some None
            \<and> (\<forall>q. unat p - unat l \<le> q \<longrightarrow> \<not> run_at b (unat need) (unat e) q))"
  using assms
proof (induction "unat e - unat p" arbitrary: p s l rule: less_induct)
  case less
  let ?f = "find_run (test b) need e"
  show ?case
  proof (cases "p < e")
    case False
    then have pe: "unat p = unat e"
      using less.prems by (simp add: word_less_nat_alt)
    have "\<not> run_at b (unat need) (unat e) q" if "unat p - unat l \<le> q" for q
      using that pe less.prems by (auto simp: run_at_def)
    then show ?thesis
      using False by (auto simp: find_run.simps [of _ _ _ p])
  next
    case True
    then have lt: "unat p < unat e" and p1: "unat (p + 1) = Suc (unat p)"
      by (simp_all add: word_less_nat_alt unat_suc_less)
    have t: "test b p = Some (if unat p \<in> pages b then 1 else 0)"
      using test_in lt less.prems(1) by simp
    have dec: "unat e - unat (p + 1) < unat e - unat p"
      using lt p1 by simp
    show ?thesis
    proof (cases "unat p \<in> pages b")
      case used: True
      have step: "?f p s l = ?f (p + 1) s 0"
        using t used True by (simp add: find_run.simps [of _ _ _ p])
      have skip: "\<not> run_at b (unat need) (unat e) q"
        if "unat p - unat l \<le> q" "q \<le> unat p" for q
        using that used less.prems(3,4) by (fastforce simp: run_at_def)
      have "unat need > 0"
        using less.prems(2) by (simp add: word_less_nat_alt)
      from less.hyps [OF dec, of 0 s] this less.prems(1,2) lt p1
      have "(\<exists>r. ?f (p + 1) s 0 = Some (Some r) \<and> run_at b (unat need) (unat e) (unat r)
              \<and> Suc (unat p) \<le> unat r
              \<and> (\<forall>q. Suc (unat p) \<le> q \<and> q < unat r \<longrightarrow> \<not> run_at b (unat need) (unat e) q))
          \<or> (?f (p + 1) s 0 = Some None
              \<and> (\<forall>q. Suc (unat p) \<le> q \<longrightarrow> \<not> run_at b (unat need) (unat e) q))"
        by simp
      then show ?thesis
      proof (elim disjE exE conjE)
        fix r
        assume r: "?f (p + 1) s 0 = Some (Some r)" "run_at b (unat need) (unat e) (unat r)"
          "Suc (unat p) \<le> unat r"
          and first: "\<forall>q. Suc (unat p) \<le> q \<and> q < unat r \<longrightarrow> \<not> run_at b (unat need) (unat e) q"
        have "\<not> run_at b (unat need) (unat e) q" if "unat p - unat l \<le> q \<and> q < unat r" for q
          using that first skip by (cases "q \<le> unat p") simp_all
        then show ?thesis
          unfolding step using r by auto
      next
        assume n: "?f (p + 1) s 0 = Some None"
          and none: "\<forall>q. Suc (unat p) \<le> q \<longrightarrow> \<not> run_at b (unat need) (unat e) q"
        have "\<not> run_at b (unat need) (unat e) q" if "unat p - unat l \<le> q" for q
          using that none skip by (cases "q \<le> unat p") simp_all
        then show ?thesis
          unfolding step using n by simp
      qed
    next
      case free: False
      define s' where "s' = (if l = 0 then p else s)"
      have s': "unat s' = unat p - unat l"
        using less.prems(7) by (simp add: s'_def)
      have "unat l + 1 < 2 ^ 64"
        using less.prems(3) unat_less_exp [of need] by simp
      then have l1: "unat (l + 1) = Suc (unat l)"
        by (subst unat_plus_less) simp_all
      have run: "{unat p - unat l ..< Suc (unat p)} \<inter> pages b = {}"
        using less.prems(4,6) free by (auto simp: less_Suc_eq)
      have step: "?f p s l = (if need \<le> l + 1 then Some (Some s') else ?f (p + 1) s' (l + 1))"
        using t free True by (simp add: find_run.simps [of _ _ _ p] s'_def Let_def)
      show ?thesis
      proof (cases "need \<le> l + 1")
        case True
        then have "unat need = Suc (unat l)"
          using less.prems(3) l1 by (simp add: word_le_nat_alt)
        moreover have "run_at b (unat need) (unat e) (unat s')"
          using run lt s' less.prems(4) calculation by (auto simp: run_at_def)
        ultimately show ?thesis
          using step True s' by auto
      next
        case False
        then have nl: "unat (l + 1) < unat need"
          by (simp add: word_le_nat_alt)
        have start: "unat (p + 1) - unat (l + 1) = unat p - unat l"
          using p1 l1 by simp
        have "{unat (p + 1) - unat (l + 1) ..< unat (p + 1)} \<inter> pages b = {}"
          using run p1 start by simp
        moreover have "unat s' = unat (p + 1) - unat (l + 1)"
          using s' start by simp
        ultimately show ?thesis
          using less.hyps [OF dec, of "l + 1" s'] less.prems(1,2,4) lt p1 l1 nl False
          unfolding step start by simp
      qed
    qed
  qed
qed

lemma find_run_search:
  assumes "unat e \<le> cap b" and "0 < need" and "unat p \<le> unat e"
  shows "(\<exists>r. find_run (test b) need e p 0 0 = Some (Some r) \<and> run_at b (unat need) (unat e) (unat r)
            \<and> unat p \<le> unat r
            \<and> (\<forall>q. unat p \<le> q \<and> q < unat r \<longrightarrow> \<not> run_at b (unat need) (unat e) q))
       \<or> (find_run (test b) need e p 0 0 = Some None
            \<and> (\<forall>q. unat p \<le> q \<longrightarrow> \<not> run_at b (unat need) (unat e) q))"
  using find_run_correct [of e b need 0 p 0] assms by (simp add: word_less_nat_alt)

end

section \<open>The bitmap as a set of pages\<close>

definition used_pages :: "u64 list \<Rightarrow> nat set" where
  "used_pages bm = {n. n < 64 * length bm \<and> bit (bm ! (n div 64)) (n mod 64)}"

definition bitmap_cap :: "u64 list \<Rightarrow> nat" where
  "bitmap_cap bm = 64 * length bm"

lemma unat_page_word: "unat (drop_bit 6 p) = unat p div 64" for p :: u64
  by (simp add: unat_drop)

lemma unat_page_bit: "unat (p AND 63) = unat p mod 64" for p :: u64
  using unat_and_mask [of p 6] by (simp add: mask_eq_exp_minus_1)

lemma page_split: "(n div 64 = k div 64 \<and> n mod 64 = k mod 64) \<longleftrightarrow> n = (k::nat)"
  by (metis div_mult_mod_eq)

lemma bit_one_shift: "bit (2 ^ k :: u64) j \<longleftrightarrow> j = k \<and> k < 64"
  by (auto simp: bit_simps)

lemma bitmap_test_in:
  assumes "unat p < bitmap_cap bm"
  shows "bitmap_test bm p = Some (if unat p \<in> used_pages bm then 1 else 0)"
proof -
  let ?w = "drop_bit (unat p mod 64) (bm ! (unat p div 64))"
  have "unat p div 64 < length bm"
    using assms by (simp add: bitmap_cap_def less_mult_imp_div_less mult.commute)
  then have "bitmap_test bm p = Some (ucast (?w AND 1))"
    by (simp add: bitmap_test_def unat_page_word unat_page_bit Let_def)
  also have "?w AND 1 = (if unat p \<in> used_pages bm then 1 else 0)"
    using assms by (simp add: used_pages_def bitmap_cap_def and_one_eq odd_iff_mod_2_eq_one
        bit_iff_odd_drop_bit)
  finally show ?thesis
    by (simp split: if_splits)
qed

lemma bitmap_set_in:
  assumes "unat p < bitmap_cap bm"
  shows "\<exists>bm'. bitmap_set bm p = Some bm' \<and> used_pages bm' = insert (unat p) (used_pages bm)
           \<and> bitmap_cap bm' = bitmap_cap bm"
proof -
  have i: "unat p div 64 < length bm"
    using assms by (simp add: bitmap_cap_def less_mult_imp_div_less mult.commute)
  let ?bm = "bm[unat p div 64 := bm ! (unat p div 64) OR push_bit (unat p mod 64) 1]"
  have "n \<in> used_pages ?bm \<longleftrightarrow> n = unat p \<or> n \<in> used_pages bm" for n
  proof -
    have "n div 64 < length bm \<longleftrightarrow> n < 64 * length bm"
      by (simp add: div_less_iff_less_mult mult.commute)
    then show ?thesis
      using i page_split [of n "unat p"] assms
      by (auto simp: used_pages_def bitmap_cap_def nth_list_update bit_or_iff bit_one_shift)
  qed
  then show ?thesis
    using i by (auto simp: bitmap_set_def unat_page_word unat_page_bit Let_def bitmap_cap_def)
qed

lemma bitmap_clear_in:
  assumes "unat p < bitmap_cap bm"
  shows "\<exists>bm'. bitmap_clear bm p = Some bm' \<and> used_pages bm' = used_pages bm - {unat p}
           \<and> bitmap_cap bm' = bitmap_cap bm"
proof -
  have i: "unat p div 64 < length bm"
    using assms by (simp add: bitmap_cap_def less_mult_imp_div_less mult.commute)
  let ?bm = "bm[unat p div 64 := bm ! (unat p div 64) AND NOT (push_bit (unat p mod 64) 1)]"
  have "n \<in> used_pages ?bm \<longleftrightarrow> n \<noteq> unat p \<and> n \<in> used_pages bm" for n
  proof -
    have "n div 64 < length bm \<longleftrightarrow> n < 64 * length bm"
      by (simp add: div_less_iff_less_mult mult.commute)
    then show ?thesis
      using i page_split [of n "unat p"] assms
      by (auto simp: used_pages_def bitmap_cap_def nth_list_update bit_and_iff bit_not_iff
          bit_one_shift)
  qed
  then show ?thesis
    using i by (auto simp: bitmap_clear_def unat_page_word unat_page_bit Let_def bitmap_cap_def)
qed

interpretation bm: page_map bitmap_test bitmap_set bitmap_clear used_pages bitmap_cap
proof unfold_locales
  fix p and b :: "u64 list"
  show "\<not> unat p < bitmap_cap b \<Longrightarrow> bitmap_test b p = None"
    by (auto simp: bitmap_test_def bitmap_cap_def unat_page_word Let_def
        div_less_iff_less_mult mult.commute)
qed (rule bitmap_test_in bitmap_set_in bitmap_clear_in, assumption)+

end
