(* ===== verification/Avmf_State.thy ===== *)
theory Avmf_State
  imports Machine Bitmap
begin

text \<open>
  The data of avmf.c and avmf.h: constants, the header of a region, the allocation types and the
  static state of the memory manager, with the two address roundings every operation uses.
\<close>

unbundle bit_operations_syntax

section \<open>Constants\<close>

definition AOS_USER_SPACE_BASE :: u64 where
  "AOS_USER_SPACE_BASE = 0x0000000000001000"

definition AOS_DIRECT_MAP_BASE :: u64 where
  "AOS_DIRECT_MAP_BASE = 0xFFFF800000000000"

definition AOS_KERNEL_SPACE_BASE :: u64 where
  "AOS_KERNEL_SPACE_BASE = 0xFFFFA00000000000"

definition AOS_DRIVER_SPACE_BASE :: u64 where
  "AOS_DRIVER_SPACE_BASE = 0xFFFFC00000000000"

definition AOS_SENSITIVE_SPACE_BASE :: u64 where
  "AOS_SENSITIVE_SPACE_BASE = 0xFFFFE00000000000"

definition AOS_PCIe_VIRT_BASE :: u64 where
  "AOS_PCIe_VIRT_BASE = 0xFFFFF00000000000"

lemmas space_defs = AOS_USER_SPACE_BASE_def AOS_DIRECT_MAP_BASE_def AOS_KERNEL_SPACE_BASE_def
  AOS_DRIVER_SPACE_BASE_def AOS_SENSITIVE_SPACE_BASE_def AOS_PCIe_VIRT_BASE_def

definition AVMF_VERSION :: u16 where "AVMF_VERSION = 0"

definition AVMF_SIGNATURE :: u32 where "AVMF_SIGNATURE = 0xA1322F"

definition AVMF_STATIC_SIZE :: nat where "AVMF_STATIC_SIZE = 2048"

definition BITMAP_SIZE :: nat where "BITMAP_SIZE = 131072"

definition PAGE_SIZE :: u64 where "PAGE_SIZE = 4096"

datatype MemoryAllocType =
    MALLOC_TYPE_UNKNOWN | MALLOC_TYPE_USER | MALLOC_TYPE_KERNEL
  | MALLOC_TYPE_DRIVER | MALLOC_TYPE_SENSITIVE

text \<open>The C enumeration numbers its constants from 0 in this order.\<close>

fun alloc_type_code :: "MemoryAllocType \<Rightarrow> nat" where
  "alloc_type_code MALLOC_TYPE_UNKNOWN = 0"
| "alloc_type_code MALLOC_TYPE_USER = 1"
| "alloc_type_code MALLOC_TYPE_KERNEL = 2"
| "alloc_type_code MALLOC_TYPE_DRIVER = 3"
| "alloc_type_code MALLOC_TYPE_SENSITIVE = 4"

lemma alloc_type_code_inject: "alloc_type_code s = alloc_type_code t \<longleftrightarrow> s = t"
  by (cases s; cases t) simp_all

instantiation MemoryAllocType :: linorder
begin

definition less_eq_MemoryAllocType :: "MemoryAllocType \<Rightarrow> MemoryAllocType \<Rightarrow> bool" where
  "less_eq_MemoryAllocType s t \<longleftrightarrow> alloc_type_code s \<le> alloc_type_code t"

definition less_MemoryAllocType :: "MemoryAllocType \<Rightarrow> MemoryAllocType \<Rightarrow> bool" where
  "less_MemoryAllocType s t \<longleftrightarrow> alloc_type_code s < alloc_type_code t"

instance
  by standard
     (auto simp: less_eq_MemoryAllocType_def less_MemoryAllocType_def alloc_type_code_inject)

end

section \<open>State\<close>

record avmf_header =
  hsignature :: u32
  hversion :: u16
  virt_addr :: u64
  phys_addr :: u64
  hsize :: u64
  hused :: u8
  hflags :: u32
  hattributes :: u32
  hnext :: "nat option"

text \<open>
  A header pointer is an index into \<open>static_headers\<close>, since every header comes from that array;
  \<open>NULL\<close> is \<open>None\<close>. \<open>avmf_base\<close> and \<open>avmf_limit\<close> are arrays of 128 entries that are only
  indexed below 128.
\<close>

record avmf = mach +
  avmf_bitmap :: "u64 list"
  avmf_base :: "nat \<Rightarrow> u64"
  avmf_limit :: "nat \<Rightarrow> u64"
  last_alloc_page :: u64
  heap_kernel :: u64
  heap_driver :: u64
  heap_user :: u64
  heap_sensitive :: u64
  static_headers :: "avmf_header list"
  header_index :: nat
  avmf_head :: "nat option"
  last_found :: "nat option"

definition zero_header :: avmf_header where
  "zero_header = \<lparr>hsignature = 0, hversion = 0, virt_addr = 0, phys_addr = 0, hsize = 0,
     hused = 0, hflags = 0, hattributes = 0, hnext = None\<rparr>"

section \<open>Alignment\<close>

definition align4k :: "u64 \<Rightarrow> u64" where
  "align4k v = (v + PAGE_SIZE - 1) AND NOT (PAGE_SIZE - 1)"

lemma page_mask: "(PAGE_SIZE - 1) = mask 12"
  by (simp add: PAGE_SIZE_def mask_eq_exp_minus_1)

lemma unat_align4k:
  assumes "unat v + 4095 < 2 ^ 64"
  shows "unat (align4k v) = (unat v + 4095) div 4096 * 4096"
proof -
  have eq: "v + PAGE_SIZE - 1 = v + 4095"
    by (simp add: PAGE_SIZE_def)
  have "unat (v + 4095) = unat v + 4095"
    using assms by (subst unat_plus_less) simp_all
  then show ?thesis
    unfolding align4k_def page_mask unat_and_not_mask eq by simp
qed

lemma align4k_page:
  assumes "unat v mod 4096 = 0"
  shows "align4k v = v"
proof -
  obtain k where k: "unat v = 4096 * k"
    using assms by (metis mod_eq_0_iff_dvd dvdE)
  moreover have "unat v < 2 ^ 64"
    using unat_less_exp [of v] by simp
  ultimately have "unat v + 4095 < 2 ^ 64"
    by simp
  then have "unat (align4k v) = (unat v + 4095) div 4096 * 4096"
    by (rule unat_align4k)
  also have "\<dots> = unat v"
    using k by simp
  finally show ?thesis
    by (simp add: word_unat_eq_iff)
qed

lemma align4k_aligned: "unat (align4k v) mod 4096 = 0"
  unfolding align4k_def page_mask unat_and_not_mask by simp

lemma align4k_idem: "align4k (align4k v) = align4k v"
  by (simp add: align4k_page align4k_aligned)

text \<open>The number of pages a request of some bytes takes.\<close>

definition pages_of :: "u64 \<Rightarrow> nat" where
  "pages_of nbytes = (unat nbytes + 4095) div 4096"

lemma unat_align4k_pages: "unat nbytes + 4095 < 2 ^ 64 \<Longrightarrow> unat (align4k nbytes) = pages_of nbytes * 4096"
  by (simp add: unat_align4k pages_of_def)

lemma pages_of_eq: "unat nbytes + 4095 < 2 ^ 64 \<Longrightarrow> unat (align4k nbytes div PAGE_SIZE) = pages_of nbytes"
  by (simp add: unat_div unat_align4k PAGE_SIZE_def pages_of_def)

end
