(* ===== verification/Avmf_Virt.thy ===== *)
theory Avmf_Virt
  imports Avmf_State
begin

text \<open>
  The virtual address allocator of avmf.c: four regions of the address space, each handed out
  from bottom to top by moving a pointer.
\<close>

unbundle bit_operations_syntax

section \<open>Operations\<close>

text \<open>The \<open>switch\<close> of \<open>avmf_alloc_virt\<close>: the pointer and the end of the region of a type.\<close>

fun heap_ptr :: "MemoryAllocType \<Rightarrow> 'a avmf_scheme \<Rightarrow> u64" where
  "heap_ptr MALLOC_TYPE_USER s = heap_user s"
| "heap_ptr MALLOC_TYPE_KERNEL s = heap_kernel s"
| "heap_ptr MALLOC_TYPE_DRIVER s = heap_driver s"
| "heap_ptr MALLOC_TYPE_SENSITIVE s = heap_sensitive s"
| "heap_ptr MALLOC_TYPE_UNKNOWN s = 0"

fun set_heap_ptr :: "MemoryAllocType \<Rightarrow> u64 \<Rightarrow> 'a avmf_scheme \<Rightarrow> 'a avmf_scheme" where
  "set_heap_ptr MALLOC_TYPE_USER v s = s\<lparr>heap_user := v\<rparr>"
| "set_heap_ptr MALLOC_TYPE_KERNEL v s = s\<lparr>heap_kernel := v\<rparr>"
| "set_heap_ptr MALLOC_TYPE_DRIVER v s = s\<lparr>heap_driver := v\<rparr>"
| "set_heap_ptr MALLOC_TYPE_SENSITIVE v s = s\<lparr>heap_sensitive := v\<rparr>"
| "set_heap_ptr MALLOC_TYPE_UNKNOWN v s = s"

fun heap_end :: "MemoryAllocType \<Rightarrow> u64 option" where
  "heap_end MALLOC_TYPE_USER = Some AOS_DIRECT_MAP_BASE"
| "heap_end MALLOC_TYPE_KERNEL = Some AOS_DRIVER_SPACE_BASE"
| "heap_end MALLOC_TYPE_DRIVER = Some AOS_SENSITIVE_SPACE_BASE"
| "heap_end MALLOC_TYPE_SENSITIVE = Some (- 1)"
| "heap_end MALLOC_TYPE_UNKNOWN = None"

definition avmf_alloc_virt :: "u64 \<Rightarrow> MemoryAllocType \<Rightarrow> ('a avmf_scheme, u64) op" where
  "avmf_alloc_virt nbytes type s =
     (case heap_end type of
        None \<Rightarrow> Some (0, diag ''[AVMF] Invalid VMemory Allocation Type!'' [] s)
      | Some lim \<Rightarrow>
          (let true_size = align4k nbytes; ptr = heap_ptr type s
           in if lim < ptr + true_size
              then Some (0, diag ''[AVMF] Not Enough VMemory for Allocation (required: %lx-%lx max-%lx)''
                              [Num ptr, Num (ptr + true_size), Num lim] s)
              else do {
                (_, s) \<leftarrow> locked Avmf_lock
                  (\<lambda>s. Some ((), set_heap_ptr type (heap_ptr type s + true_size) s)) s;
                Some (ptr, s) }))"

section \<open>What an allocation changes\<close>

definition heap_base :: "MemoryAllocType \<Rightarrow> u64" where
  "heap_base type = (case type of
      MALLOC_TYPE_UNKNOWN \<Rightarrow> 0
    | MALLOC_TYPE_USER \<Rightarrow> AOS_USER_SPACE_BASE
    | MALLOC_TYPE_KERNEL \<Rightarrow> AOS_KERNEL_SPACE_BASE
    | MALLOC_TYPE_DRIVER \<Rightarrow> AOS_DRIVER_SPACE_BASE
    | MALLOC_TYPE_SENSITIVE \<Rightarrow> AOS_SENSITIVE_SPACE_BASE)"

lemma heap_ptr_set [simp]:
  "type \<noteq> MALLOC_TYPE_UNKNOWN \<Longrightarrow> heap_ptr type (set_heap_ptr type v s) = v"
  by (cases type) simp_all

lemma heap_ptr_set_other [simp]:
  "t \<noteq> type \<Longrightarrow> heap_ptr t (set_heap_ptr type v s) = heap_ptr t s"
  by (cases t; cases type) simp_all

lemma heap_ptr_cong:
  "heap_user t = heap_user s \<Longrightarrow> heap_kernel t = heap_kernel s \<Longrightarrow> heap_driver t = heap_driver s \<Longrightarrow>
   heap_sensitive t = heap_sensitive s \<Longrightarrow> heap_ptr type t = heap_ptr type s"
  by (cases type) simp_all

lemma heap_ptr_diag [simp]: "heap_ptr type (diag f a s) = heap_ptr type s"
  by (rule heap_ptr_cong) (simp_all add: diag_def)

lemma set_heap_taken:
  "\<not> locks s l \<Longrightarrow>
   (set_heap_ptr type v (taken l s))\<lparr>locks := (locks s)(l := False),
      rflags := rflags s\<rparr> = set_heap_ptr type v s"
  by (cases type; cases s) (simp_all add: taken_def cli_def fun_upd_idem)

lemma heap_ptr_taken [simp]: "heap_ptr type (taken l s) = heap_ptr type s"
  by (rule heap_ptr_cong) (simp_all add: taken_def cli_def)

lemma set_heap_frame [simp]:
  "mem (set_heap_ptr type v s) = mem s" "io (set_heap_ptr type v s) = io s"
  "klog (set_heap_ptr type v s) = klog s" "locks (set_heap_ptr type v s) = locks s"
  "rflags (set_heap_ptr type v s) = rflags s"
  "avmf_bitmap (set_heap_ptr type v s) = avmf_bitmap s"
  "avmf_base (set_heap_ptr type v s) = avmf_base s"
  "avmf_limit (set_heap_ptr type v s) = avmf_limit s"
  "last_alloc_page (set_heap_ptr type v s) = last_alloc_page s"
  "static_headers (set_heap_ptr type v s) = static_headers s"
  "header_index (set_heap_ptr type v s) = header_index s"
  "avmf_head (set_heap_ptr type v s) = avmf_head s"
  "last_found (set_heap_ptr type v s) = last_found s"
  "avmf.more (set_heap_ptr type v s) = avmf.more s"
  by (cases type; simp)+

text \<open>All results of \<open>avmf_alloc_virt\<close>, case by case.\<close>

lemma alloc_virt_cases:
  assumes "\<not> locks s Avmf_lock"
  shows "avmf_alloc_virt nbytes type s =
    (case heap_end type of
       None \<Rightarrow> Some (0, diag ''[AVMF] Invalid VMemory Allocation Type!'' [] s)
     | Some lim \<Rightarrow>
         (if lim < heap_ptr type s + align4k nbytes
          then Some (0, diag ''[AVMF] Not Enough VMemory for Allocation (required: %lx-%lx max-%lx)''
                          [Num (heap_ptr type s), Num (heap_ptr type s + align4k nbytes), Num lim] s)
          else Some (heap_ptr type s, set_heap_ptr type (heap_ptr type s + align4k nbytes) s)))"
  using assms
  by (auto simp: avmf_alloc_virt_def Let_def locked_free set_heap_taken split: option.split)

section \<open>Allocations never overlap\<close>

text \<open>Every heap pointer lies in its region and on a page boundary.\<close>

definition virt_ok :: "'a avmf_scheme \<Rightarrow> bool" where
  "virt_ok s \<longleftrightarrow> (\<forall>type lim. heap_end type = Some lim \<longrightarrow>
     heap_base type \<le> heap_ptr type s \<and> heap_ptr type s \<le> lim
     \<and> unat (heap_ptr type s) mod 4096 = 0)"

definition virt_init :: "'a avmf_scheme \<Rightarrow> bool" where
  "virt_init s \<longleftrightarrow> heap_user s = AOS_USER_SPACE_BASE \<and> heap_kernel s = AOS_KERNEL_SPACE_BASE
     \<and> heap_driver s = AOS_DRIVER_SPACE_BASE \<and> heap_sensitive s = AOS_SENSITIVE_SPACE_BASE"

lemma heap_end_SomeE:
  assumes "heap_end type = Some lim"
  obtains "type = MALLOC_TYPE_USER" "lim = AOS_DIRECT_MAP_BASE"
  | "type = MALLOC_TYPE_KERNEL" "lim = AOS_DRIVER_SPACE_BASE"
  | "type = MALLOC_TYPE_DRIVER" "lim = AOS_SENSITIVE_SPACE_BASE"
  | "type = MALLOC_TYPE_SENSITIVE" "lim = - 1"
  using assms by (cases type) auto

lemma virt_init_ok: "virt_init s \<Longrightarrow> virt_ok s"
  unfolding virt_ok_def
  by (intro allI impI, elim heap_end_SomeE) (simp_all add: virt_init_def heap_base_def space_defs)

text \<open>
  The regions follow each other in the order of the enumeration: the region of a type ends where
  or before the region of every later type begins.
\<close>

lemma heaps_apart:
  "heap_end s = Some lim \<Longrightarrow> s < t \<Longrightarrow> t \<noteq> MALLOC_TYPE_UNKNOWN \<Longrightarrow> lim \<le> heap_base t"
  by (cases s; cases t) (simp_all add: less_MemoryAllocType_def heap_base_def space_defs)

text \<open>
  An allocation whose rounded size does not run past the end of the 64-bit address space.
\<close>

definition virt_fits :: "u64 \<Rightarrow> MemoryAllocType \<Rightarrow> 'a avmf_scheme \<Rightarrow> bool" where
  "virt_fits nbytes type s \<longleftrightarrow> unat (heap_ptr type s) + unat nbytes + 4095 < 2 ^ 64"

lemma alloc_virt_spec:
  assumes "\<not> locks s Avmf_lock" and ok: "virt_ok s" and fits: "virt_fits nbytes type s"
  shows "\<exists>r t. avmf_alloc_virt nbytes type s = Some (r, t) \<and> virt_ok t \<and> locks t = locks s
     \<and> (r = 0 \<and> (\<forall>u. heap_ptr u t = heap_ptr u s)
        \<or> (\<exists>lim. heap_end type = Some lim \<and> r = heap_ptr type s \<and> r \<noteq> 0
            \<and> unat (heap_ptr type t) = unat r + pages_of nbytes * 4096
            \<and> heap_ptr type t \<le> lim \<and> (\<forall>u. u \<noteq> type \<longrightarrow> heap_ptr u t = heap_ptr u s)))"
proof (cases "heap_end type")
  case None
  then show ?thesis
    using assms by (auto simp: alloc_virt_cases virt_ok_def)
next
  case (Some lim)
  let ?p = "heap_ptr type s" and ?n = "align4k nbytes"
  have known: "type \<noteq> MALLOC_TYPE_UNKNOWN"
    using Some by auto
  have ts: "unat ?n = pages_of nbytes * 4096"
    using fits by (intro unat_align4k_pages) (simp add: virt_fits_def)
  have "pages_of nbytes * 4096 \<le> unat nbytes + 4095"
    by (simp add: pages_of_def)
  then have sum: "unat (?p + ?n) = unat ?p + unat ?n"
    using fits ts by (intro unat_plus_less) (simp add: virt_fits_def)
  have p: "heap_base type \<le> ?p" "?p \<le> lim" "unat ?p mod 4096 = 0"
    using ok Some by (simp_all add: virt_ok_def)
  have "0 < heap_base type"
    using Some by (elim heap_end_SomeE) (simp_all add: heap_base_def space_defs)
  then have p0: "?p \<noteq> 0"
    using p(1) by auto
  show ?thesis
  proof (cases "lim < ?p + ?n")
    case True
    then show ?thesis
      using assms(1) ok Some by (auto simp: alloc_virt_cases virt_ok_def)
  next
    case False
    let ?t = "set_heap_ptr type (?p + ?n) s"
    have le: "?p + ?n \<le> lim"
      using False by simp
    have ge: "?p \<le> ?p + ?n"
      unfolding word_le_nat_alt sum by simp
    have al: "unat (?p + ?n) mod 4096 = 0"
      unfolding sum ts using p(3) by simp
    have "virt_ok ?t"
      unfolding virt_ok_def
    proof (intro allI impI)
      fix u l
      assume u: "heap_end u = Some l"
      show "heap_base u \<le> heap_ptr u ?t \<and> heap_ptr u ?t \<le> l \<and> unat (heap_ptr u ?t) mod 4096 = 0"
        using ok u Some le order_trans [OF p(1) ge] al known
        by (cases "u = type") (auto simp: virt_ok_def)
    qed
    moreover have "avmf_alloc_virt nbytes type s = Some (?p, ?t)"
      using assms(1) Some False by (simp add: alloc_virt_cases)
    ultimately show ?thesis
      using Some p0 le known sum ts by auto
  qed
qed

text \<open>
  A sequence of requests, and the ranges handed out for it: region, first address and number of
  bytes. Failed requests hand out nothing.
\<close>

fun alloc_virts ::
  "(u64 \<times> MemoryAllocType) list \<Rightarrow> ('a avmf_scheme, (MemoryAllocType \<times> nat \<times> nat) list) op" where
  "alloc_virts [] s = Some ([], s)"
| "alloc_virts ((nbytes, type) # reqs) s = do {
     (r, s) \<leftarrow> avmf_alloc_virt nbytes type s;
     (rs, s) \<leftarrow> alloc_virts reqs s;
     Some (if r = 0 then rs else (type, unat r, pages_of nbytes * 4096) # rs, s) }"

fun range_of :: "MemoryAllocType \<times> nat \<times> nat \<Rightarrow> nat set" where
  "range_of (type, a, n) = {a ..< a + n}"

text \<open>The bytes a sequence of requests can take from one region.\<close>

definition demand :: "(u64 \<times> MemoryAllocType) list \<Rightarrow> nat" where
  "demand reqs = (\<Sum>(nbytes, type) \<leftarrow> reqs. unat nbytes + 4095)"

lemma demand_Cons: "demand ((nbytes, type) # reqs) = unat nbytes + 4095 + demand reqs"
  by (simp add: demand_def)

text \<open>Where a range may lie: in its region, at or after the region's pointer.\<close>

definition above :: "'a avmf_scheme \<Rightarrow> MemoryAllocType \<times> nat \<times> nat \<Rightarrow> bool" where
  "above s = (\<lambda>(type, a, n). \<exists>lim. heap_end type = Some lim
     \<and> unat (heap_ptr type s) \<le> a \<and> a + n \<le> unat lim)"

lemma above_mono:
  "above t x \<Longrightarrow> (\<And>u. u \<noteq> MALLOC_TYPE_UNKNOWN \<Longrightarrow> unat (heap_ptr u s) \<le> unat (heap_ptr u t)) \<Longrightarrow> above s x"
proof -
  assume t: "above t x"
    and le: "\<And>u. u \<noteq> MALLOC_TYPE_UNKNOWN \<Longrightarrow> unat (heap_ptr u s) \<le> unat (heap_ptr u t)"
  obtain type a n where x: "x = (type, a, n)"
    by (cases x)
  then obtain lim where lim: "heap_end type = Some lim" "unat (heap_ptr type t) \<le> a"
      "a + n \<le> unat lim"
    using t by (auto simp: above_def)
  then have "type \<noteq> MALLOC_TYPE_UNKNOWN"
    by auto
  then have "unat (heap_ptr type s) \<le> a"
    using le lim(2) order_trans by blast
  then show "above s x"
    using lim by (simp add: above_def x)
qed

lemma region_disjoint:
  assumes "heap_end t = Some l" and "heap_end u = Some k" and "t \<noteq> u"
    and "unat (heap_base t) \<le> a" "a + n \<le> unat l" "unat (heap_base u) \<le> b" "b + m \<le> unat k"
  shows "{a ..< a + n} \<inter> {b ..< b + m} = {}"
proof -
  have "t < u \<or> u < t"
    using assms(3) by auto
  moreover have "t \<noteq> MALLOC_TYPE_UNKNOWN" and "u \<noteq> MALLOC_TYPE_UNKNOWN"
    using assms(1,2) by auto
  ultimately have "unat l \<le> unat (heap_base u) \<or> unat k \<le> unat (heap_base t)"
    using assms(1,2) heaps_apart [of t l u] heaps_apart [of u k t]
    by (auto simp: word_le_nat_alt)
  then show ?thesis
    using assms(4-7) by auto
qed

lemma alloc_virts_apart:
  assumes "\<not> locks s Avmf_lock" and "virt_ok s"
    and "\<And>u. unat (heap_ptr u s) + demand reqs < 2 ^ 64"
  shows "\<exists>rs t. alloc_virts reqs s = Some (rs, t) \<and> virt_ok t
     \<and> (\<forall>x \<in> set rs. above s x)
     \<and> sorted_wrt (\<lambda>x y. range_of x \<inter> range_of y = {}) rs"
  using assms
proof (induction reqs arbitrary: s)
  case Nil
  then show ?case by simp
next
  case (Cons req reqs)
  obtain nbytes type where req: "req = (nbytes, type)"
    by (cases req)
  have room: "unat (heap_ptr u s) + (unat nbytes + 4095) + demand reqs < 2 ^ 64" for u
    using Cons.prems(3) [of u] by (simp add: req demand_Cons)
  have "virt_fits nbytes type s"
    using room [of type] by (simp add: virt_fits_def)
  from alloc_virt_spec [OF Cons.prems(1,2) this] obtain r t where
    step: "avmf_alloc_virt nbytes type s = Some (r, t)" and t: "virt_ok t" "locks t = locks s"
    and res: "r = 0 \<and> (\<forall>u. heap_ptr u t = heap_ptr u s)
        \<or> (\<exists>lim. heap_end type = Some lim \<and> r = heap_ptr type s \<and> r \<noteq> 0
            \<and> unat (heap_ptr type t) = unat r + pages_of nbytes * 4096
            \<and> heap_ptr type t \<le> lim \<and> (\<forall>u. u \<noteq> type \<longrightarrow> heap_ptr u t = heap_ptr u s))"
    by blast
  have bound: "pages_of nbytes * 4096 \<le> unat nbytes + 4095"
    by (simp add: pages_of_def)
  have grow: "unat (heap_ptr u s) \<le> unat (heap_ptr u t)"
    and small: "unat (heap_ptr u t) + demand reqs < 2 ^ 64" for u
    using res room [of u] bound by (cases "u = type"; auto)+
  from Cons.IH [OF _ t(1) small] t(2) Cons.prems(1) obtain rs w where
    rest: "alloc_virts reqs t = Some (rs, w)" "virt_ok w" "\<forall>x \<in> set rs. above t x"
      "sorted_wrt (\<lambda>x y. range_of x \<inter> range_of y = {}) rs"
    by auto
  have up: "\<forall>x \<in> set rs. above s x"
    using rest(3) grow by (blast intro: above_mono)
  show ?case
  proof (cases "r = 0")
    case True
    then show ?thesis
      using step rest up by (auto simp: req)
  next
    case False
    then obtain lim where lim: "heap_end type = Some lim" "r = heap_ptr type s"
        "unat (heap_ptr type t) = unat r + pages_of nbytes * 4096" "heap_ptr type t \<le> lim"
      using res by auto
    have new: "above s (type, unat r, pages_of nbytes * 4096)"
      using lim by (auto simp: above_def word_le_nat_alt)
    have "range_of (type, unat r, pages_of nbytes * 4096) \<inter> range_of x = {}" if x_in: "x \<in> set rs" for x
    proof -
      obtain u b m where x: "x = (u, b, m)"
        by (cases x)
      then obtain k where k: "heap_end u = Some k" "unat (heap_ptr u t) \<le> b" "b + m \<le> unat k"
        using bspec [OF rest(3) x_in] by (auto simp: above_def)
      show ?thesis
      proof (cases "u = type")
        case True
        then show ?thesis
          using k lim by (auto simp: x)
      next
        case False
        have "unat (heap_base type) \<le> unat r" and "unat (heap_base u) \<le> unat (heap_ptr u t)"
          using lim(1,2) k(1) Cons.prems(2) t(1) by (simp_all add: virt_ok_def word_le_nat_alt)
        note this(1) order_trans [OF this(2) k(2)]
        with lim k False show ?thesis
          unfolding x range_of.simps
          by (intro region_disjoint [of type lim u k]) (simp_all add: word_le_nat_alt)
      qed
    qed
    then show ?thesis
      using step rest up new False by (auto simp: req)
  qed
qed

end
