(* ===== verification/Avmf_Phys.thy ===== *)
theory Avmf_Phys
  imports Avmf_State
begin

text \<open>
  The physical page allocator of avmf.c: the next-fit search over the 128 memory ranges, the
  allocation, and the initialisation of the ranges.
\<close>

unbundle bit_operations_syntax

section \<open>Operations\<close>

text \<open>
  The loop over the ranges: \<open>Some None\<close> when no range has a run of \<open>pages_needed\<close> free pages
  at or after the place the search starts in it.
\<close>

fun avmf_search :: "u64 \<Rightarrow> nat list \<Rightarrow> 'a avmf_scheme \<Rightarrow> u64 option option" where
  "avmf_search pages_needed [] s = Some None"
| "avmf_search pages_needed (i # is) s =
     (if avmf_limit s i \<le> avmf_base s i then avmf_search pages_needed is s
      else
        (let start_page = drop_bit 12 (align4k (avmf_base s i));
             end_page = drop_bit 12 (avmf_limit s i)
         in if end_page \<le> start_page then avmf_search pages_needed is s
            else
              (let p = (if start_page \<le> last_alloc_page s \<and> last_alloc_page s < end_page
                        then last_alloc_page s else start_page)
               in do {
                 r \<leftarrow> find_run (bitmap_test (avmf_bitmap s)) pages_needed end_page p 0 0;
                 case r of Some run_start \<Rightarrow> Some (Some run_start)
                 | None \<Rightarrow> avmf_search pages_needed is s })))"

definition avmf_alloc_phys_contiguous :: "u64 \<Rightarrow> ('a avmf_scheme, u64) op" where
  "avmf_alloc_phys_contiguous nbytes = locked Avmf_lock (\<lambda>s.
     let sz = align4k nbytes; pages_needed = sz div PAGE_SIZE
     in if pages_needed = 0 then Some (0, s)
        else do {
          r \<leftarrow> avmf_search pages_needed [0..<128] s;
          case r of
            Some run_start \<Rightarrow> do {
              bm \<leftarrow> each_page bitmap_set run_start (unat pages_needed) (avmf_bitmap s);
              Some (push_bit 12 run_start,
                    s\<lparr>avmf_bitmap := bm, last_alloc_page := run_start + pages_needed\<rparr>) }
          | None \<Rightarrow>
              Some (0, diag ''[AVMF] Out of physical memory (Range: 0x%llx bytes)'' [Num sz] s) })"

text \<open>
  \<open>avmf_init\<close>. The loop over the ranges stops at 128; the clearing loop covers the first 200
  words of the bitmap.
\<close>

definition avmf_init ::
  "(nat \<Rightarrow> u64) \<Rightarrow> (nat \<Rightarrow> u64) \<Rightarrow> u8 \<Rightarrow> ('a avmf_scheme, unit) op" where
  "avmf_init base_phys limit_phys entries = locked Avmf_lock (\<lambda>s.
     let ent = (if entries \<le> 128 then entries else 128) in
     if 200 \<le> length (avmf_bitmap s) then
       Some ((), s\<lparr>
         avmf_base := (\<lambda>i. if i < unat ent then base_phys i else avmf_base s i),
         avmf_limit := (\<lambda>i. if i < unat ent then limit_phys i else avmf_limit s i),
         avmf_head := None,
         avmf_bitmap := replicate 200 0 @ drop 200 (avmf_bitmap s)\<rparr>)
     else None)"

section \<open>Well-formed allocator states\<close>

text \<open>The bitmap has its declared size and covers every range.\<close>

definition phys_ok :: "'a avmf_scheme \<Rightarrow> bool" where
  "phys_ok s \<longleftrightarrow> length (avmf_bitmap s) = BITMAP_SIZE div 64
     \<and> (\<forall>i < 128. unat (avmf_limit s i) \<le> 4096 * BITMAP_SIZE)"

definition used :: "'a avmf_scheme \<Rightarrow> nat set" where
  "used s = used_pages (avmf_bitmap s)"

definition range_start :: "'a avmf_scheme \<Rightarrow> nat \<Rightarrow> nat" where
  "range_start s i = unat (drop_bit 12 (align4k (avmf_base s i)))"

definition range_end :: "'a avmf_scheme \<Rightarrow> nat \<Rightarrow> nat" where
  "range_end s i = unat (drop_bit 12 (avmf_limit s i))"

text \<open>A range the search looks at, and the page it starts from.\<close>

definition range_live :: "'a avmf_scheme \<Rightarrow> nat \<Rightarrow> bool" where
  "range_live s i \<longleftrightarrow> avmf_base s i < avmf_limit s i \<and> range_start s i < range_end s i"

definition scan_from :: "'a avmf_scheme \<Rightarrow> nat \<Rightarrow> nat" where
  "scan_from s i =
     (if range_start s i \<le> unat (last_alloc_page s) \<and> unat (last_alloc_page s) < range_end s i
      then unat (last_alloc_page s) else range_start s i)"

text \<open>A run of \<open>n\<close> free pages the search may return from range \<open>i\<close>.\<close>

definition free_run :: "'a avmf_scheme \<Rightarrow> nat \<Rightarrow> nat \<Rightarrow> nat \<Rightarrow> bool" where
  "free_run s n i q \<longleftrightarrow> range_live s i \<and> scan_from s i \<le> q \<and> q + n \<le> range_end s i
     \<and> {q ..< q + n} \<inter> used s = {}"

lemma scan_bounds: "range_live s i \<Longrightarrow> range_start s i \<le> scan_from s i \<and> scan_from s i \<le> range_end s i"
  by (auto simp: scan_from_def range_live_def)

lemma range_end_cap:
  assumes "phys_ok s" and "i < 128"
  shows "range_end s i \<le> BITMAP_SIZE" and "range_end s i \<le> bitmap_cap (avmf_bitmap s)"
proof -
  have "unat (avmf_limit s i) div 4096 \<le> 4096 * BITMAP_SIZE div 4096"
    using assms by (intro div_le_mono) (simp add: phys_ok_def)
  then show "range_end s i \<le> BITMAP_SIZE"
    by (simp add: range_end_def unat_drop)
  then show "range_end s i \<le> bitmap_cap (avmf_bitmap s)"
    using assms by (simp add: phys_ok_def bitmap_cap_def BITMAP_SIZE_def)
qed

text \<open>
  One range: the search returns the first free run of the range, or goes on when it has none.
\<close>

lemma avmf_search_range:
  assumes "phys_ok s" and "i < 128" and "0 < n"
  shows "(\<exists>r. avmf_search n (i # is) s = Some (Some r) \<and> free_run s (unat n) i (unat r)
            \<and> (\<forall>q < unat r. \<not> free_run s (unat n) i q))
       \<or> (avmf_search n (i # is) s = avmf_search n is s \<and> (\<forall>q. \<not> free_run s (unat n) i q))"
proof (cases "range_live s i")
  case False
  then have "avmf_search n (i # is) s = avmf_search n is s"
    by (auto simp: range_live_def range_start_def range_end_def Let_def word_less_nat_alt
        word_le_nat_alt)
  with False show ?thesis
    by (simp add: free_run_def)
next
  case True
  define e where "e = drop_bit 12 (avmf_limit s i)"
  define st where "st = drop_bit 12 (align4k (avmf_base s i))"
  define p where "p = (if st \<le> last_alloc_page s \<and> last_alloc_page s < e
    then last_alloc_page s else st)"
  have e: "unat e = range_end s i" and p: "unat p = scan_from s i"
    by (simp_all add: e_def p_def st_def range_end_def range_start_def scan_from_def
        word_le_nat_alt word_less_nat_alt)
  have live: "\<not> avmf_limit s i \<le> avmf_base s i" "\<not> e \<le> st"
    using True by (auto simp: range_live_def range_start_def range_end_def e_def st_def
        word_le_nat_alt word_less_nat_alt)
  have step: "avmf_search n (i # is) s = do {
      r \<leftarrow> find_run (bitmap_test (avmf_bitmap s)) n e p 0 0;
      case r of Some run_start \<Rightarrow> Some (Some run_start) | None \<Rightarrow> avmf_search n is s }"
    using live by (simp add: Let_def e_def [symmetric] st_def [symmetric] p_def [symmetric])
  have run: "free_run s (unat n) i q \<longleftrightarrow>
      unat p \<le> q \<and> bm.run_at (avmf_bitmap s) (unat n) (unat e) q" for q
    using True by (auto simp: free_run_def bm.run_at_def e p used_def)
  have "unat e \<le> bitmap_cap (avmf_bitmap s)" and "unat p \<le> unat e"
    using range_end_cap [OF assms(1,2)] scan_bounds [OF True] e p by simp_all
  from bm.find_run_search [OF this(1) assms(3) this(2)] show ?thesis
    unfolding step run by auto
qed

lemma avmf_search_sound:
  assumes "phys_ok s" and "0 < n" and "set is \<subseteq> {..<128}"
  shows "(\<exists>r. \<exists>i \<in> set is. avmf_search n is s = Some (Some r) \<and> free_run s (unat n) i (unat r))
       \<or> (avmf_search n is s = Some None \<and> (\<forall>i \<in> set is. \<forall>q. \<not> free_run s (unat n) i q))"
  using assms(3)
proof (induction "is")
  case Nil
  then show ?case by simp
next
  case (Cons i "is")
  then have "i < 128"
    by simp
  from avmf_search_range [OF assms(1) this assms(2), of "is"] show ?case
  proof (elim disjE exE conjE)
    fix r
    assume "avmf_search n (i # is) s = Some (Some r)" "free_run s (unat n) i (unat r)"
    then show ?thesis
      by (metis list.set_intros(1))
  next
    assume eq: "avmf_search n (i # is) s = avmf_search n is s"
      and none: "\<forall>q. \<not> free_run s (unat n) i q"
    show ?thesis
      using Cons none unfolding eq by auto
  qed
qed

section \<open>Allocation\<close>

lemma taken_avmf [simp]:
  "avmf_bitmap (taken l s) = avmf_bitmap s" "avmf_base (taken l s) = avmf_base s"
  "avmf_limit (taken l s) = avmf_limit s" "last_alloc_page (taken l s) = last_alloc_page s"
  "static_headers (taken l s) = static_headers s" "header_index (taken l s) = header_index s"
  "avmf_head (taken l s) = avmf_head s" "last_found (taken l s) = last_found s"
  by (simp_all add: taken_def cli_def)

lemma diag_avmf [simp]:
  "avmf_bitmap (diag f a s) = avmf_bitmap s" "avmf_base (diag f a s) = avmf_base s"
  "avmf_limit (diag f a s) = avmf_limit s" "last_alloc_page (diag f a s) = last_alloc_page s"
  "static_headers (diag f a s) = static_headers s" "header_index (diag f a s) = header_index s"
  "avmf_head (diag f a s) = avmf_head s" "last_found (diag f a s) = last_found s"
  by (simp_all add: diag_def)

lemma avmf_search_cong:
  "avmf_bitmap t = avmf_bitmap s \<Longrightarrow> avmf_base t = avmf_base s \<Longrightarrow> avmf_limit t = avmf_limit s \<Longrightarrow>
   last_alloc_page t = last_alloc_page s \<Longrightarrow> avmf_search n is t = avmf_search n is s"
  by (induction "is") (simp_all add: Let_def)

lemma alloc_phys_step:
  assumes "\<not> locks s Avmf_lock" and "0 < pages_of nbytes" and "unat nbytes + 4095 < 2 ^ 64"
    and n: "n = align4k nbytes div PAGE_SIZE"
  shows "avmf_alloc_phys_contiguous nbytes s =
    (case avmf_search n [0..<128] s of None \<Rightarrow> None
     | Some None \<Rightarrow>
         Some (0, diag ''[AVMF] Out of physical memory (Range: 0x%llx bytes)''
                    [Num (align4k nbytes)] s)
     | Some (Some run) \<Rightarrow>
         (case each_page bitmap_set run (unat n) (avmf_bitmap s) of None \<Rightarrow> None
          | Some bm \<Rightarrow> Some (push_bit 12 run,
              s\<lparr>avmf_bitmap := bm, last_alloc_page := run + n\<rparr>)))"
proof -
  have "n \<noteq> 0"
    using assms pages_of_eq [of nbytes] by (metis less_numeral_extra(3) unat_eq_zero)
  moreover have "avmf_search n [0..<128] (taken Avmf_lock s) = avmf_search n [0..<128] s"
    by (rule avmf_search_cong) simp_all
  ultimately show ?thesis
    using assms(1) unfolding avmf_alloc_phys_contiguous_def
    by (cases s) (auto simp: locked_free Let_def n [symmetric] taken_def cli_def diag_def
        fun_upd_idem split: option.splits)
qed

text \<open>
  The result of an allocation: the pages of a free run of the first range that has one, which
  become used; or 0 and no change, when no range has one.
\<close>

lemma alloc_phys_spec:
  assumes "\<not> locks s Avmf_lock" and ok: "phys_ok s"
    and pos: "0 < nbytes" and small: "unat nbytes + 4095 < 2 ^ 64"
  shows "(\<exists>run i bm. i < 128 \<and> free_run s (pages_of nbytes) i (unat run)
            \<and> used_pages bm = used s \<union> {unat run ..< unat run + pages_of nbytes}
            \<and> length bm = length (avmf_bitmap s)
            \<and> avmf_alloc_phys_contiguous nbytes s =
                Some (push_bit 12 run, s\<lparr>avmf_bitmap := bm,
                  last_alloc_page := run + align4k nbytes div PAGE_SIZE\<rparr>))
       \<or> ((\<forall>i < 128. \<forall>q. \<not> free_run s (pages_of nbytes) i q)
            \<and> avmf_alloc_phys_contiguous nbytes s =
                Some (0, diag ''[AVMF] Out of physical memory (Range: 0x%llx bytes)''
                           [Num (align4k nbytes)] s))"
proof -
  define n where "n = align4k nbytes div PAGE_SIZE"
  have un: "unat n = pages_of nbytes"
    unfolding n_def using small by (rule pages_of_eq)
  have p0: "0 < pages_of nbytes"
    using pos by (simp add: pages_of_def word_less_nat_alt)
  then have n0: "0 < n"
    by (simp add: word_less_nat_alt un)
  have "set [0..<128] \<subseteq> {..<128::nat}"
    by auto
  from avmf_search_sound [OF ok n0 this] show ?thesis
  proof (elim disjE exE bexE conjE)
    fix run i
    assume found: "avmf_search n [0..<128] s = Some (Some run)"
      and run: "free_run s (unat n) i (unat run)" and i: "i \<in> set [0..<128]"
    have le: "unat run + unat n \<le> bitmap_cap (avmf_bitmap s)"
      using run range_end_cap(2) [OF ok] i by (fastforce simp: free_run_def)
    moreover have "bitmap_cap (avmf_bitmap s) < 2 ^ 64"
      using ok by (simp add: phys_ok_def bitmap_cap_def BITMAP_SIZE_def)
    ultimately obtain bm where bm: "each_page bitmap_set run (unat n) (avmf_bitmap s) = Some bm"
        "used_pages bm = used s \<union> {unat run ..< unat run + unat n}"
        "bitmap_cap bm = bitmap_cap (avmf_bitmap s)"
      using bm.each_set [of run "unat n" "avmf_bitmap s"] unfolding used_def by force
    then have "length bm = length (avmf_bitmap s)"
      by (simp add: bitmap_cap_def)
    with bm run i found show ?thesis
      using alloc_phys_step [OF assms(1) p0 small n_def] unfolding un n_def [symmetric] by auto
  next
    assume "avmf_search n [0..<128] s = Some None"
      and "\<forall>i \<in> set [0..<128]. \<forall>q. \<not> free_run s (unat n) i q"
    then show ?thesis
      using alloc_phys_step [OF assms(1) p0 small n_def] unfolding un by auto
  qed
qed

lemma range_upd [simp]:
  "range_start (s\<lparr>avmf_bitmap := bm, last_alloc_page := x\<rparr>) = range_start s"
  "range_end (s\<lparr>avmf_bitmap := bm, last_alloc_page := x\<rparr>) = range_end s"
  "range_live (s\<lparr>avmf_bitmap := bm, last_alloc_page := x\<rparr>) = range_live s"
  by (simp_all add: fun_eq_iff range_start_def range_end_def range_live_def)

lemma phys_ok_upd:
  "phys_ok s \<Longrightarrow> length bm = length (avmf_bitmap s) \<Longrightarrow>
   phys_ok (s\<lparr>avmf_bitmap := bm, last_alloc_page := x\<rparr>)"
  by (simp add: phys_ok_def)

section \<open>Bump allocation\<close>

text \<open>
  During start-up nothing is freed, so the search always continues where it stopped: in range
  \<open>i\<close>, the first live one, \<open>k\<close> pages from page \<open>p\<close> on are free. Each allocation then takes the
  next page of this window.
\<close>

definition bump :: "'a avmf_scheme \<Rightarrow> nat \<Rightarrow> nat \<Rightarrow> nat \<Rightarrow> bool" where
  "bump s i p k \<longleftrightarrow> i < 128 \<and> (\<forall>j < i. \<not> range_live s j) \<and> range_live s i \<and> scan_from s i = p
     \<and> p + k \<le> range_end s i \<and> {p ..< p + k} \<inter> used s = {}"

lemma search_skip:
  assumes "\<forall>j \<in> set js. \<not> range_live s j"
  shows "avmf_search n (js @ is) s = avmf_search n is s"
  using assms
  by (induction js) (auto simp: range_live_def range_start_def range_end_def Let_def
      word_less_nat_alt word_le_nat_alt)

lemma alloc_phys_bump_pages:
  assumes "\<not> locks s Avmf_lock" and ok: "phys_ok s" and b: "bump s i p (m + k)"
    and m: "m = pages_of nbytes" "0 < m" and fits: "unat nbytes + 4095 < 2 ^ 64"
  shows "\<exists>bm. avmf_alloc_phys_contiguous nbytes s =
             Some (of_nat p * 4096, s\<lparr>avmf_bitmap := bm, last_alloc_page := of_nat (p + m)\<rparr>)
           \<and> used_pages bm = used s \<union> {p ..< p + m} \<and> length bm = length (avmf_bitmap s)
           \<and> phys_ok (s\<lparr>avmf_bitmap := bm, last_alloc_page := of_nat (p + m)\<rparr>)
           \<and> (0 < k \<longrightarrow> bump (s\<lparr>avmf_bitmap := bm, last_alloc_page := of_nat (p + m)\<rparr>) i (p + m) k)
           \<and> p + m \<le> BITMAP_SIZE"
proof -
  have i: "i < 128"
    using b by (simp add: bump_def)
  have pk: "p + (m + k) \<le> range_end s i" "p + m \<le> BITMAP_SIZE"
    using b range_end_cap(1) [OF ok i] by (auto simp: bump_def)
  have small: "unat (of_nat p :: u64) = p" "unat (of_nat (p + m) :: u64) = p + m"
    using pk(2) by (subst unat_of_nat_small; simp add: BITMAP_SIZE_def)+
  define n where "n = align4k nbytes div PAGE_SIZE"
  have un: "unat n = m"
    unfolding n_def m(1) using fits by (rule pages_of_eq)
  have n0: "0 < n"
    using m(2) by (simp add: word_less_nat_alt un)
  have split: "[0..<128] = [0..<i] @ i # [Suc i..<128]"
    using i by (metis upt_add_eq_append upt_conv_Cons le_add_diff_inverse less_imp_le_nat zero_le)
  have skip: "avmf_search n [0..<128] s = avmf_search n (i # [Suc i..<128]) s"
    unfolding split by (rule search_skip) (use b in \<open>simp add: bump_def\<close>)
  have "{p ..< p + m} \<subseteq> {p ..< p + (m + k)}"
    by auto
  then have "{p ..< p + m} \<inter> used s = {}"
    using b unfolding bump_def by blast
  then have here: "free_run s m i p"
    using b unfolding bump_def free_run_def by simp
  have before: "\<not> free_run s m i q" if "q < p" for q
    using that b by (auto simp: bump_def free_run_def)
  from avmf_search_range [OF ok i n0, of "[Suc i..<128]"] here obtain r where
    r: "avmf_search n [0..<128] s = Some (Some r)" "free_run s m i (unat r)"
      "\<forall>q < unat r. \<not> free_run s m i q"
    unfolding skip [symmetric] un by auto
  have "unat r = p"
    using r(2,3) here before by (metis linorder_neqE_nat)
  then have "r = of_nat p"
    by (simp add: word_unat_eq_iff small(1))
  with r(1) have found: "avmf_search n [0..<128] s = Some (Some (of_nat p))"
    by simp
  have cap: "p + m \<le> bitmap_cap (avmf_bitmap s)"
    using pk(1) range_end_cap(2) [OF ok i] by simp
  obtain bm where bm: "each_page bitmap_set (of_nat p) m (avmf_bitmap s) = Some bm"
      "used_pages bm = used s \<union> {p ..< p + m}" "bitmap_cap bm = bitmap_cap (avmf_bitmap s)"
    using bm.each_set [of "of_nat p" m "avmf_bitmap s"] cap small(1) pk(2)
    unfolding used_def by (auto simp: BITMAP_SIZE_def)
  have len: "length bm = length (avmf_bitmap s)"
    using bm(3) by (simp add: bitmap_cap_def)
  have "n = of_nat m"
    by (simp flip: un)
  then have pn: "of_nat p + n = of_nat (p + m)"
    by simp
  have p0: "0 < pages_of nbytes"
    using m by simp
  have res: "avmf_alloc_phys_contiguous nbytes s =
      Some (push_bit 12 (of_nat p), s\<lparr>avmf_bitmap := bm, last_alloc_page := of_nat (p + m)\<rparr>)"
    unfolding alloc_phys_step [OF assms(1) p0 fits n_def] found un using bm(1) pn by simp
  let ?t = "s\<lparr>avmf_bitmap := bm, last_alloc_page := of_nat (p + m)\<rparr>"
  have live: "range_live s i" and "range_start s i \<le> p"
    using b scan_bounds [of s i] by (auto simp: bump_def)
  then have scan: "scan_from ?t i = p + m" if "0 < k"
    using that pk(1) small(2) by (simp add: scan_from_def)
  have "{p + m ..< p + m + k} \<subseteq> {p ..< p + (m + k)} - {p ..< p + m}"
    by auto
  then have "{p + m ..< p + m + k} \<inter> (used s \<union> {p ..< p + m}) = {}"
    using b unfolding bump_def by blast
  then have "{p + m ..< p + m + k} \<inter> used ?t = {}"
    using bm(2) by (simp add: used_def)
  then have "bump ?t i (p + m) k" if "0 < k"
    using b scan [OF that] pk(1) by (simp add: bump_def add.assoc)
  then show ?thesis
    using res bm(2) len phys_ok_upd [OF ok len] pk(2)
    by (intro exI [of _ bm]) (simp add: push_bit_eq_mult algebra_simps)
qed

lemma alloc_phys_bump:
  assumes "\<not> locks s Avmf_lock" and "phys_ok s" and "bump s i p (Suc k)"
  shows "\<exists>bm. avmf_alloc_phys_contiguous PAGE_SIZE s =
             Some (of_nat p * 4096, s\<lparr>avmf_bitmap := bm, last_alloc_page := of_nat (Suc p)\<rparr>)
           \<and> used_pages bm = insert p (used s) \<and> length bm = length (avmf_bitmap s)
           \<and> phys_ok (s\<lparr>avmf_bitmap := bm, last_alloc_page := of_nat (Suc p)\<rparr>)
           \<and> (0 < k \<longrightarrow> bump (s\<lparr>avmf_bitmap := bm, last_alloc_page := of_nat (Suc p)\<rparr>) i (Suc p) k)
           \<and> p < BITMAP_SIZE"
proof -
  have "1 = pages_of PAGE_SIZE" and "unat PAGE_SIZE + 4095 < 2 ^ 64"
    by (simp_all add: pages_of_def PAGE_SIZE_def)
  from alloc_phys_bump_pages [OF assms(1,2) _ this(1) _ this(2), of i p k] assms(3)
  show ?thesis
    by (simp add: Suc_le_eq)
qed

end
