(* ===== verification/Avmf_Regions.thy ===== *)
theory Avmf_Regions
  imports Avmf_Phys
begin

text \<open>
  The list of mapped regions of avmf.c: headers in a static array, linked in the order in which
  they were made, with a one-entry cache in front of the search by virtual address.
\<close>

unbundle bit_operations_syntax

section \<open>Walking the list\<close>

text \<open>
  \<open>while (cur) { if (p(cur)) return cur; cur = cur->next; } return NULL;\<close>. The result is
  \<open>None\<close> when the walk does not end or leaves the array.
\<close>

partial_function (option) walk_headers ::
  "(avmf_header \<Rightarrow> bool) \<Rightarrow> avmf_header list \<Rightarrow> nat option \<Rightarrow> nat option option" where
  "walk_headers p hs cur =
     (case cur of
        None \<Rightarrow> Some None
      | Some i \<Rightarrow>
          if i < length hs
          then if p (hs ! i) then Some (Some i) else walk_headers p hs (hnext (hs ! i))
          else None)"

definition covers_virt :: "u64 \<Rightarrow> avmf_header \<Rightarrow> bool" where
  "covers_virt virt h \<longleftrightarrow> virt_addr h \<le> virt \<and> virt < virt_addr h + hsize h"

definition covers_phys :: "u64 \<Rightarrow> avmf_header \<Rightarrow> bool" where
  "covers_phys phys h \<longleftrightarrow> phys_addr h \<le> phys \<and> phys < phys_addr h + hsize h"

section \<open>Operations\<close>

definition avmf_find :: "u64 \<Rightarrow> ('a avmf_scheme, nat option) op" where
  "avmf_find virt s =
     (case last_found s of
        Some i \<Rightarrow>
          if i < length (static_headers s) then
            if covers_virt virt (static_headers s ! i) then Some (Some i, s)
            else do {
              r \<leftarrow> walk_headers (covers_virt virt) (static_headers s) (avmf_head s);
              Some (r, if r = None then s else s\<lparr>last_found := r\<rparr>) }
          else None
      | None \<Rightarrow> do {
          r \<leftarrow> walk_headers (covers_virt virt) (static_headers s) (avmf_head s);
          Some (r, if r = None then s else s\<lparr>last_found := r\<rparr>) })"

definition avmf_virt_to_phys :: "u64 \<Rightarrow> ('a avmf_scheme, u64) op" where
  "avmf_virt_to_phys virt s =
     (if AOS_DIRECT_MAP_BASE \<le> virt \<and> virt < AOS_KERNEL_SPACE_BASE
      then Some (virt - AOS_DIRECT_MAP_BASE, s)
      else do {
        (region, s) \<leftarrow> avmf_find virt s;
        case region of
          None \<Rightarrow> Some (0, diag ''[AVMF] Trying to get info on a unmapped region (physical addr)!'' [] s)
        | Some i \<Rightarrow>
            (let h = static_headers s ! i; offset = virt - virt_addr h
             in Some (phys_addr h + offset, s)) })"

definition avmf_phys_to_virt :: "u64 \<Rightarrow> ('a avmf_scheme, u64) op" where
  "avmf_phys_to_virt phys s = do {
     r \<leftarrow> walk_headers (covers_phys phys) (static_headers s) (avmf_head s);
     case r of
       Some i \<Rightarrow>
         (let h = static_headers s ! i in Some (virt_addr h + (phys - phys_addr h), s))
     | None \<Rightarrow> Some (0, diag ''[AVMF] Trying to get info on a unmapped region (virtual addr)!'' [] s) }"

text \<open>
  \<open>avmf_alloc_region\<close>. The walk to the last node comes before the check for a free header; the
  second lock covers the write of the header and its linking.
\<close>

definition avmf_alloc_region :: "u64 \<Rightarrow> u64 \<Rightarrow> u64 \<Rightarrow> u32 \<Rightarrow> ('a avmf_scheme, u8) op" where
  "avmf_alloc_region virt phys nbytes flags s =
     (let nbytes = align4k nbytes in do {
        last_node \<leftarrow> walk_headers (\<lambda>h. hnext h = None) (static_headers s) (avmf_head s);
        if AVMF_STATIC_SIZE \<le> header_index s then Some (0, s)
        else locked Avmf_lock2 (\<lambda>s.
          let i = header_index s;
              node = (static_headers s ! i)\<lparr>virt_addr := virt, phys_addr := phys, hsize := nbytes,
                hflags := flags, hused := 1, hnext := None, hattributes := 0,
                hversion := AVMF_VERSION, hsignature := AVMF_SIGNATURE\<rparr>;
              hs = (static_headers s)[i := node];
              s = s\<lparr>static_headers := hs, header_index := i + 1\<rparr>
          in case avmf_head s of
               None \<Rightarrow> Some (1, s\<lparr>avmf_head := Some i\<rparr>)
             | Some _ \<Rightarrow>
                 (case last_node of
                    None \<Rightarrow> None
                  | Some j \<Rightarrow> Some (1, s\<lparr>static_headers := hs[j := (hs ! j)\<lparr>hnext := Some i\<rparr>]\<rparr>))) s })"

definition avmf_map :: "u64 \<Rightarrow> u64 \<Rightarrow> u32 \<Rightarrow> ('a avmf_scheme, u32) op" where
  "avmf_map virt phys flags s = do {
     (region, s) \<leftarrow> avmf_find virt s;
     case region of
       None \<Rightarrow> Some (0, diag ''[AVMF] Did not find region for mapping!'' [] s)
     | Some i \<Rightarrow> locked Avmf_lock (\<lambda>s.
         let h = static_headers s ! i in
         Some (1, s\<lparr>static_headers := (static_headers s)[i :=
           h\<lparr>phys_addr := phys, hflags := hflags h OR flags\<rparr>]\<rparr>)) s }"

definition avmf_map_identity_virt :: "u64 \<Rightarrow> u64 \<Rightarrow> u32 \<Rightarrow> ('a avmf_scheme, u32) op" where
  "avmf_map_identity_virt virt phys flags s = do {
     region \<leftarrow> walk_headers (covers_phys phys) (static_headers s) (avmf_head s);
     case region of
       None \<Rightarrow> Some (0, diag ''[AVMF] Did not find region for identity mapping!'' [] s)
     | Some i \<Rightarrow> locked Avmf_lock (\<lambda>s.
         let h = static_headers s ! i in
         Some (1, s\<lparr>static_headers := (static_headers s)[i :=
           h\<lparr>virt_addr := virt, hflags := hflags h OR flags\<rparr>]\<rparr>)) s }"

text \<open>
  \<open>avmf_free_phys\<close> gives back the pages of the region an address lies in; the header stays in
  the list.
\<close>

definition avmf_free_phys :: "u64 \<Rightarrow> ('a avmf_scheme, unit) op" where
  "avmf_free_phys virt s = do {
     (hdr, s) \<leftarrow> avmf_find virt s;
     case hdr of
       None \<Rightarrow> Some ((), s)
     | Some i \<Rightarrow> locked Avmf_lock (\<lambda>s.
         let h = static_headers s ! i;
             page_idx = phys_addr h div PAGE_SIZE;
             pages = hsize h div PAGE_SIZE
         in do {
           bm \<leftarrow> each_page bitmap_clear page_idx (unat pages) (avmf_bitmap s);
           Some ((), s\<lparr>avmf_bitmap := bm\<rparr>) }) s }"

text \<open>One line of \<open>avmf__debug_print_map\<close> per header, in list order.\<close>

partial_function (option) avmf__debug_print_map_from ::
  "nat option \<Rightarrow> 'a avmf_scheme \<Rightarrow> (unit \<times> 'a avmf_scheme) option" where
  "avmf__debug_print_map_from cur s =
     (case cur of
        None \<Rightarrow> Some ((), s)
      | Some i \<Rightarrow>
          if i < length (static_headers s) then
            (let h = static_headers s ! i in
             avmf__debug_print_map_from (hnext h)
               (diag ''[AVMF] VIRT=%llx PHYS=%llx SIZE=%llu FLAGS=%x''
                  [Num (virt_addr h), Num (phys_addr h), Num (hsize h), Num (ucast (hflags h))] s))
          else None)"

definition avmf__debug_print_map :: "('a avmf_scheme, unit) op" where
  "avmf__debug_print_map s = avmf__debug_print_map_from (avmf_head s) s"

section \<open>The list in the array\<close>

primrec chain :: "avmf_header list \<Rightarrow> nat option \<Rightarrow> nat list \<Rightarrow> bool" where
  "chain hs p [] \<longleftrightarrow> p = None"
| "chain hs p (i # is) \<longleftrightarrow> p = Some i \<and> i < length hs \<and> chain hs (hnext (hs ! i)) is"

lemma walk_None [simp]: "walk_headers q hs None = Some None"
  by (subst walk_headers.simps) simp

lemma walk_Some [simp]:
  "i < length hs \<Longrightarrow> walk_headers q hs (Some i) =
     (if q (hs ! i) then Some (Some i) else walk_headers q hs (hnext (hs ! i)))"
  by (subst walk_headers.simps) simp

lemma walk_chain:
  "chain hs p is \<Longrightarrow> walk_headers q hs p = Some (find (\<lambda>i. q (hs ! i)) is)"
  by (induction "is" arbitrary: p) auto

lemma chain_bound: "chain hs p is \<Longrightarrow> i \<in> set is \<Longrightarrow> i < length hs"
  by (induction "is" arbitrary: p) auto

lemma chain_upd_other:
  "i \<notin> set is \<Longrightarrow> chain (hs[i := h]) p is = chain hs p is"
  by (induction "is" arbitrary: p) (auto simp: nth_list_update)

lemma chain_upd_same_next:
  assumes "hnext h = hnext (hs ! i)"
  shows "chain (hs[i := h]) p is = chain hs p is"
proof (induction "is" arbitrary: p)
  case Nil
  show ?case by simp
next
  case (Cons j "is")
  have "hnext (hs[i := h] ! j) = hnext (hs ! j)" if "j < length hs"
    using that assms by (cases "i = j") simp_all
  then show ?case
    by (simp add: Cons cong: conj_cong)
qed

lemma chain_last:
  "chain hs p is \<Longrightarrow> is \<noteq> [] \<Longrightarrow> find (\<lambda>i. hnext (hs ! i) = None) is = Some (last is)"
proof (induction "is" arbitrary: p)
  case Nil
  then show ?case by simp
next
  case (Cons i "is")
  then show ?case by (cases "is") auto
qed

lemma chain_append:
  assumes "chain hs p (is @ [j])" and "distinct (is @ [j])" and "i < length hs"
    and "i \<notin> set (is @ [j])" and "hnext (hs ! i) = None"
  shows "chain (hs[j := (hs ! j)\<lparr>hnext := Some i\<rparr>]) p (is @ [j, i])"
  using assms
proof (induction "is" arbitrary: p)
  case Nil
  then show ?case by (auto simp: nth_list_update)
next
  case (Cons k "is")
  then show ?case by (auto simp: nth_list_update)
qed

text \<open>
  A well-formed list: the headers from some index \<open>k\<close> up to the next free one, in order (\<open>k\<close> is
  the value the index had when \<open>avmf_init\<close> last emptied the list), and the cache is one of them.
\<close>

definition regions_from :: "nat \<Rightarrow> 'a avmf_scheme \<Rightarrow> bool" where
  "regions_from k s \<longleftrightarrow> k \<le> header_index s \<and> header_index s \<le> AVMF_STATIC_SIZE
     \<and> length (static_headers s) = AVMF_STATIC_SIZE
     \<and> chain (static_headers s) (avmf_head s) [k..<header_index s]
     \<and> (\<forall>i. last_found s = Some i \<longrightarrow> k \<le> i \<and> i < header_index s)"

text \<open>The abstract value: the list of region descriptions.\<close>

definition region_desc :: "avmf_header \<Rightarrow> u64 \<times> u64 \<times> u64 \<times> u32" where
  "region_desc h = (virt_addr h, phys_addr h, hsize h, hflags h)"

definition regions :: "nat \<Rightarrow> 'a avmf_scheme \<Rightarrow> (u64 \<times> u64 \<times> u64 \<times> u32) list" where
  "regions k s = map (\<lambda>i. region_desc (static_headers s ! i)) [k..<header_index s]"

text \<open>No two regions share a virtual address.\<close>

definition regions_apart :: "nat \<Rightarrow> 'a avmf_scheme \<Rightarrow> bool" where
  "regions_apart k s \<longleftrightarrow> (\<forall>i j virt. k \<le> i \<and> i < header_index s \<and> k \<le> j \<and> j < header_index s
     \<and> covers_virt virt (static_headers s ! i) \<and> covers_virt virt (static_headers s ! j) \<longrightarrow> i = j)"

lemma walk_regions:
  "regions_from k s \<Longrightarrow> walk_headers q (static_headers s) (avmf_head s)
     = Some (find (\<lambda>i. q (static_headers s ! i)) [k..<header_index s])"
  by (auto simp: regions_from_def intro: walk_chain)

text \<open>
  The cache does not change what a search finds: with disjoint regions the answer is that of a
  search from the head of the list.
\<close>

lemma avmf_find_search:
  assumes ok: "regions_from k s" and apart: "regions_apart k s"
  shows "\<exists>t. avmf_find virt s =
      Some (find (\<lambda>i. covers_virt virt (static_headers s ! i)) [k..<header_index s], t)
      \<and> regions_from k t \<and> (t = s \<or> (\<exists>r. t = s\<lparr>last_found := r\<rparr>))"
proof -
  let ?q = "\<lambda>i. covers_virt virt (static_headers s ! i)"
  let ?r = "find ?q [k..<header_index s]"
  have upd: "regions_from k (s\<lparr>last_found := ?r\<rparr>)"
    using ok unfolding regions_from_def by (auto dest!: find_SomeD)
  have scan: "\<exists>t. (do { r \<leftarrow> walk_headers (covers_virt virt) (static_headers s) (avmf_head s);
              Some (r, if r = None then s else s\<lparr>last_found := r\<rparr>) }) = Some (?r, t)
      \<and> regions_from k t \<and> (t = s \<or> (\<exists>r. t = s\<lparr>last_found := r\<rparr>))"
    using ok upd unfolding walk_regions [OF ok] by (auto split: if_splits)
  show ?thesis
  proof (cases "last_found s")
    case None
    then show ?thesis
      using scan by (simp add: avmf_find_def)
  next
    case (Some i)
    then have i: "k \<le> i" "i < header_index s" "i < length (static_headers s)"
      using ok by (auto simp: regions_from_def)
    show ?thesis
    proof (cases "?q i")
      case True
      have "\<forall>j \<in> set [k..<header_index s]. ?q j \<longrightarrow> j = i"
        using apart i(1,2) True unfolding regions_apart_def by (metis atLeastLessThan_iff set_upt)
      moreover have "i \<in> set [k..<header_index s]"
        using i by simp
      ultimately have "?r = Some i"
        using True by (intro find_unique)
      then show ?thesis
        using Some True i ok by (simp add: avmf_find_def)
    next
      case False
      then show ?thesis
        using Some i scan by (simp add: avmf_find_def)
    qed
  qed
qed

section \<open>Region allocation appends\<close>

lemma regions_set_other:
  "i < k \<or> header_index s \<le> i \<Longrightarrow>
   regions k (s\<lparr>static_headers := (static_headers s)[i := h]\<rparr>) = regions k s"
  by (auto simp: regions_def)

lemma region_frame [simp]:
  "region_desc (h\<lparr>hnext := n\<rparr>) = region_desc h"
  by (simp add: region_desc_def)

text \<open>The state after a header has been linked, up to the contents of the header array.\<close>

lemma alloc_region_full:
  assumes "regions_from k s" and "header_index s = AVMF_STATIC_SIZE"
  shows "avmf_alloc_region virt phys nbytes flags s = Some (0, s)"
  using assms walk_regions [OF assms(1)] by (simp add: avmf_alloc_region_def Let_def)

lemma alloc_region_appends:
  assumes free: "\<not> locks s Avmf_lock2" and ok: "regions_from k s"
    and room: "header_index s < AVMF_STATIC_SIZE"
  shows "\<exists>hs h0. avmf_alloc_region virt phys nbytes flags s =
       Some (1, s\<lparr>static_headers := hs, header_index := header_index s + 1, avmf_head := h0\<rparr>)
     \<and> regions_from k (s\<lparr>static_headers := hs, header_index := header_index s + 1, avmf_head := h0\<rparr>)
     \<and> regions k (s\<lparr>static_headers := hs, header_index := header_index s + 1, avmf_head := h0\<rparr>)
         = regions k s @ [(virt, phys, align4k nbytes, flags)]"
proof -
  let ?old = "static_headers s" and ?i = "header_index s"
  define node where "node = (?old ! ?i)\<lparr>virt_addr := virt, phys_addr := phys,
    hsize := align4k nbytes, hflags := flags, hused := 1, hnext := None, hattributes := 0,
    hversion := AVMF_VERSION, hsignature := AVMF_SIGNATURE\<rparr>"
  define hs where "hs = ?old[?i := node]"
  have k: "k \<le> ?i" "?i < length ?old" "length ?old = AVMF_STATIC_SIZE"
    and ch: "chain ?old (avmf_head s) [k..<?i]"
    and lf: "\<forall>i. last_found s = Some i \<longrightarrow> k \<le> i \<and> i < ?i"
    using ok room by (auto simp: regions_from_def)
  have hs: "chain hs (avmf_head s) [k..<?i]" "length hs = length ?old" "hs ! ?i = node"
    using ch k by (auto simp: hs_def chain_upd_other)
  have upt: "[k..<Suc ?i] = [k..<?i] @ [?i]"
    using k(1) by simp
  have node: "hnext node = None" "region_desc node = (virt, phys, align4k nbytes, flags)"
    by (simp_all add: node_def region_desc_def)
  show ?thesis
  proof (cases "k = ?i")
    case True
    then have head: "avmf_head s = None"
      using ch by simp
    let ?t = "s\<lparr>static_headers := hs, header_index := ?i + 1, avmf_head := Some ?i\<rparr>"
    have "avmf_alloc_region virt phys nbytes flags s = Some (1, ?t)"
      using free room head
      by (cases s) (simp add: avmf_alloc_region_def Let_def locked_free taken_def cli_def
          fun_upd_idem hs_def node_def)
    moreover have "regions_from k ?t"
      using k room hs node lf True by (auto simp: regions_from_def)
    moreover have "regions k ?t = regions k s @ [(virt, phys, align4k nbytes, flags)]"
      using True hs(3) node by (simp add: regions_def)
    ultimately show ?thesis
      by blast
  next
    case False
    define j where "j = ?i - 1"
    have j: "k \<le> j" "?i = Suc j" "[k..<?i] = [k..<j] @ [j]"
      using False k(1) by (auto simp: j_def simp flip: upt_Suc_append)
    obtain h0 where head: "avmf_head s = Some h0"
      using ch j by (cases "[k..<j]") auto
    let ?new = "hs[j := (hs ! j)\<lparr>hnext := Some ?i\<rparr>]"
    let ?t = "s\<lparr>static_headers := ?new, header_index := ?i + 1, avmf_head := avmf_head s\<rparr>"
    have last: "find (\<lambda>i. hnext (?old ! i) = None) [k..<?i] = Some j"
      using chain_last [OF ch] j(3) by simp
    have "avmf_alloc_region virt phys nbytes flags s = Some (1, ?t)"
      using free room head last walk_regions [OF ok, of "\<lambda>h. hnext h = None"]
      by (cases s) (simp add: avmf_alloc_region_def Let_def locked_free taken_def cli_def
          fun_upd_idem hs_def node_def)
    moreover have "chain ?new (avmf_head s) ([k..<j] @ [j, ?i])"
      using hs j k(2) node by (intro chain_append) auto
    then have "regions_from k ?t"
      using k room hs(2) lf j by (auto simp: regions_from_def)
    moreover have "regions k ?t = regions k s @ [(virt, phys, align4k nbytes, flags)]"
    proof -
      have same: "region_desc (?new ! i) = region_desc (?old ! i)" if "i < ?i" for i
        using that k(2) by (cases "i = j") (auto simp: hs_def)
      have "region_desc (?new ! ?i) = (virt, phys, align4k nbytes, flags)"
        using j(2) hs(3) node by simp
      then show ?thesis
        using same upt by (simp add: regions_def)
    qed
    ultimately show ?thesis
      by blast
  qed
qed

end
