(* ===== verification/E820.thy ===== *)
theory E820
  imports Prelude
begin

text \<open>
  The memory map of e820.c: a counted table of 128 entries, the function that appends to it, and
  the built-in map of the board.
\<close>

unbundle bit_operations_syntax

definition MAX_E820_ENTRIES :: nat where "MAX_E820_ENTRIES = 128"

definition E820_TYPE_RAM :: u32 where "E820_TYPE_RAM = 1"

definition E820_TYPE_RESERVED :: u32 where "E820_TYPE_RESERVED = 2"

record e820_entry =
  e_base :: u64
  e_len :: u64
  e_type :: u32
  e_ext :: u32

record e820 =
  entry_count :: u32
  e820_entries :: "e820_entry list"

definition zero_entry :: e820_entry where
  "zero_entry = \<lparr>e_base = 0, e_len = 0, e_type = 0, e_ext = 0\<rparr>"

text \<open>The initial value of \<open>g_e820\<close>.\<close>

definition g_e820 :: e820 where
  "g_e820 = \<lparr>entry_count = 0, e820_entries = replicate MAX_E820_ENTRIES zero_entry\<rparr>"

text \<open>\<open>None\<close>: the write lands behind the table.\<close>

definition add_region :: "u64 \<Rightarrow> u64 \<Rightarrow> u64 \<Rightarrow> u64 \<Rightarrow> e820 \<Rightarrow> e820 option" where
  "add_region base len type ext t =
     (let n = (if of_nat MAX_E820_ENTRIES < entry_count t then 0 else entry_count t) in
      if unat n < length (e820_entries t) then
        Some (t\<lparr>entry_count := n + 1,
          e820_entries := (e820_entries t)[unat n :=
            \<lparr>e_base = base, e_len = len, e_type = ucast type, e_ext = ucast ext\<rparr>]\<rparr>)
      else None)"

definition init_basic_e820 :: "e820 \<Rightarrow> e820 option" where
  "init_basic_e820 t =
     (let RAM_END = 0x10000000 in do {
        t \<leftarrow> add_region 0x00000000 0x00300000 (ucast E820_TYPE_RESERVED) 0 t;
        t \<leftarrow> add_region 0x00300000 (RAM_END - 0x00300000) (ucast E820_TYPE_RAM) 0 t;
        t \<leftarrow> add_region 0xE0000000 0x10000000 (ucast E820_TYPE_RESERVED) 0 t;
        t \<leftarrow> add_region 0xFEC00000 0x00001000 (ucast E820_TYPE_RESERVED) 0 t;
        t \<leftarrow> add_region 0xFEE00000 0x00001000 (ucast E820_TYPE_RESERVED) 0 t;
        add_region 0xFF000000 0x01000000 (ucast E820_TYPE_RESERVED) 0 t })"

section \<open>The table as a list\<close>

definition e820_ok :: "e820 \<Rightarrow> bool" where
  "e820_ok t \<longleftrightarrow> length (e820_entries t) = MAX_E820_ENTRIES \<and> unat (entry_count t) \<le> MAX_E820_ENTRIES"

definition e820_list :: "e820 \<Rightarrow> e820_entry list" where
  "e820_list t = take (unat (entry_count t)) (e820_entries t)"

lemma add_region_appends:
  assumes "e820_ok t" and "unat (entry_count t) < MAX_E820_ENTRIES"
  shows "\<exists>u. add_region base len type ext t = Some u \<and> e820_ok u
     \<and> unat (entry_count u) = Suc (unat (entry_count t)) \<and> e820_list u = e820_list t
          @ [\<lparr>e_base = base, e_len = len, e_type = ucast type, e_ext = ucast ext\<rparr>]"
proof -
  let ?n = "entry_count t"
  have n: "\<not> of_nat MAX_E820_ENTRIES < ?n" "unat ?n < length (e820_entries t)"
    using assms by (simp_all add: e820_ok_def MAX_E820_ENTRIES_def word_less_nat_alt)
  have "unat (?n + 1) = Suc (unat ?n)"
    using assms by (subst unat_plus_less) (simp_all add: MAX_E820_ENTRIES_def)
  then show ?thesis
    using n assms by (simp add: add_region_def e820_ok_def e820_list_def take_Suc_conv_app_nth
        Let_def)
qed

text \<open>A full table: the check lets the count reach the size of the table and the write overruns it.\<close>

lemma add_region_overrun:
  "length (e820_entries t) = MAX_E820_ENTRIES \<Longrightarrow> unat (entry_count t) = MAX_E820_ENTRIES \<Longrightarrow>
   add_region base len type ext t = None"
  by (simp add: add_region_def MAX_E820_ENTRIES_def word_less_nat_alt Let_def)

text \<open>The map \<open>init_basic_e820\<close> builds.\<close>

definition basic_map :: "(nat \<times> nat \<times> u32) list" where
  "basic_map =
     [(0x00000000, 0x00300000, E820_TYPE_RESERVED), (0x00300000, 0x0FD00000, E820_TYPE_RAM),
      (0xE0000000, 0x10000000, E820_TYPE_RESERVED), (0xFEC00000, 0x00001000, E820_TYPE_RESERVED),
      (0xFEE00000, 0x00001000, E820_TYPE_RESERVED), (0xFF000000, 0x01000000, E820_TYPE_RESERVED)]"

definition entry_view :: "e820_entry \<Rightarrow> nat \<times> nat \<times> u32" where
  "entry_view e = (unat (e_base e), unat (e_len e), e_type e)"

text \<open>Sorted by address and free of overlaps.\<close>

definition map_sorted :: "(nat \<times> nat \<times> u32) list \<Rightarrow> bool" where
  "map_sorted = sorted_wrt (\<lambda>(a, n, _) (b, _, _). a + n \<le> b)"

lemma g_e820_ok: "e820_ok g_e820" "e820_list g_e820 = []" "entry_count g_e820 = 0"
  by (simp_all add: e820_ok_def e820_list_def g_e820_def)

lemma add_region_next:
  assumes "e820_ok t" and "unat (entry_count t) = n" and "n < MAX_E820_ENTRIES"
    and "map entry_view (e820_list t) = xs"
  obtains u where "add_region base len type ext t = Some u" and "e820_ok u"
    and "unat (entry_count u) = Suc n"
    and "map entry_view (e820_list u) = xs @ [(unat base, unat len, ucast type)]"
  using add_region_appends [of t base len type ext] assms by (auto simp: entry_view_def)

lemma init_basic_result:
  "\<exists>t. init_basic_e820 g_e820 = Some t \<and> e820_ok t \<and> entry_count t = 6
     \<and> map entry_view (e820_list t) = basic_map"
proof -
  let ?res = "ucast E820_TYPE_RESERVED" and ?ram = "ucast E820_TYPE_RAM"
  have 0: "e820_ok g_e820" "unat (entry_count g_e820) = 0" "map entry_view (e820_list g_e820) = []"
    by (simp_all add: g_e820_ok)
  have lt: "0 < MAX_E820_ENTRIES" "Suc 0 < MAX_E820_ENTRIES" "Suc (Suc 0) < MAX_E820_ENTRIES"
    "Suc (Suc (Suc 0)) < MAX_E820_ENTRIES" "Suc (Suc (Suc (Suc 0))) < MAX_E820_ENTRIES"
    "Suc (Suc (Suc (Suc (Suc 0)))) < MAX_E820_ENTRIES"
    by (simp_all add: MAX_E820_ENTRIES_def)
  obtain t1 where t1: "add_region 0x00000000 0x00300000 ?res 0 g_e820 = Some t1" "e820_ok t1"
      "unat (entry_count t1) = Suc 0"
      "map entry_view (e820_list t1) = [] @ [(unat (0::u64), unat (0x300000::u64), ucast (?res::u64))]"
    by (rule add_region_next [OF 0(1,2) lt(1) 0(3)])
  obtain t2 where t2: "add_region 0x00300000 (0x10000000 - 0x00300000) ?ram 0 t1 = Some t2"
      "e820_ok t2" "unat (entry_count t2) = Suc (Suc 0)"
      "map entry_view (e820_list t2) = map entry_view (e820_list t1)
         @ [(unat (0x300000::u64), unat (0x10000000 - 0x00300000::u64), ucast (?ram::u64))]"
    by (rule add_region_next [OF t1(2,3) lt(2) refl])
  obtain t3 where t3: "add_region 0xE0000000 0x10000000 ?res 0 t2 = Some t3" "e820_ok t3"
      "unat (entry_count t3) = Suc (Suc (Suc 0))"
      "map entry_view (e820_list t3) = map entry_view (e820_list t2)
         @ [(unat (0xE0000000::u64), unat (0x10000000::u64), ucast (?res::u64))]"
    by (rule add_region_next [OF t2(2,3) lt(3) refl])
  obtain t4 where t4: "add_region 0xFEC00000 0x00001000 ?res 0 t3 = Some t4" "e820_ok t4"
      "unat (entry_count t4) = Suc (Suc (Suc (Suc 0)))"
      "map entry_view (e820_list t4) = map entry_view (e820_list t3)
         @ [(unat (0xFEC00000::u64), unat (0x1000::u64), ucast (?res::u64))]"
    by (rule add_region_next [OF t3(2,3) lt(4) refl])
  obtain t5 where t5: "add_region 0xFEE00000 0x00001000 ?res 0 t4 = Some t5" "e820_ok t5"
      "unat (entry_count t5) = Suc (Suc (Suc (Suc (Suc 0))))"
      "map entry_view (e820_list t5) = map entry_view (e820_list t4)
         @ [(unat (0xFEE00000::u64), unat (0x1000::u64), ucast (?res::u64))]"
    by (rule add_region_next [OF t4(2,3) lt(5) refl])
  obtain t6 where t6: "add_region 0xFF000000 0x01000000 ?res 0 t5 = Some t6" "e820_ok t6"
      "unat (entry_count t6) = Suc (Suc (Suc (Suc (Suc (Suc 0)))))"
      "map entry_view (e820_list t6) = map entry_view (e820_list t5)
         @ [(unat (0xFF000000::u64), unat (0x01000000::u64), ucast (?res::u64))]"
    by (rule add_region_next [OF t5(2,3) lt(6) refl])
  have "init_basic_e820 g_e820 = Some t6"
    using t1(1) t2(1) t3(1) t4(1) t5(1) t6(1) by (simp add: init_basic_e820_def Let_def)
  moreover have "entry_count t6 = 6"
    using t6(3) by (simp add: word_unat_eq_iff)
  moreover have "map entry_view (e820_list t6) = basic_map"
    unfolding t6(4) t5(4) t4(4) t3(4) t2(4) t1(4)
    by (simp add: basic_map_def E820_TYPE_RAM_def E820_TYPE_RESERVED_def)
  ultimately show ?thesis
    using t6(2) by blast
qed

lemma basic_map_sorted: "map_sorted basic_map"
  by (simp add: map_sorted_def basic_map_def)

section \<open>Properties\<close>

text \<open>
  Starting from the empty table \<open>init_basic_e820\<close> fills it with the six regions of the board, in
  increasing order of address and without overlaps.
\<close>

theorem init_basic_e820_sorted:
  "\<exists>t. init_basic_e820 g_e820 = Some t \<and> e820_ok t
     \<and> map entry_view (e820_list t) = basic_map \<and> map_sorted (map entry_view (e820_list t))"
  using init_basic_result basic_map_sorted by auto

text \<open>
  \<open>add_region\<close> appends to a table with room; on a table with all 128 entries in use its check,
  which compares with \<open>>\<close>, lets the write run behind the table.
\<close>

theorem add_region_appends_or_overruns:
  assumes "e820_ok t"
  shows "if unat (entry_count t) < MAX_E820_ENTRIES
    then \<exists>u. add_region base len type ext t = Some u \<and> e820_ok u \<and> e820_list u = e820_list t
          @ [\<lparr>e_base = base, e_len = len, e_type = ucast type, e_ext = ucast ext\<rparr>]
    else add_region base len type ext t = None"
  using add_region_appends [OF assms] add_region_overrun [of t] assms by (simp add: e820_ok_def) blast

theorem add_region_appends_or_overruns_witness:
  "add_region 1 2 3 4 \<lparr>entry_count = 128, e820_entries = replicate 128 zero_entry\<rparr> = None
   \<and> (\<exists>u. add_region 1 2 3 4 g_e820 = Some u \<and> length (e820_list u) = 1)"
proof -
  have "e820_ok \<lparr>entry_count = 128, e820_entries = replicate 128 zero_entry\<rparr>"
    by (simp add: e820_ok_def MAX_E820_ENTRIES_def)
  from add_region_appends_or_overruns [OF this, of 1 2 3 4]
    add_region_appends_or_overruns [OF g_e820_ok(1), of 1 2 3 4]
  show ?thesis
    by (auto simp: MAX_E820_ENTRIES_def g_e820_ok)
qed

end
