(* ===== verification/Pager.thy ===== *)
theory Pager
  imports Paging Avmf_Virt Avmf_Regions E820
begin

text \<open>
  The operations of pager.c: building the firmware page tables in memory, mapping pages and
  ranges, unmapping, destroying and loading tables, and the start-up that builds the tables from
  the memory map of e820.c.

  A pointer to a page table is a 64-bit address. While \<open>pager_ready\<close> is 0 the code uses physical
  addresses as pointers, afterwards the addresses of the direct map; \<open>window\<close> gives the physical
  address a pointer of either kind stands for. \<open>struct page_table\<close> declares 64 entries and the
  code uses 512, so an entry is the 64-bit cell at its byte offset.
\<close>

unbundle bit_operations_syntax

section \<open>Constants and state\<close>

definition PAGE_PRESENT :: u64 where "PAGE_PRESENT = 0x1"
definition PAGE_RW :: u64 where "PAGE_RW = 0x2"
definition PAGE_PCD :: u64 where "PAGE_PCD = 0x10"
definition PAGE_HUGE :: u64 where "PAGE_HUGE = 0x80"

definition AVMF_FLAG_PRESENT :: u32 where "AVMF_FLAG_PRESENT = 1"
definition AVMF_FLAG_WRITEABLE :: u32 where "AVMF_FLAG_WRITEABLE = 2"

record pager = avmf +
  firmware_pml4 :: u64
  mapped_pml4 :: u64
  pager_ready :: u8
  cpu_phys_bits :: u64
  cpu_virt_bits :: u64

section \<open>Tables in memory\<close>

definition window :: "u64 \<Rightarrow> u64" where
  "window p = (if AOS_DIRECT_MAP_BASE \<le> p \<and> p < AOS_KERNEL_SPACE_BASE
     then p - AOS_DIRECT_MAP_BASE else p)"

definition get_entry :: "u64 \<Rightarrow> nat \<Rightarrow> 'a mach_scheme \<Rightarrow> u64" where
  "get_entry tbl i s = ld64 (mem s) (window tbl + 8 * of_nat i)"

definition set_entry :: "u64 \<Rightarrow> nat \<Rightarrow> u64 \<Rightarrow> 'a mach_scheme \<Rightarrow> 'a mach_scheme" where
  "set_entry tbl i v s = s\<lparr>mem := st64 (mem s) (window tbl + 8 * of_nat i) v\<rparr>"

definition pager_phys_to_virt :: "u64 \<Rightarrow> 'a pager_scheme \<Rightarrow> u64" where
  "pager_phys_to_virt phys s =
     (if pager_ready s = 0 then phys else phys + AOS_DIRECT_MAP_BASE)"

text \<open>The loop that clears the 512 entries of a new table.\<close>

definition clear_table :: "memory \<Rightarrow> u64 \<Rightarrow> memory" where
  "clear_table m t = foldl (\<lambda>m i. st64 m (t + 8 * of_nat i) 0) m [0..<512]"

text \<open>
  \<open>alloc_page_table\<close> returns the pointer and what it leaves in \<open>*phys_out\<close>, given what was there
  before. The result of \<open>avmf_alloc_region\<close> is not looked at.
\<close>

definition alloc_page_table :: "u64 \<Rightarrow> ('a pager_scheme, u64 \<times> u64) op" where
  "alloc_page_table phys_out s = do {
     (phys, s) \<leftarrow> avmf_alloc_phys_contiguous PAGE_SIZE s;
     (virt, s) \<leftarrow> avmf_alloc_virt PAGE_SIZE MALLOC_TYPE_SENSITIVE s;
     if virt = 0 then Some ((0, phys_out), diag ''[PAGER] No virtual address?'' [] s)
     else do {
       (_, s) \<leftarrow> avmf_alloc_region virt phys PAGE_SIZE (AVMF_FLAG_PRESENT OR AVMF_FLAG_WRITEABLE) s;
       let tbl = (if pager_ready s \<noteq> 1 then phys else AOS_DIRECT_MAP_BASE + phys);
       if tbl = 0 then Some ((0, phys_out), diag ''[PAGER] Failed to allocate page table'' [] s)
       else Some ((tbl, phys), s\<lparr>mem := clear_table (mem s) (window tbl)\<rparr>) } }"

section \<open>Mapping\<close>

text \<open>
  The block \<open>pager_map\<close> repeats for each level: the table an entry points to, made and linked
  first when the entry is absent.
\<close>

definition next_table :: "u64 \<Rightarrow> nat \<Rightarrow> ('a pager_scheme, u64) op" where
  "next_table tbl i s =
     (if get_entry tbl i s AND PAGE_PRESENT = 0 then do {
        ((next, phys), s) \<leftarrow> alloc_page_table 0 s;
        Some (next, set_entry tbl i (phys OR PAGE_PRESENT OR PAGE_RW) s) }
      else Some (pager_phys_to_virt (get_entry tbl i s AND NOT 0xFFF) s, s))"

text \<open>\<open>None\<close> when the shift by \<open>cpu_phys_bits\<close> is not defined.\<close>

definition pager_map :: "u64 \<Rightarrow> u64 \<Rightarrow> u64 \<Rightarrow> ('a pager_scheme, u64) op" where
  "pager_map virt phys flags s =
     (if 64 \<le> cpu_phys_bits s then None
      else if phys AND NOT (push_bit (unat (cpu_phys_bits s)) 1 - 1) \<noteq> 0
      then Some (0, diag ''[PAGER] ERROR: Physical address %p exceeds CPU limit of %lu bits!''
                      [Num phys, Num (cpu_phys_bits s)] s)
      else
        (let pml4 = firmware_pml4 s in do {
           (pdpt, s) \<leftarrow> next_table pml4 (idx 39 virt) s;
           (pd, s) \<leftarrow> next_table pdpt (idx 30 virt) s;
           if flags AND PAGE_HUGE \<noteq> 0
           then Some (pml4, set_entry pd (idx 21 virt)
                  ((phys AND NOT 0x1FFFFF) OR (flags AND 0xFFF) OR PAGE_PRESENT) s)
           else do {
             (pt, s) \<leftarrow> next_table pd (idx 21 virt) s;
             Some (pml4, set_entry pt (idx 12 virt)
               ((phys AND NOT 0xFFF) OR (flags AND 0xFFF) OR PAGE_PRESENT) s) } }))"

text \<open>The loop of \<open>pager_map_range\<close>. The result of \<open>pager_map\<close> is not looked at.\<close>

partial_function (option) pager_map_range_from ::
  "u64 \<Rightarrow> u64 \<Rightarrow> u64 \<Rightarrow> u64 \<Rightarrow> u64 \<Rightarrow> 'a pager_scheme \<Rightarrow> (unit \<times> 'a pager_scheme) option" where
  "pager_map_range_from offset virt phys nbytes flags s =
     (if offset < nbytes then
        (let remaining = nbytes - offset; cur_virt = virt + offset; cur_phys = phys + offset in
         if 0x200000 \<le> remaining \<and> cur_virt mod 0x200000 = 0 \<and> cur_phys mod 0x200000 = 0
         then Option.bind (pager_map cur_virt cur_phys (flags OR PAGE_HUGE) s)
           (\<lambda>(_, s). pager_map_range_from (offset + 0x200000) virt phys nbytes flags s)
         else Option.bind (pager_map cur_virt cur_phys flags s)
           (\<lambda>(_, s). pager_map_range_from (offset + PAGE_SIZE) virt phys nbytes flags s))
      else Some ((), s))"

definition pager_map_range :: "u64 \<Rightarrow> u64 \<Rightarrow> u64 \<Rightarrow> u64 \<Rightarrow> ('a pager_scheme, unit) op" where
  "pager_map_range virt phys nbytes flags = pager_map_range_from 0 virt phys nbytes flags"

section \<open>Unmapping, destroying and loading\<close>

definition pager_unmap :: "u64 \<Rightarrow> 'a pager_scheme \<Rightarrow> 'a pager_scheme" where
  "pager_unmap virt s =
     (let pml4 = mapped_pml4 s;
          clear = (\<lambda>tbl i s. event (Invlpg virt)
            (set_entry tbl i (get_entry tbl i s AND NOT PAGE_PRESENT) s))
      in
      if pml4 = 0 then s
      else if get_entry pml4 (idx 39 virt) s AND PAGE_PRESENT = 0 then s
      else
        (let pdpt = pager_phys_to_virt (get_entry pml4 (idx 39 virt) s AND NOT 0xFFF) s in
         if get_entry pdpt (idx 30 virt) s AND PAGE_PRESENT = 0 then s
         else
           (let pd = pager_phys_to_virt (get_entry pdpt (idx 30 virt) s AND NOT 0xFFF) s in
            if get_entry pd (idx 21 virt) s AND PAGE_HUGE \<noteq> 0 then clear pd (idx 21 virt) s
            else if get_entry pd (idx 21 virt) s AND PAGE_PRESENT = 0 then s
            else
              (let pt = pager_phys_to_virt (get_entry pd (idx 21 virt) s AND NOT 0xFFF) s
               in clear pt (idx 12 virt) s))))"

text \<open>A loop whose body may fail to return.\<close>

primrec for_each :: "('i \<Rightarrow> 's \<Rightarrow> (unit \<times> 's) option) \<Rightarrow> 'i list \<Rightarrow> 's \<Rightarrow> (unit \<times> 's) option" where
  "for_each f [] s = Some ((), s)"
| "for_each f (i # is) s = Option.bind (f i s) (\<lambda>(_, s). for_each f is s)"

text \<open>
  \<open>pager_destroy_table\<close>. Every level of the recursion looks at the top table, as the code does.
\<close>

primrec destroy_level :: "nat \<Rightarrow> ('a pager_scheme, unit) op" where
  "destroy_level 0 s =
     (if mapped_pml4 s = 0 then Some ((), s) else avmf_free_phys (mapped_pml4 s) s)"
| "destroy_level (Suc n) s =
     (let table = mapped_pml4 s in
      if table = 0 then Some ((), s)
      else do {
        (_, s) \<leftarrow> (if n = 0 then Some ((), s)
           else for_each (\<lambda>i s.
             if get_entry table i s AND PAGE_PRESENT \<noteq> 0
             then if n = 1 \<and> get_entry table i s AND PAGE_HUGE \<noteq> 0 then Some ((), s)
               else destroy_level n s
             else Some ((), s)) [0..<512] s);
        avmf_free_phys table s })"

definition pager_destroy_table :: "int \<Rightarrow> ('a pager_scheme, unit) op" where
  "pager_destroy_table level = destroy_level (nat level)"

definition pager_load :: "u64 \<Rightarrow> ('a pager_scheme, unit) op" where
  "pager_load pml4 s = do {
     (pml4_phys, s) \<leftarrow>
       (if pager_ready s \<noteq> 0
        then do {
          (p, s) \<leftarrow> avmf_virt_to_phys pml4 s;
          Some (if p = 0 then pml4 else p, s) }
        else Some (pml4, s));
     Some ((), (event (LoadCr3 pml4_phys) s)\<lparr>mapped_pml4 := pml4\<rparr>) }"

section \<open>Start-up\<close>

function bits_needed_from :: "u64 \<Rightarrow> u64 \<Rightarrow> u64" where
  "bits_needed_from n count =
     (let count = count + 1; n = drop_bit 1 n
      in if n \<noteq> 0 then bits_needed_from n count else count)"
  by pat_completeness auto
termination
proof (relation "measure (\<lambda>(n, _). unat n)")
  fix n count x xa :: u64
  assume x: "xa = drop_bit 1 n" "xa \<noteq> 0"
  have "unat xa = unat n div 2"
    by (simp only: x(1) unat_drop power_one_right)
  moreover have "0 < unat xa"
    using x(2) by (simp add: unat_gt_0)
  ultimately show "((xa, x), n, count) \<in> measure (\<lambda>(n, _). unat n)"
    by simp
qed simp

declare bits_needed_from.simps [simp del]

definition bits_needed :: "u64 \<Rightarrow> u64" where
  "bits_needed n = bits_needed_from n 0"

text \<open>
  The first loop over the memory map: the largest end of a memory range and the two local arrays
  that \<open>avmf_init\<close> copies, with their fill count.
\<close>

fun scan_ram ::
  "e820_entry list \<Rightarrow> u64 \<times> (nat \<Rightarrow> u64) \<times> (nat \<Rightarrow> u64) \<times> nat \<Rightarrow> 'a mach_scheme \<Rightarrow>
   (u64 \<times> (nat \<Rightarrow> u64) \<times> (nat \<Rightarrow> u64) \<times> nat) \<times> 'a mach_scheme" where
  "scan_ram [] acc s = (acc, s)"
| "scan_ram (e # es) (max_phys, base_phys, limit_phys, phys_idx) s =
     (let end_addr = e_base e + e_len e in
      if e_len e = 0 then scan_ram es (max_phys, base_phys, limit_phys, phys_idx) s
      else if e_type e = E820_TYPE_RAM then
        scan_ram es
          (if max_phys < end_addr then end_addr else max_phys,
           base_phys(phys_idx := e_base e), limit_phys(phys_idx := end_addr), phys_idx + 1)
          (diag ''E820: %p - %p (%llu MB) (Type RAM)''
             [Num (e_base e), Num end_addr, Num (e_len e div 1024 div 1024)] s)
      else
        scan_ram es (max_phys, base_phys, limit_phys, phys_idx)
          (diag ''E820: %p - %p (Type %d)'' [Num (e_base e), Num end_addr, Num (ucast (e_type e))] s))"

text \<open>The retry loop for the top table.\<close>

partial_function (option) alloc_pml4 ::
  "u64 \<Rightarrow> 'a pager_scheme \<Rightarrow> (unit \<times> 'a pager_scheme) option" where
  "alloc_pml4 phys_out s =
     (if firmware_pml4 s = 0 then
        Option.bind (alloc_page_table phys_out s) (\<lambda>((tbl, phys_out), s).
          alloc_pml4 phys_out
            (let s = s\<lparr>firmware_pml4 := tbl\<rparr>
             in if tbl = 0
                then diag ''[PAGER] Failed to allocate Firmware PML4, retrying...'' [] s else s))
      else Some ((), s))"

text \<open>
  The second loop: the direct map, without gaps from address 0 to the end of the last entry. The
  loop stops at the first entry above the limit of the processor.
\<close>

fun direct_map :: "e820_entry list \<Rightarrow> u64 \<Rightarrow> ('a pager_scheme, unit) op" where
  "direct_map [] last_map_end s = Some ((), s)"
| "direct_map (e # es) last_map_end s =
     (if e_len e < 1 then direct_map es last_map_end s
      else
        (let start = (if last_map_end < e_base e then last_map_end else e_base e);
             len = (if last_map_end < e_base e then (e_base e - last_map_end) + e_len e else e_len e);
             end_addr = start + len
         in
         if 64 \<le> cpu_phys_bits s then None
         else if end_addr AND NOT (push_bit (unat (cpu_phys_bits s)) 1 - 1) \<noteq> 0
         then Some ((), diag ''[PAGER] Warning: Physical address %p exceeds CPU limit of %lu bits! Skipping...''
                          [Num end_addr, Num (cpu_phys_bits s)] s)
         else do {
           (_, s) \<leftarrow> pager_map_range (AOS_DIRECT_MAP_BASE + start) start len
             (PAGE_PRESENT OR PAGE_RW OR PAGE_PCD)
             (diag ''[PAGER] Mapping Direct Map (0x%lx-0x%lx) to 0x%lx''
                [Num start, Num end_addr, Num (AOS_DIRECT_MAP_BASE + e_base e)] s);
           direct_map es end_addr s }))"

text \<open>
  The limit check on the largest address only prints: the value it corrects is not used again.
\<close>

definition check_phys_bits :: "u64 \<Rightarrow> 'a pager_scheme \<Rightarrow> 'a pager_scheme" where
  "check_phys_bits max_phys s =
     (let bits_req = bits_needed max_phys in
      if cpu_phys_bits s < bits_req then
        (let max_phys = (if 64 \<le> cpu_phys_bits s then - 1
                         else push_bit (unat (cpu_phys_bits s)) 1 - 1)
         in diag ''[PAGER] CPU Doesn't Support required %lu bits, hence maximum memory used will be %lu bits or %lu GB''
              [Num bits_req, Num (cpu_phys_bits s), Num (max_phys div (1024 * 1024 * 1024))] s)
      else s)"

definition pager_init :: "device \<Rightarrow> e820 \<Rightarrow> ('a pager_scheme, unit) op" where
  "pager_init dev tbl s =
     (if length (e820_entries tbl) < unat (entry_count tbl) then None
      else
        (let s = s\<lparr>pager_ready := 0\<rparr>;
             es = e820_list tbl;
             ((max_phys, base_phys, limit_phys, phys_idx), s) = scan_ram es (0, \<lambda>_. 0, \<lambda>_. 0, 0) s;
             (eax, ebx, ecx, edx) = dev_cpuid dev 0x80000008;
             s = s\<lparr>cpu_phys_bits := ucast (eax AND 0xFF),
                   cpu_virt_bits := ucast (drop_bit 8 eax AND 0xFF)\<rparr>;
             s = check_phys_bits max_phys s
         in do {
           (_, s) \<leftarrow> avmf_init base_phys limit_phys (of_nat phys_idx) s;
           (_, s) \<leftarrow> alloc_pml4 0 (diag ''[PAGER] Initialized AVMF'' [] s);
           (_, s) \<leftarrow> direct_map es 0
             (diag ''[PAGER] Allocated Virtual Memory for Page Tables'' [] s);
           (_, s) \<leftarrow> pager_map_range 0xFF000000 0xFF000000 0x00FFFFFF (PAGE_PRESENT OR PAGE_RW)
             (diag ''[PAGER] Mapped Direct Map'' [] s);
           (_, s) \<leftarrow> pager_map_range 0x0 0x0 0x80000 (PAGE_PRESENT OR PAGE_RW)
             (diag ''[PAGER] Mapped Firmware (0xFF000000 - 0xFFFFFFFF)'' [] s);
           (_, s) \<leftarrow> pager_map_range 0x100000 0x100000 0x200000 (PAGE_PRESENT OR PAGE_RW)
             (diag ''[PAGER] Mapped Firmware Stack (0x00000000 - 0x00008000)'' [] s);
           let s = diag ''[PAGER] Mapped Firmware Data (0x00100000 - 0x001FFFFF)'' [] s;
           (_, s) \<leftarrow> pager_load (firmware_pml4 s) s;
           Some ((), diag ''[PAGER] Everything is Set!'' [] (s\<lparr>pager_ready := 1\<rparr>)) }))"

end
