(* ===== verification/Pager_Frames.thy ===== *)
theory Pager_Frames
  imports Pager
begin

text \<open>
  What \<open>alloc_page_table\<close> gives: while the start-up allocators still have room, a frame nobody
  uses, cleared, and nothing else in memory changed.
\<close>

unbundle bit_operations_syntax

section \<open>Frames\<close>

definition frame :: "nat \<Rightarrow> u64" where
  "frame n = of_nat n * 4096"

lemma unat_frame: "n < BITMAP_SIZE \<Longrightarrow> unat (frame n) = n * 4096"
proof -
  assume n: "n < BITMAP_SIZE"
  have "frame n = of_nat (n * 4096)"
    by (simp add: frame_def)
  then show ?thesis
    using n by (simp only:) (rule unat_of_nat_small, simp add: BITMAP_SIZE_def)
qed

lemma frame_inject: "n < BITMAP_SIZE \<Longrightarrow> k < BITMAP_SIZE \<Longrightarrow> frame n = frame k \<longleftrightarrow> n = k"
  by (auto dest!: arg_cong [of _ _ unat] simp: unat_frame)

lemma frame_page: "n < BITMAP_SIZE \<Longrightarrow> frame n AND NOT (mask 12) = frame n"
  by (simp add: word_unat_eq_iff unat_and_not_mask unat_frame)

lemma hw_addr_page: "hw_addr e = take_bit 52 e AND NOT (mask 12)"
proof -
  have "(0x000FFFFFFFFFF000 :: u64) = mask 52 AND NOT (mask 12)"
    by (simp add: mask_eq_exp_minus_1)
  then have "hw_addr e = e AND (mask 52 AND NOT (mask 12))"
    by (simp only: hw_addr_def)
  then show ?thesis
    by (simp only: take_bit_eq_mask ac_simps)
qed

lemma hw_addr_small: "unat e < 2 ^ 52 \<Longrightarrow> hw_addr e = e AND NOT (mask 12)"
proof -
  assume "unat e < 2 ^ 52"
  then have "take_bit 52 e = e"
    by (simp only: word_unat_eq_iff unsigned_take_bit_eq take_bit_nat_eq_self)
  then show ?thesis
    by (simp add: hw_addr_page)
qed

lemma hw_addr_frame: "n < BITMAP_SIZE \<Longrightarrow> hw_addr (frame n) = frame n"
  by (simp add: hw_addr_small unat_frame frame_page BITMAP_SIZE_def)

lemma window_frame: "n < BITMAP_SIZE \<Longrightarrow> window (frame n) = frame n"
  by (simp add: window_def space_defs word_le_nat_alt unat_frame BITMAP_SIZE_def)

lemma window_direct: "n < BITMAP_SIZE \<Longrightarrow> window (frame n + AOS_DIRECT_MAP_BASE) = frame n"
proof -
  assume n: "n < BITMAP_SIZE"
  have "unat (frame n + AOS_DIRECT_MAP_BASE) = n * 4096 + 0xFFFF800000000000"
    using n by (subst unat_plus_less) (simp_all add: unat_frame space_defs BITMAP_SIZE_def)
  then show ?thesis
    using n by (simp add: window_def word_le_nat_alt word_less_nat_alt)
      (simp add: space_defs BITMAP_SIZE_def)
qed

section \<open>Slots\<close>

lemma unat_slot:
  assumes "n < BITMAP_SIZE" and "i < 512"
  shows "unat (frame n + 8 * of_nat i) = n * 4096 + 8 * i"
proof -
  have "8 * of_nat i = (of_nat (8 * i) :: u64)"
    by simp
  then have "unat (8 * of_nat i :: u64) = 8 * i"
    using assms(2) by (simp only:) (rule unat_of_nat_small, simp)
  then show ?thesis
    using assms by (subst unat_plus_less) (simp_all add: unat_frame BITMAP_SIZE_def)
qed

lemma slot_aligned: "n < BITMAP_SIZE \<Longrightarrow> i < 512 \<Longrightarrow> aligned8 (frame n + 8 * of_nat i)"
  by (simp add: aligned8_def unat_slot)

lemma slot_inject:
  assumes "n < BITMAP_SIZE" "k < BITMAP_SIZE" "i < 512" "j < 512"
  shows "frame n + 8 * of_nat i = frame k + 8 * of_nat j \<longleftrightarrow> n = k \<and> i = j"
proof
  assume "frame n + 8 * of_nat i = frame k + 8 * of_nat j"
  then have "unat (frame n + 8 * of_nat i) = unat (frame k + 8 * of_nat j)"
    by (rule arg_cong)
  then have "n * 4096 + 8 * i = k * 4096 + 8 * j"
    unfolding unat_slot [OF assms(1,3)] unat_slot [OF assms(2,4)] .
  then show "n = k \<and> i = j"
    using assms(3,4) by (cases n k rule: linorder_cases) linarith+
qed simp

lemma ent_set:
  assumes "n < BITMAP_SIZE" "k < BITMAP_SIZE" "i < 512" "j < 512"
  shows "ent (st64 m (frame n + 8 * of_nat i) v) (frame k) j =
    (if k = n \<and> j = i then v else ent m (frame k) j)"
  unfolding ent_def
  using slot_inject [OF assms]
  by (subst qw.rd_wr) (auto simp: slot_aligned assms)

lemma ent_clear:
  assumes "n < BITMAP_SIZE" "k < BITMAP_SIZE" "j < 512"
  shows "ent (clear_table m (frame n)) (frame k) j = (if k = n then 0 else ent m (frame k) j)"
proof -
  have "frame k + 8 * of_nat j \<in> (\<lambda>i. frame n + 8 * of_nat i) ` set [0..<512] \<longleftrightarrow> k = n"
    using assms slot_inject [OF assms(2,1,3)] by (auto simp: image_iff)
  then show ?thesis
    unfolding ent_def clear_table_def using assms
    by (subst qw.rd_fill) (auto simp: slot_aligned)
qed

section \<open>The start-up pool\<close>

text \<open>
  \<open>n\<close> more page tables can be had: physical pages for the bump allocator, virtual addresses, a
  well-formed region list, and no lock held.
\<close>

definition pool :: "'a avmf_scheme \<Rightarrow> nat \<Rightarrow> bool" where
  "pool s n \<longleftrightarrow> (n = 0 \<or> (\<exists>i p. 0 < p \<and> bump s i p n)) \<and> phys_ok s \<and> (\<exists>k. regions_from k s)
     \<and> 0 < heap_sensitive s \<and> unat (heap_sensitive s) + n * 4096 < 2 ^ 64
     \<and> \<not> locks s Avmf_lock \<and> \<not> locks s Avmf_lock2"

lemma pool_mono: "pool s n \<Longrightarrow> k \<le> n \<Longrightarrow> pool s k"
proof -
  assume p: "pool s n" and k: "k \<le> n"
  have "bump s i q k" if "bump s i q n" for i q
  proof -
    have "{q ..< q + k} \<subseteq> {q ..< q + n}"
      using k by auto
    then show ?thesis
      using that k unfolding bump_def by (meson add_left_mono disjoint_iff le_trans subsetD)
  qed
  moreover have "unat (heap_sensitive s) + k * 4096 < 2 ^ 64"
    using p k unfolding pool_def by (meson add_left_mono le_less_trans mult_le_mono1)
  ultimately show "pool s k"
    using p k unfolding pool_def by (metis le_zero_eq)
qed

lemma pool_cong:
  assumes "avmf_bitmap t = avmf_bitmap s" "avmf_base t = avmf_base s" "avmf_limit t = avmf_limit s"
    "last_alloc_page t = last_alloc_page s" "heap_sensitive t = heap_sensitive s"
    "static_headers t = static_headers s" "header_index t = header_index s"
    "avmf_head t = avmf_head s" "last_found t = last_found s" "locks t = locks s"
  shows "pool t n = pool s n" and "used t = used s"
proof -
  have r: "range_start t = range_start s" "range_end t = range_end s"
    by (auto simp: fun_eq_iff range_start_def range_end_def assms)
  then have l: "range_live t = range_live s"
    by (auto simp: fun_eq_iff range_live_def assms)
  have u: "used t = used s"
    by (simp add: used_def assms)
  have "scan_from t = scan_from s"
    by (auto simp: fun_eq_iff scan_from_def assms r)
  then have "bump t i p n = bump s i p n" for i p
    by (simp add: bump_def r l u)
  then show "pool t n = pool s n"
    by (simp add: pool_def phys_ok_def regions_from_def assms)
  show "used t = used s" by (rule u)
qed

lemma bump_unique: "bump s i p n \<Longrightarrow> bump s j q k \<Longrightarrow> p = q"
  unfolding bump_def by (metis linorder_neqE_nat)

lemma used_bound: "phys_ok s \<Longrightarrow> n \<in> used s \<Longrightarrow> n < BITMAP_SIZE"
  by (auto simp: phys_ok_def used_def used_pages_def BITMAP_SIZE_def)

section \<open>A fresh table\<close>

text \<open>The fields an allocation leaves alone.\<close>

definition pager_same :: "'a pager_scheme \<Rightarrow> 'a pager_scheme \<Rightarrow> bool" where
  "pager_same s t \<longleftrightarrow> firmware_pml4 t = firmware_pml4 s \<and> mapped_pml4 t = mapped_pml4 s
     \<and> pager_ready t = pager_ready s \<and> cpu_phys_bits t = cpu_phys_bits s
     \<and> cpu_virt_bits t = cpu_virt_bits s \<and> locks t = locks s \<and> io t = io s
     \<and> rflags t = rflags s \<and> pager.more t = pager.more s"

lemma pager_same_refl [simp]: "pager_same s s"
  by (simp add: pager_same_def)

lemma pager_same_trans: "pager_same s t \<Longrightarrow> pager_same t u \<Longrightarrow> pager_same s u"
  by (simp add: pager_same_def)

lemma alloc_region_pool:
  assumes "\<not> locks s Avmf_lock2" and "regions_from k s"
  shows "\<exists>r hs n h. avmf_alloc_region virt phys nbytes flags s =
      Some (r, s\<lparr>static_headers := hs, header_index := n, avmf_head := h\<rparr>)
      \<and> regions_from k (s\<lparr>static_headers := hs, header_index := n, avmf_head := h\<rparr>)"
proof (cases "header_index s < AVMF_STATIC_SIZE")
  case True
  show ?thesis
    using alloc_region_appends [OF assms(1,2) True] by blast
next
  case False
  then have full: "header_index s = AVMF_STATIC_SIZE"
    using assms(2) by (simp add: regions_from_def)
  have "s\<lparr>static_headers := static_headers s, header_index := header_index s,
      avmf_head := avmf_head s\<rparr> = s"
    by (cases s) simp
  then show ?thesis
    unfolding alloc_region_full [OF assms(2) full] using assms(2)
    by - (rule exI [of _ 0], rule exI [of _ "static_headers s"],
        rule exI [of _ "header_index s"], rule exI [of _ "avmf_head s"], simp only: simp_thms)
qed

lemma alloc_page_table_spec:
  assumes pool: "pool s (Suc n)"
  shows "\<exists>p t. alloc_page_table old s =
      Some ((if pager_ready s \<noteq> 1 then frame p else AOS_DIRECT_MAP_BASE + frame p, frame p), t)
    \<and> (\<exists>i. bump s i p (Suc n)) \<and> 0 < p \<and> p < BITMAP_SIZE \<and> p \<notin> used s \<and> used t = insert p (used s)
    \<and> mem t = clear_table (mem s) (frame p) \<and> pager_same s t \<and> pool t n"
proof -
  from pool obtain i p k where p: "0 < p" "bump s i p (Suc n)" and ok: "phys_ok s"
    and reg: "regions_from k s" and free: "\<not> locks s Avmf_lock" "\<not> locks s Avmf_lock2"
    and hs: "0 < heap_sensitive s" "unat (heap_sensitive s) + Suc n * 4096 < 2 ^ 64"
    by (auto simp: pool_def)
  from alloc_phys_bump [OF free(1) ok p(2)] obtain bm where
    phys: "avmf_alloc_phys_contiguous PAGE_SIZE s =
        Some (frame p, s\<lparr>avmf_bitmap := bm, last_alloc_page := of_nat (Suc p)\<rparr>)"
      "used_pages bm = insert p (used s)"
      "phys_ok (s\<lparr>avmf_bitmap := bm, last_alloc_page := of_nat (Suc p)\<rparr>)"
      "0 < n \<Longrightarrow> bump (s\<lparr>avmf_bitmap := bm, last_alloc_page := of_nat (Suc p)\<rparr>) i (Suc p) n"
      "p < BITMAP_SIZE"
    by (auto simp: frame_def)
  let ?s1 = "s\<lparr>avmf_bitmap := bm, last_alloc_page := of_nat (Suc p)\<rparr>"
  let ?v = "heap_sensitive s"
  have al: "align4k PAGE_SIZE = 4096"
    by (simp add: align4k_def PAGE_SIZE_def)
  have virt: "avmf_alloc_virt PAGE_SIZE MALLOC_TYPE_SENSITIVE ?s1 =
      Some (?v, ?s1\<lparr>heap_sensitive := ?v + 4096\<rparr>)"
    using free(1) by (simp add: alloc_virt_cases al)
  let ?s2 = "?s1\<lparr>heap_sensitive := ?v + 4096\<rparr>"
  have "\<not> locks ?s2 Avmf_lock2" and "regions_from k ?s2"
    using free(2) reg by (simp_all add: regions_from_def)
  from alloc_region_pool [OF this] obtain r hdrs ix h where
    region: "avmf_alloc_region ?v (frame p) PAGE_SIZE (AVMF_FLAG_PRESENT OR AVMF_FLAG_WRITEABLE) ?s2 =
        Some (r, ?s2\<lparr>static_headers := hdrs, header_index := ix, avmf_head := h\<rparr>)"
      "regions_from k (?s2\<lparr>static_headers := hdrs, header_index := ix, avmf_head := h\<rparr>)"
    by blast
  let ?s3 = "?s2\<lparr>static_headers := hdrs, header_index := ix, avmf_head := h\<rparr>"
  let ?tbl = "if pager_ready s \<noteq> 1 then frame p else AOS_DIRECT_MAP_BASE + frame p"
  let ?t = "?s3\<lparr>mem := clear_table (mem s) (frame p)\<rparr>"
  have up: "unat (frame p) = p * 4096"
    using phys(5) by (rule unat_frame)
  have win: "window ?tbl = frame p"
    using window_frame [OF phys(5)] window_direct [OF phys(5)] by (simp add: add.commute)
  have "window 0 = 0"
    by (simp add: window_def space_defs)
  moreover have "frame p \<noteq> 0"
    using p(1) up by auto
  ultimately have tbl: "?tbl \<noteq> 0"
    using win by metis
  have v0: "?v \<noteq> 0"
    using hs(1) by auto
  have res: "alloc_page_table old s = Some ((?tbl, frame p), ?t)"
    using phys(1) virt region(1) v0 tbl win by (simp add: alloc_page_table_def Let_def)
  have "unat (?v + 4096) = unat ?v + 4096"
    using hs(2) by (subst unat_plus_less) simp_all
  then have "0 < ?v + 4096" and "unat (?v + 4096) + n * 4096 < 2 ^ 64"
    using hs(2) by (simp_all add: word_less_nat_alt)
  moreover have "bump ?t i (Suc p) n = bump ?s1 i (Suc p) n"
    by (simp add: bump_def scan_from_def range_start_def range_end_def range_live_def used_def)
  moreover have "phys_ok ?t"
    using phys(3) by (simp add: phys_ok_def)
  moreover have "regions_from k ?t"
    using region(2) by (simp add: regions_from_def)
  ultimately have "pool ?t n"
    using phys(4) free unfolding pool_def by auto
  moreover have "used ?t = insert p (used s)"
    using phys(2) by (simp add: used_def)
  moreover have "p \<notin> used s"
    using p(2) by (force simp: bump_def)
  moreover have "pager_same s ?t"
    by (simp add: pager_same_def)
  ultimately show ?thesis
    using res p phys(5) by (intro exI [of _ p] exI [of _ ?t]) auto
qed

end
