(* ===== verification/Pager_Map.thy ===== *)
theory Pager_Map
  imports Pager_Frames
begin

text \<open>
  \<open>pager_map\<close> and \<open>pager_map_range\<close> refine the update of the translation function: after a call
  the addresses of the page translate to the mapped frame with the given flags and every other
  address translates as before.
\<close>

unbundle bit_operations_syntax

section \<open>Addresses with the same indices\<close>

lemma take_bit_eq_iff_bits:
  "take_bit m x = take_bit m y \<longleftrightarrow> (\<forall>n < m. bit x n = bit y n)" for x y :: "'a::len word"
proof
  assume eq: "take_bit m x = take_bit m y"
  show "\<forall>n < m. bit x n = bit y n"
  proof (intro allI impI)
    fix n
    assume "n < m"
    moreover have "bit (take_bit m x) n = bit (take_bit m y) n"
      by (simp only: eq)
    ultimately show "bit x n = bit y n"
      by (simp add: bit_take_bit_iff)
  qed
next
  assume "\<forall>n < m. bit x n = bit y n"
  then show "take_bit m x = take_bit m y"
    by (intro bit_word_eqI) (auto simp: bit_take_bit_iff)
qed

lemma idx_eq_iff:
  "idx k v = idx k w \<longleftrightarrow> (\<forall>n < 9. bit v (k + n) = bit w (k + n))"
proof -
  have "idx k x = unat (take_bit 9 (drop_bit k x))" for x
    by (simp add: idx_def take_bit_eq_mask mask_eq_exp_minus_1)
  then have "idx k v = idx k w \<longleftrightarrow> take_bit 9 (drop_bit k v) = take_bit 9 (drop_bit k w)"
    by (simp add: word_unat_eq_iff)
  also have "\<dots> \<longleftrightarrow> (\<forall>n < 9. bit v (k + n) = bit w (k + n))"
    by (simp add: take_bit_eq_iff_bits bit_drop_bit_eq)
  finally show ?thesis .
qed

lemma drop_eq_iff:
  "drop_bit k v = drop_bit k w \<longleftrightarrow> (\<forall>n. k \<le> n \<and> n < 64 \<longrightarrow> bit v n = bit w n)" for v w :: u64
proof -
  have "drop_bit k v = drop_bit k w \<longleftrightarrow> (\<forall>n. bit v (k + n) = bit w (k + n))"
  proof
    assume "drop_bit k v = drop_bit k w"
    then have "bit (drop_bit k v) n = bit (drop_bit k w) n" for n
      by simp
    then show "\<forall>n. bit v (k + n) = bit w (k + n)"
      by (simp add: bit_drop_bit_eq)
  next
    assume "\<forall>n. bit v (k + n) = bit w (k + n)"
    then show "drop_bit k v = drop_bit k w"
      by (intro bit_word_eqI) (simp add: bit_drop_bit_eq)
  qed
  also have "\<dots> \<longleftrightarrow> (\<forall>n. k \<le> n \<and> n < 64 \<longrightarrow> bit v n = bit w n)"
  proof
    assume "\<forall>n. bit v (k + n) = bit w (k + n)"
    then show "\<forall>n. k \<le> n \<and> n < 64 \<longrightarrow> bit v n = bit w n"
      by (metis le_add_diff_inverse)
  next
    assume a: "\<forall>n. k \<le> n \<and> n < 64 \<longrightarrow> bit v n = bit w n"
    show "\<forall>n. bit v (k + n) = bit w (k + n)"
    proof
      fix n
      show "bit v (k + n) = bit w (k + n)"
        using a bit_imp_le_length [of v "k + n"] bit_imp_le_length [of w "k + n"]
        by (cases "k + n < 64") auto
    qed
  qed
  finally show ?thesis .
qed

lemma high_bits:
  assumes "canonical v" "canonical w" and "48 \<le> n" "n < 64" and "bit v 47 = bit w 47"
  shows "bit v n = bit w n"
  using assms by (simp add: canonical_def)

text \<open>Nine bits at a time, from bit 12 or 21 up.\<close>

lemma bit_block:
  fixes k n :: nat
  assumes "k \<le> n" and "n < k + 9"
  obtains j where "j < 9" and "n = k + j"
  using assms by (metis le_add_diff_inverse nat_add_left_cancel_less)

lemma vpath_eq_iff:
  assumes "canonical v" and "canonical w"
  shows "vpath v = vpath w \<longleftrightarrow> drop_bit 12 v = drop_bit 12 w"
proof
  assume "drop_bit 12 v = drop_bit 12 w"
  then show "vpath v = vpath w"
    by (simp add: vpath_def idx_eq_iff drop_eq_iff)
next
  assume "vpath v = vpath w"
  then have b: "\<forall>n < 9. bit v (12 + n) = bit w (12 + n)" "\<forall>n < 9. bit v (21 + n) = bit w (21 + n)"
    "\<forall>n < 9. bit v (30 + n) = bit w (30 + n)" "\<forall>n < 9. bit v (39 + n) = bit w (39 + n)"
    by (simp_all add: vpath_def idx_eq_iff)
  show "drop_bit 12 v = drop_bit 12 w"
    unfolding drop_eq_iff
  proof (intro allI impI)
    fix n :: nat
    assume n: "12 \<le> n \<and> n < 64"
    consider "n < 12 + 9" | "21 \<le> n" "n < 21 + 9" | "30 \<le> n" "n < 30 + 9"
      | "39 \<le> n" "n < 39 + 9" | "48 \<le> n"
      by linarith
    then show "bit v n = bit w n"
    proof cases
      case 5
      have "bit v (39 + 8) = bit w (39 + 8)"
        by (rule b(4) [rule_format]) simp
      then show ?thesis
        using high_bits [OF assms 5] n by simp
    qed (use b n in \<open>metis bit_block\<close>)+
  qed
qed

lemma vpath_take_eq_iff:
  assumes "canonical v" and "canonical w"
  shows "take 3 (vpath v) = take 3 (vpath w) \<longleftrightarrow> drop_bit 21 v = drop_bit 21 w"
proof
  assume "drop_bit 21 v = drop_bit 21 w"
  then show "take 3 (vpath v) = take 3 (vpath w)"
    by (simp add: vpath_def idx_eq_iff drop_eq_iff numeral_3_eq_3)
next
  assume "take 3 (vpath v) = take 3 (vpath w)"
  then have b: "\<forall>n < 9. bit v (21 + n) = bit w (21 + n)"
    "\<forall>n < 9. bit v (30 + n) = bit w (30 + n)" "\<forall>n < 9. bit v (39 + n) = bit w (39 + n)"
    by (simp_all add: vpath_def idx_eq_iff numeral_3_eq_3)
  show "drop_bit 21 v = drop_bit 21 w"
    unfolding drop_eq_iff
  proof (intro allI impI)
    fix n :: nat
    assume n: "21 \<le> n \<and> n < 64"
    consider "n < 21 + 9" | "30 \<le> n" "n < 30 + 9" | "39 \<le> n" "n < 39 + 9" | "48 \<le> n"
      by linarith
    then show "bit v n = bit w n"
    proof cases
      case 4
      have "bit v (39 + 8) = bit w (39 + 8)"
        by (rule b(3) [rule_format]) simp
      then show ?thesis
        using high_bits [OF assms 4] n by simp
    qed (use b n in \<open>metis bit_block\<close>)+
  qed
qed

section \<open>The invariant of the pager\<close>

definition root :: "'a pager_scheme \<Rightarrow> u64" where
  "root s = window (firmware_pml4 s)"

text \<open>The firmware tables form a tree of frames that the page allocator holds as used.\<close>

definition pager_ok :: "'a pager_scheme \<Rightarrow> bool" where
  "pager_ok s \<longleftrightarrow> (pager_ready s = 0 \<or> pager_ready s = 1) \<and> phys_ok s
     \<and> tree (mem s) (root s) \<and> tables (mem s) (root s) \<subseteq> frame ` used s"

lemma root_same: "pager_same s t \<Longrightarrow> root t = root s"
  by (simp add: root_def pager_same_def)

lemma present_and: "e AND PAGE_PRESENT = 0 \<longleftrightarrow> \<not> present e"
  using and_exp_eq_0_iff_not_bit [of e 0] by (simp add: present_def PAGE_PRESENT_def)

lemma huge_and: "e AND PAGE_HUGE = 0 \<longleftrightarrow> \<not> huge e"
  using and_exp_eq_0_iff_not_bit [of e 7] by (simp add: huge_def PAGE_HUGE_def)

lemma table_frame:
  assumes "pager_ok s" and "reach (mem s) (root s) is = Some t" and "path is" and "length is \<le> 3"
  obtains q where "t = frame q" and "q \<in> used s" and "q < BITMAP_SIZE"
  using assms tablesI [OF assms(3,4,2)] used_bound [of s] by (auto simp: pager_ok_def)

text \<open>A pointer made from the address in an entry stands for that address.\<close>

lemma window_phys_to_virt:
  "q < BITMAP_SIZE \<Longrightarrow> window (pager_phys_to_virt (frame q) s) = frame q"
  by (simp add: pager_phys_to_virt_def window_frame window_direct)

section \<open>One level\<close>

text \<open>
  Every frame in use that holds no table stays in use, holds no table and keeps its bytes.
\<close>

definition kept :: "'a pager_scheme \<Rightarrow> 'a pager_scheme \<Rightarrow> bool" where
  "kept s t \<longleftrightarrow> used s \<subseteq> used t
     \<and> (\<forall>p \<in> used s. p < BITMAP_SIZE \<and> frame p \<notin> tables (mem s) (root s) \<longrightarrow>
          frame p \<notin> tables (mem t) (root t)
        \<and> (\<forall>k < 4096. mem t (frame p + of_nat k) = mem s (frame p + of_nat k)))"

lemma kept_refl [simp]: "kept s s"
  by (simp add: kept_def)

text \<open>A page of data: a page that holds no table.\<close>

definition data_page :: "nat \<Rightarrow> 'a pager_scheme \<Rightarrow> bool" where
  "data_page p s \<longleftrightarrow> p < BITMAP_SIZE \<and> frame p \<notin> tables (mem s) (root s)"

lemma keptI:
  assumes "used s \<subseteq> used t"
    and "\<And>p. p \<in> used s \<Longrightarrow> p < BITMAP_SIZE \<Longrightarrow> frame p \<notin> tables (mem s) (root s) \<Longrightarrow>
      frame p \<notin> tables (mem t) (root t)"
    and "\<And>p k. p \<in> used s \<Longrightarrow> p < BITMAP_SIZE \<Longrightarrow> frame p \<notin> tables (mem s) (root s) \<Longrightarrow> k < 4096 \<Longrightarrow>
      mem t (frame p + of_nat k) = mem s (frame p + of_nat k)"
  shows "kept s t"
  using assms unfolding kept_def by blast

lemma kept_trans: "kept s t \<Longrightarrow> kept t u \<Longrightarrow> kept s u"
  unfolding kept_def by (metis (no_types, lifting) subset_eq)

lemma keptD:
  assumes "kept s t" and "p \<in> used s" and "p < BITMAP_SIZE" and "frame p \<notin> tables (mem s) (root s)"
  shows "p \<in> used t" "frame p \<notin> tables (mem t) (root t)"
    "k < 4096 \<Longrightarrow> mem t (frame p + of_nat k) = mem s (frame p + of_nat k)"
  using assms unfolding kept_def by blast+

text \<open>Bytes of different frames.\<close>

lemma frames_apart:
  assumes "w < BITMAP_SIZE" "q < BITMAP_SIZE" "w \<noteq> q" "k < 4096" "j + n \<le> 4096"
  shows "n \<le> unat (frame w + of_nat k - (frame q + of_nat j))"
proof (cases "n = 0")
  case False
  then have j: "j < 4096"
    using assms(5) by simp
  have u: "unat (frame w + of_nat k) = w * 4096 + k" "unat (frame q + of_nat j) = q * 4096 + j"
    using assms(1,2,4) j by (subst unat_plus_less; simp add: unat_frame unat_of_nat_small BITMAP_SIZE_def)+
  consider "w < q" | "q < w"
    using assms(3) by linarith
  then show ?thesis
  proof cases
    case 1
    then have "w * 4096 + k < q * 4096 + j"
      using assms(4) by simp
    then show ?thesis
      using assms(1,2,4,5) u by (simp add: unat_sub_if' BITMAP_SIZE_def)
  next
    case 2
    then have "q * 4096 + j + n \<le> w * 4096 + k"
      using assms(4,5) by simp
    then show ?thesis
      using u by (simp add: unat_sub_if')
  qed
qed simp

lemma st64_frame:
  assumes "w < BITMAP_SIZE" "q < BITMAP_SIZE" "w \<noteq> q" "k < 4096" "i < 512"
  shows "st64 m (frame q + 8 * of_nat i) v (frame w + of_nat k) = m (frame w + of_nat k)"
proof -
  have "8 \<le> unat (frame w + of_nat k - (frame q + of_nat (8 * i)))"
    using assms by (intro frames_apart) simp_all
  then show ?thesis
    by (intro st64_outside) simp
qed

lemma clear_table_frame:
  assumes "w < BITMAP_SIZE" "q < BITMAP_SIZE" "w \<noteq> q" "k < 4096"
  shows "clear_table m (frame q) (frame w + of_nat k) = m (frame w + of_nat k)"
proof -
  have "foldl (\<lambda>m i. st64 m (frame q + 8 * of_nat i) 0) m is (frame w + of_nat k) = m (frame w + of_nat k)"
    if "\<forall>i \<in> set is. i < 512" for "is" m
    using that by (induction "is" arbitrary: m) (simp_all add: st64_frame [OF assms])
  then show ?thesis
    by (simp add: clear_table_def)
qed

text \<open>What one level of \<open>pager_map\<close> leaves alone.\<close>

definition same_maps :: "'a pager_scheme \<Rightarrow> 'a pager_scheme \<Rightarrow> bool" where
  "same_maps s t \<longleftrightarrow> pager_same s t \<and> kept s t \<and> (\<forall>js. path js \<and> length js = 4 \<longrightarrow>
     leaf (mem t) (root s) js = leaf (mem s) (root s) js)"

lemma same_mapsD:
  assumes "same_maps s t"
  shows "pager_same s t" "root t = root s" "kept s t"
    "path js \<Longrightarrow> length js = 4 \<Longrightarrow> leaf (mem t) (root s) js = leaf (mem s) (root s) js"
    "translate (mem t) (root s) v = translate (mem s) (root s) v"
  using assms root_same by (auto simp: same_maps_def translate_def)

lemma same_maps_trans: "same_maps s t \<Longrightarrow> same_maps t u \<Longrightarrow> same_maps s u"
  by (auto simp: same_maps_def root_same intro: pager_same_trans kept_trans)

lemma fresh_hangs:
  assumes ok: "pager_ok s" and at: "path at" "length at \<le> 2" "i < 512"
    and here: "reach (mem s) (root s) at = Some (frame q)" "q \<in> used s"
    and absent: "\<not> present (ent (mem s) (frame q) i)"
    and p: "p < BITMAP_SIZE" "p \<notin> used s"
  shows "hangs (mem s)
    (st64 (clear_table (mem s) (frame p)) (frame q + 8 * of_nat i) (frame p OR PAGE_PRESENT OR PAGE_RW))
    (root s) at (frame q) i (frame p)"
proof -
  let ?m = "clear_table (mem s) (frame p)"
  let ?m' = "st64 ?m (frame q + 8 * of_nat i) (frame p OR PAGE_PRESENT OR PAGE_RW)"
  have bound: "w < BITMAP_SIZE" if "w \<in> used s" for w
    using that ok used_bound by (auto simp: pager_ok_def)
  have tabs: "tables (mem s) (root s) \<subseteq> frame ` used s"
    using ok by (simp add: pager_ok_def)
  have q: "q < BITMAP_SIZE" "q \<noteq> p"
    using bound here(2) p(2) by auto
  have three: "frame p OR PAGE_PRESENT OR PAGE_RW = frame p OR 3"
    by (simp add: PAGE_PRESENT_def PAGE_RW_def or.assoc)
  have same: "same_but (mem s) ?m' (root s) (frame q) i"
    unfolding same_but_def
  proof (intro ballI allI impI)
    fix u k
    assume "u \<in> tables (mem s) (root s)" and k: "k < 512" "(u, k) \<noteq> (frame q, i)"
    then obtain w where w: "u = frame w" "w \<in> used s" "w < BITMAP_SIZE"
      using tabs bound by blast
    then have "w \<noteq> p"
      using p(2) by auto
    then show "ent ?m' u k = ent (mem s) u k"
      using w k at(3) q p(1) by (auto simp: ent_set ent_clear)
  qed
  have "frame p \<notin> tables (mem s) (root s)"
    using tabs p bound frame_inject by blast
  moreover have "\<forall>k < 512. ent ?m' (frame p) k = 0"
    using q p at(3) by (simp add: ent_set ent_clear)
  moreover have "ent ?m' (frame q) i = frame p OR 3"
    using q at(3) three by (simp add: ent_set)
  moreover have "tree (mem s) (root s)"
    using ok by (simp add: pager_ok_def)
  ultimately show ?thesis
    unfolding hangs_def
    using at here(1) absent same p(1) frame_page hw_addr_frame by simp
qed

text \<open>Following a present entry: the pointer the code makes from it.\<close>

lemma walk_step:
  assumes ok: "pager_ok s" and at: "path at" "length at \<le> 2" "i < 512"
    and here: "reach (mem s) (root s) at = Some (window tbl)"
    and e: "present (ent (mem s) (window tbl) i)" "\<not> huge (ent (mem s) (window tbl) i)"
  shows "reach (mem s) (root s) (at @ [i]) =
    Some (window (pager_phys_to_virt (ent (mem s) (window tbl) i AND NOT 0xFFF) s))"
proof -
  let ?e = "ent (mem s) (window tbl) i"
  have tr: "tree (mem s) (root s)"
    using ok by (simp add: pager_ok_def)
  have addr: "?e AND NOT (mask 12) = hw_addr ?e"
    using tree_entry(2) [OF tr at here e(1,2)] .
  have nxt: "reach (mem s) (root s) (at @ [i]) = Some (hw_addr ?e)"
    using here e by (simp add: reach_append Let_def)
  obtain w where w: "hw_addr ?e = frame w" "w < BITMAP_SIZE"
    using table_frame [OF ok nxt] at by auto
  have "?e AND NOT 0xFFF = frame w"
    using addr w(1) by (simp add: mask_eq_exp_minus_1)
  then show ?thesis
    using nxt w by (simp add: window_phys_to_virt)
qed

lemma next_table_spec:
  assumes ok: "pager_ok s" and pool: "pool s (Suc n)"
    and at: "path at" "length at \<le> 2" "i < 512"
    and here: "reach (mem s) (root s) at = Some (window tbl)"
    and small: "present (ent (mem s) (window tbl) i) \<Longrightarrow> \<not> huge (ent (mem s) (window tbl) i)"
  shows "\<exists>u t. next_table tbl i s = Some (u, t) \<and> pager_ok t \<and> pool t n \<and> same_maps s t
    \<and> reach (mem t) (root s) (at @ [i]) = Some (window u)"
proof -
  obtain q where q: "window tbl = frame q" "q \<in> used s" "q < BITMAP_SIZE"
    using table_frame [OF ok here at(1)] at(2) by auto
  have entry: "get_entry tbl i s = ent (mem s) (frame q) i"
    by (simp add: get_entry_def ent_def q(1))
  show ?thesis
  proof (cases "present (ent (mem s) (frame q) i)")
    case True
    then have e: "present (ent (mem s) (window tbl) i)"
      by (simp add: q(1))
    have "next_table tbl i s =
        Some (pager_phys_to_virt (ent (mem s) (window tbl) i AND NOT 0xFFF) s, s)"
      using True by (simp add: next_table_def entry present_and q(1))
    then show ?thesis
      using ok pool_mono [OF pool, of n] walk_step [OF ok at here e small [OF e]]
      by (simp add: same_maps_def)
  next
    case False
    from alloc_page_table_spec [OF pool, of 0] obtain p t1 where
      new: "alloc_page_table 0 s =
          Some ((if pager_ready s \<noteq> 1 then frame p else AOS_DIRECT_MAP_BASE + frame p, frame p), t1)"
        "p < BITMAP_SIZE" "p \<notin> used s" "used t1 = insert p (used s)"
        "mem t1 = clear_table (mem s) (frame p)" "pager_same s t1" "pool t1 n"
      by blast
    let ?u = "if pager_ready s \<noteq> 1 then frame p else AOS_DIRECT_MAP_BASE + frame p"
    let ?t = "set_entry tbl i (frame p OR PAGE_PRESENT OR PAGE_RW) t1"
    have win: "window ?u = frame p"
      using window_frame [OF new(2)] window_direct [OF new(2)] by (simp add: add.commute)
    have res: "next_table tbl i s = Some (?u, ?t)"
      using False new(1) by (simp add: next_table_def entry present_and)
    have mem_t: "mem ?t = st64 (clear_table (mem s) (frame p)) (frame q + 8 * of_nat i)
        (frame p OR PAGE_PRESENT OR PAGE_RW)"
      by (simp add: set_entry_def q(1) new(5))
    have h: "hangs (mem s) (mem ?t) (root s) at (frame q) i (frame p)"
      unfolding mem_t using here q False new(2,3)
      by (intro fresh_hangs ok at) simp_all
    have pt: "pool ?t n" "used ?t = used t1"
      using new(7) pool_cong [of ?t t1] by (simp_all add: set_entry_def)
    have same: "pager_same s ?t"
      using new(6) by (simp add: pager_same_def set_entry_def)
    moreover have "kept s ?t"
    proof -
      have q_table: "frame q \<in> tables (mem s) (root s)"
        using tablesI [of at "mem s" "root s" "frame q"] at here q(1) by simp
      have "tables (mem ?t) (root ?t) \<subseteq> insert (frame p) (tables (mem s) (root s))"
        using hang_tables [OF h] root_same [OF same] by simp
      moreover have "mem ?t (frame w + of_nat k) = mem s (frame w + of_nat k)"
        if "w \<noteq> p" "w \<noteq> q" "w < BITMAP_SIZE" "k < 4096" for w k
        unfolding mem_t using that new(2) q(3) at(3) by (simp add: st64_frame clear_table_frame)
      moreover have "used s \<subseteq> used ?t"
        unfolding pt(2) new(4) by auto
      moreover have "w \<noteq> q" if "frame w \<notin> tables (mem s) (root s)" for w
        using q_table that by auto
      moreover have "frame w \<noteq> frame p" "w \<noteq> p" if "w \<in> used s" "w < BITMAP_SIZE" for w
        using that new(2,3) frame_inject by auto
      ultimately show ?thesis
        by (intro keptI) (simp, blast, simp)
    qed
    ultimately have "same_maps s ?t"
      using same hang_leaf [OF h] by (simp add: same_maps_def)
    note this same
    moreover have "tables (mem ?t) (root s) \<subseteq> frame ` used ?t"
      using hang_tables [OF h] ok unfolding pt(2) new(4) by (auto simp: pager_ok_def)
    then have "pager_ok ?t"
      using pt(1) hang_tree [OF h] ok same root_same [OF same]
      by (simp add: pager_ok_def pool_def pager_same_def)
    moreover have "reach (mem ?t) (root s) (at @ [i]) = Some (window ?u)"
      unfolding win by (rule hang_reach(2) [OF h])
    ultimately show ?thesis
      using res pt(1) by blast
  qed
qed

section \<open>Writing an entry\<close>

lemma set_entry_frame [simp]:
  "pool (set_entry tbl i e s) n = pool s n" "used (set_entry tbl i e s) = used s"
  "pager_same s (set_entry tbl i e s)"
  using pool_cong [of "set_entry tbl i e s" s] by (simp_all add: set_entry_def pager_same_def)

lemma write_entry_spec:
  assumes ok: "pager_ok s" and at: "path at" "i < 512"
    and here: "reach (mem s) (root s) at = Some (window tbl)"
    and e: "length at = 3 \<or> length at = 2 \<and> (present e \<longrightarrow> huge e)"
    and t: "t = set_entry tbl i e s"
  shows "pager_ok t \<and> kept s t \<and> (\<forall>js. path js \<and> length js = 4 \<longrightarrow> leaf (mem t) (root s) js =
    (if prefix (at @ [i]) js then (if present e then Some (e, 3 - length at) else None)
     else leaf (mem s) (root s) js))"
proof -
  have le: "length at \<le> 3"
    using e by auto
  obtain q where q: "window tbl = frame q" "q \<in> used s" "q < BITMAP_SIZE"
    using table_frame [OF ok here at(1) le] .
  have mem_t: "mem t = st64 (mem s) (frame q + 8 * of_nat i) e"
    by (simp add: t set_entry_def q(1))
  have bound: "w < BITMAP_SIZE" if "w \<in> used s" for w
    using that ok used_bound by (auto simp: pager_ok_def)
  have "same_but (mem s) (mem t) (root s) (frame q) i"
    using ok bound q(3) at(2) unfolding same_but_def mem_t pager_ok_def
    by (auto simp: ent_set)
  moreover have "ent (mem t) (frame q) i = e"
    using q(3) at(2) by (simp add: mem_t ent_set)
  ultimately have w: "maps (mem s) (mem t) (root s) at (frame q) i e"
    using ok here at e by (simp add: maps_def pager_ok_def q(1))
  have same: "pager_same s t" and used: "used t = used s"
    by (simp_all add: t)
  have "phys_ok t"
    using ok by (simp add: t set_entry_def phys_ok_def pager_ok_def)
  moreover have "tables (mem t) (root s) \<subseteq> frame ` used t"
    using maps_tables [OF w] ok unfolding used by (auto simp: pager_ok_def)
  ultimately have "pager_ok t"
    using maps_tree [OF w] ok same root_same [OF same]
    by (simp add: pager_ok_def pager_same_def)
  moreover have "kept s t"
  proof -
    have q_table: "frame q \<in> tables (mem s) (root s)"
      using tablesI [of at "mem s" "root s" "frame q"] at here q(1) le by simp
    have "tables (mem t) (root t) \<subseteq> tables (mem s) (root s)"
      using maps_tables [OF w] root_same [OF same] by simp
    moreover have "mem t (frame u + of_nat k) = mem s (frame u + of_nat k)"
      if "u \<noteq> q" "u < BITMAP_SIZE" "k < 4096" for u k
      unfolding mem_t using that q(3) at(2) by (simp add: st64_frame)
    moreover have "used s \<subseteq> used t"
      by (simp add: used)
    moreover have "w \<noteq> q" if "frame w \<notin> tables (mem s) (root s)" for w
      using q_table that by auto
    ultimately show ?thesis
      by (intro keptI) (simp, blast, simp)
  qed
  ultimately show ?thesis
    using maps_leaf [OF w] by simp
qed

lemma map_entry_spec:
  assumes "pager_ok s" "pool s n" "path at" "i < 512"
    and "reach (mem s) (root s) at = Some (window tbl)"
    and "present e" "length at = 3 \<or> length at = 2 \<and> huge e"
    and "t = set_entry tbl i e s"
  shows "pager_ok t \<and> pool t n \<and> pager_same s t \<and> kept s t
    \<and> (\<forall>js. path js \<and> length js = 4 \<longrightarrow> leaf (mem t) (root s) js =
         (if prefix (at @ [i]) js then Some (e, 3 - length at) else leaf (mem s) (root s) js))"
  using write_entry_spec [of s at i tbl e t] assms by simp

section \<open>The words the code writes\<close>

lemma bit_small_word:
  fixes x :: "'a::len word"
  assumes "unat x < 2 ^ n" and "n \<le> k"
  shows "\<not> bit x k"
proof -
  have "x = take_bit n x"
    using assms(1) by (simp only: word_unat_eq_iff unsigned_take_bit_eq take_bit_nat_eq_self)
  then have "bit x k \<longleftrightarrow> bit (take_bit n x) k"
    by simp
  then show ?thesis
    using assms(2) by (simp add: bit_take_bit_iff)
qed

lemma page_masks: "(0xFFF :: u64) = mask 12" "(0x1FFFFF :: u64) = mask 21"
  by (simp_all add: mask_eq_exp_minus_1)

text \<open>The attributes a call with some flags gives to a page, of either size.\<close>

definition attr :: "u64 \<Rightarrow> u64" where
  "attr flags = (flags AND NOT PAGE_HUGE AND mask 12) OR PAGE_PRESENT"

lemma bit_page_huge: "bit PAGE_HUGE n \<longleftrightarrow> n = 7"
proof -
  have huge: "PAGE_HUGE = 2 ^ 7"
    by (simp add: PAGE_HUGE_def)
  show ?thesis
    unfolding huge bit_one_shift by simp
qed

definition small_entry :: "u64 \<Rightarrow> u64 \<Rightarrow> u64" where
  "small_entry phys flags = (phys AND NOT (mask 12)) OR (flags AND mask 12) OR 1"

definition huge_entry :: "u64 \<Rightarrow> u64 \<Rightarrow> u64" where
  "huge_entry phys flags = (phys AND NOT (mask 21)) OR (flags AND mask 12) OR 1"

lemma bit_hw_addr: "bit (hw_addr e) n \<longleftrightarrow> 12 \<le> n \<and> n < 52 \<and> bit e n"
  by (auto simp: hw_addr_page bit_simps)

lemma phys_bit: "unat phys < 2 ^ 52 \<Longrightarrow> bit phys n \<Longrightarrow> n < 52" for phys :: u64
  by (metis bit_small_word not_less)

lemma small_entry_bits:
  assumes "unat phys < 2 ^ 52"
  shows "present (small_entry phys flags)"
    and "hw_addr (small_entry phys flags) = phys AND NOT (mask 12)"
    and "flags AND PAGE_HUGE = 0 \<Longrightarrow> small_entry phys flags AND mask 12 = attr flags"
proof -
  show "present (small_entry phys flags)"
    by (simp add: present_def small_entry_def bit_simps)
  show "hw_addr (small_entry phys flags) = phys AND NOT (mask 12)"
    by (intro bit_word_eqI)
       (auto simp: bit_hw_addr small_entry_def bit_simps dest: phys_bit [OF assms])
  assume "flags AND PAGE_HUGE = 0"
  then show "small_entry phys flags AND mask 12 = attr flags"
    by (intro bit_word_eqI)
       (auto simp: small_entry_def attr_def bit_simps PAGE_PRESENT_def bit_page_huge huge_and huge_def)
qed

lemma huge_entry_bits:
  assumes "unat phys < 2 ^ 52" and "flags AND PAGE_HUGE \<noteq> 0"
  shows "present (huge_entry phys flags)" and "huge (huge_entry phys flags)"
    and "hw_addr (huge_entry phys flags) AND NOT (mask 21) = phys AND NOT (mask 21)"
    and "huge_entry phys flags AND NOT 0x80 AND mask 12 = attr flags"
proof -
  show "present (huge_entry phys flags)"
    by (simp add: present_def huge_entry_def bit_simps)
  show "huge (huge_entry phys flags)"
    using assms(2) huge_and [of flags] by (simp add: huge_def huge_entry_def bit_simps)
  show "hw_addr (huge_entry phys flags) AND NOT (mask 21) = phys AND NOT (mask 21)"
    by (intro bit_word_eqI)
       (auto simp: bit_hw_addr huge_entry_def bit_simps dest: phys_bit [OF assms(1)])
  show "huge_entry phys flags AND NOT 0x80 AND mask 12 = attr flags"
    by (rule bit_word_eqI)
       (auto simp: huge_entry_def attr_def bit_simps PAGE_PRESENT_def bit_page_huge
          simp flip: PAGE_HUGE_def)
qed

section \<open>\<open>pager_map\<close>\<close>

text \<open>The abstract value of the tables, and what a mapping of \<open>2^k\<close> bytes does to it.\<close>

definition tr :: "'a pager_scheme \<Rightarrow> u64 \<Rightarrow> (u64 \<times> u64) option" where
  "tr s = translate (mem s) (root s)"

definition remap :: "nat \<Rightarrow> u64 \<Rightarrow> u64 \<Rightarrow> u64 \<Rightarrow> (u64 \<Rightarrow> (u64 \<times> u64) option)
    \<Rightarrow> u64 \<Rightarrow> (u64 \<times> u64) option" where
  "remap k virt phys flags f v =
     (if canonical v \<and> drop_bit k v = drop_bit k virt
      then Some ((phys AND NOT (mask k)) + (v AND mask k), attr flags)
      else f v)"

lemma same_maps_tr: "same_maps s t \<Longrightarrow> tr t = tr s"
  by (simp add: fun_eq_iff tr_def same_mapsD)

text \<open>Pages have one of the two sizes only.\<close>

lemma leaf_level:
  assumes tr: "tree m r" and js: "path js" "length js = 4" and l: "leaf m r js = Some (e, n)"
  shows "n \<le> 1"
proof -
  obtain a b c d where abcd: "js = [a, b, c, d]"
    using js(2) by (auto simp: numeral_eq_Suc length_Suc_conv)
  have 0: "present (ent m r a) \<Longrightarrow> \<not> huge (ent m r a)"
    using tree_entry(1) [OF tr, of "[]" a r] js(1) by (simp add: abcd)
  have 1: "present (ent m r a) \<Longrightarrow> present (ent m u b) \<Longrightarrow> \<not> huge (ent m u b)"
    if "u = hw_addr (ent m r a)" for u
    using tree_entry(1) [OF tr, of "[a]" b u] js(1) 0 that by (simp add: abcd Let_def)
  show ?thesis
    using l 0 1 [OF refl] by (auto simp: abcd Let_def split: if_splits)
qed

lemma unmapped_leaf:
  assumes "tree (mem s) (root s)" and "canonical v"
  shows "tr s v = None \<longleftrightarrow> leaf (mem s) (root s) (vpath v) = None"
proof (cases "leaf (mem s) (root s) (vpath v)")
  case None
  then show ?thesis
    by (simp add: tr_def translate_def)
next
  case (Some l)
  obtain e n where l: "l = (e, n)"
    by (cases l)
  then have "n \<le> 1"
    using leaf_level [OF assms(1) vpath_path vpath_length] Some by blast
  then have "page_of (e, n) v \<noteq> None"
    by (auto simp: page_of_def le_Suc_eq)
  then show ?thesis
    using Some assms(2) by (auto simp: tr_def translate_def l)
qed

lemma phys_limit_ok:
  "unat phys < 2 ^ unat b \<Longrightarrow> phys AND NOT (push_bit (unat b) 1 - 1) = 0" for phys b :: u64
  unfolding push_bit_of_1 mask_eq_exp_minus_1 [symmetric]
  by (simp add: word_unat_eq_iff unat_and_not_mask)

lemma pager_map_spec:
  assumes ok: "pager_ok s" and pool: "pool s (n + 3)"
    and lim: "cpu_phys_bits s \<le> 52" "unat phys < 2 ^ unat (cpu_phys_bits s)"
    and can: "canonical virt"
    and small: "flags AND PAGE_HUGE = 0 \<Longrightarrow> \<forall>e. leaf (mem s) (root s) (vpath virt) \<noteq> Some (e, 1)"
  shows "\<exists>t. pager_map virt phys flags s = Some (firmware_pml4 s, t)
    \<and> pager_ok t \<and> pool t n \<and> pager_same s t \<and> kept s t
    \<and> tr t = remap (if flags AND PAGE_HUGE = 0 then 12 else 21) virt phys flags (tr s)
    \<and> (\<forall>v. canonical v \<longrightarrow> drop_bit 21 v \<noteq> drop_bit 21 virt \<longrightarrow>
         leaf (mem t) (root s) (vpath v) = leaf (mem s) (root s) (vpath v))
    \<and> (flags AND PAGE_HUGE = 0 \<longrightarrow> (\<forall>v e. canonical v \<longrightarrow>
         leaf (mem t) (root s) (vpath v) = Some (e, 1) \<longrightarrow>
         leaf (mem s) (root s) (vpath v) = Some (e, 1)))"
proof -
  let ?a = "idx 39 virt" and ?b = "idx 30 virt" and ?c = "idx 21 virt" and ?d = "idx 12 virt"
  have phys52: "unat phys < 2 ^ 52"
  proof -
    have "unat (cpu_phys_bits s) \<le> 52"
      using lim(1) by (simp add: word_le_nat_alt)
    then have "(2::nat) ^ unat (cpu_phys_bits s) \<le> 2 ^ 52"
      by (rule power_increasing) simp
    then show ?thesis
      using lim(2) by (rule less_le_trans [rotated])
  qed
  have bits: "\<not> 64 \<le> cpu_phys_bits s"
    using lim(1) by (simp add: word_le_nat_alt)
  have vp: "vpath virt = [?a, ?b, ?c, ?d]"
    by (simp add: vpath_def)
  have tree: "tree (mem s) (root s)"
    using ok by (simp add: pager_ok_def)
  have p1: "pool s (Suc (n + 2))"
    using pool by (simp add: numeral_3_eq_3)
  have r0: "reach (mem s) (root s) [] = Some (window (firmware_pml4 s))"
    by (simp add: root_def)
  have "present (ent (mem s) (window (firmware_pml4 s)) ?a) \<Longrightarrow>
      \<not> huge (ent (mem s) (window (firmware_pml4 s)) ?a)"
    using tree_entry(1) [OF tree, of "[]" ?a] idx_less by (simp add: root_def)
  from next_table_spec [OF ok p1 _ _ idx_less r0 this] obtain pdpt s1 where
    s1: "next_table (firmware_pml4 s) ?a s = Some (pdpt, s1)" "pager_ok s1" "pool s1 (n + 2)"
      "same_maps s s1" "reach (mem s1) (root s) [?a] = Some (window pdpt)"
    by auto
  have root1: "root s1 = root s"
    using same_mapsD(2) [OF s1(4)] .
  have tree1: "tree (mem s1) (root s1)"
    using s1(2) by (simp add: pager_ok_def)
  have p2: "pool s1 (Suc (n + 1))"
    using s1(3) by simp
  have r1: "reach (mem s1) (root s1) [?a] = Some (window pdpt)"
    using s1(5) by (simp add: root1)
  have "present (ent (mem s1) (window pdpt) ?b) \<Longrightarrow> \<not> huge (ent (mem s1) (window pdpt) ?b)"
    using tree_entry(1) [OF tree1, of "[?a]" ?b] r1 idx_less by simp
  from next_table_spec [OF s1(2) p2 _ _ idx_less r1 this] obtain pd s2 where
    s2: "next_table pdpt ?b s1 = Some (pd, s2)" "pager_ok s2" "pool s2 (n + 1)"
      "same_maps s1 s2" "reach (mem s2) (root s) [?a, ?b] = Some (window pd)"
    by (auto simp: idx_less root1)
  have m2: "same_maps s s2"
    using same_maps_trans s1(4) s2(4) .
  have root2: "root s2 = root s"
    using same_mapsD(2) [OF m2] .
  have r2: "reach (mem s2) (root s2) [?a, ?b] = Some (window pd)"
    using s2(5) by (simp add: root2)
  have leaf2: "leaf (mem s2) (root s) (vpath v) = leaf (mem s) (root s) (vpath v)" for v
    using same_mapsD(4) [OF m2] by simp
  show ?thesis
  proof (cases "flags AND PAGE_HUGE = 0")
    case False
    let ?e = "huge_entry phys flags"
    let ?t = "set_entry pd ?c ?e s2"
    note e = huge_entry_bits [OF phys52 False]
    have res: "pager_map virt phys flags s = Some (firmware_pml4 s, ?t)"
      using bits phys_limit_ok [OF lim(2)] s1(1) s2(1) False
      by (simp add: pager_map_def Let_def page_masks huge_entry_def PAGE_PRESENT_def)
    have path: "path [?a, ?b]"
      by (simp add: idx_less)
    have lvl: "length [?a, ?b] = 3 \<or> length [?a, ?b] = 2 \<and> huge ?e"
      using e(2) by simp
    note w = map_entry_spec [OF s2(2,3) path idx_less r2 e(1) lvl refl]
    have same: "pager_same s ?t"
      using w same_mapsD(1) [OF m2] pager_same_trans by blast
    have kept: "kept s ?t"
      using w same_mapsD(3) [OF m2] kept_trans by blast
    have root_t: "root ?t = root s"
      using root_same [OF same] .
    have pre: "prefix ([?a, ?b] @ [?c]) (vpath v) \<longleftrightarrow> drop_bit 21 v = drop_bit 21 virt"
      if "canonical v" for v
      using vpath_take_eq_iff [OF that can] by (auto simp: vpath_def numeral_3_eq_3)
    have leaf_t: "leaf (mem ?t) (root s) (vpath v) =
        (if drop_bit 21 v = drop_bit 21 virt then Some (?e, 1) else leaf (mem s) (root s) (vpath v))"
      if "canonical v" for v
      using w pre [OF that] leaf2 by (simp add: root2)
    have "tr ?t = remap 21 virt phys flags (tr s)"
      using leaf_t e(3,4)
      by (auto simp: fun_eq_iff tr_def translate_def root_t remap_def page_of_def)
    then show ?thesis
      using res w same kept leaf_t pool_mono [of ?t "n + 1" n] False by (intro exI [of _ ?t]) simp
  next
    case True
    let ?e = "small_entry phys flags"
    note e = small_entry_bits [OF phys52]
    have nh: "present (ent (mem s2) (window pd) ?c) \<Longrightarrow> \<not> huge (ent (mem s2) (window pd) ?c)"
    proof
      assume a: "present (ent (mem s2) (window pd) ?c)" "huge (ent (mem s2) (window pd) ?c)"
      have "leaf (mem s2) (root s) (vpath virt) = leaf (mem s2) (window pd) [?c, ?d]"
        using leaf_reach [OF s2(5), of "[?c, ?d]"] by (simp add: vp)
      also have "\<dots> = Some (ent (mem s2) (window pd) ?c, 1)"
        using a by (simp add: Let_def)
      finally show False
        using small True leaf2 by simp
    qed
    have p3: "pool s2 (Suc n)" and path2: "path [?a, ?b]" "length [?a, ?b] \<le> 2"
      using s2(3) by (simp_all add: idx_less)
    from next_table_spec [OF s2(2) p3 path2 idx_less r2 nh] obtain pt s3 where
      s3: "next_table pd ?c s2 = Some (pt, s3)" "pager_ok s3" "pool s3 n"
        "same_maps s2 s3" "reach (mem s3) (root s) [?a, ?b, ?c] = Some (window pt)"
      by (auto simp: root2)
    have m3: "same_maps s s3"
      using same_maps_trans m2 s3(4) .
    have root3: "root s3 = root s"
      using same_mapsD(2) [OF m3] .
    have leaf3: "leaf (mem s3) (root s) (vpath v) = leaf (mem s) (root s) (vpath v)" for v
      using same_mapsD(4) [OF m3] by simp
    let ?t = "set_entry pt ?d ?e s3"
    have res: "pager_map virt phys flags s = Some (firmware_pml4 s, ?t)"
      using bits phys_limit_ok [OF lim(2)] s1(1) s2(1) s3(1) True
      by (simp add: pager_map_def Let_def page_masks small_entry_def PAGE_PRESENT_def)
    have path: "path [?a, ?b, ?c]"
      by (simp add: idx_less)
    have lvl: "length [?a, ?b, ?c] = 3 \<or> length [?a, ?b, ?c] = 2 \<and> huge ?e"
      by simp
    have r3: "reach (mem s3) (root s3) [?a, ?b, ?c] = Some (window pt)"
      using s3(5) by (simp add: root3)
    note w = map_entry_spec [OF s3(2,3) path idx_less r3 e(1) lvl refl]
    have same: "pager_same s ?t"
      using w same_mapsD(1) [OF m3] pager_same_trans by blast
    have kept: "kept s ?t"
      using w same_mapsD(3) [OF m3] kept_trans by blast
    have root_t: "root ?t = root s"
      using root_same [OF same] .
    have pre: "prefix ([?a, ?b, ?c] @ [?d]) (vpath v) \<longleftrightarrow> drop_bit 12 v = drop_bit 12 virt"
      if "canonical v" for v
      using vpath_eq_iff [OF that can] by (auto simp: vpath_def)
    have leaf_t: "leaf (mem ?t) (root s) (vpath v) =
        (if drop_bit 12 v = drop_bit 12 virt then Some (?e, 0) else leaf (mem s) (root s) (vpath v))"
      if "canonical v" for v
      using w pre [OF that] leaf3 by (simp add: root3)
    have far: "drop_bit 12 v \<noteq> drop_bit 12 virt" if "drop_bit 21 v \<noteq> drop_bit 21 virt" for v
    proof
      assume "drop_bit 12 v = drop_bit 12 virt"
      then have "drop_bit 9 (drop_bit 12 v) = drop_bit 9 (drop_bit 12 virt)"
        by (rule arg_cong)
      then show False
        using that by simp
    qed
    have "tr ?t = remap 12 virt phys flags (tr s)"
      using leaf_t e(2) e(3) [OF True]
      by (auto simp: fun_eq_iff tr_def translate_def root_t remap_def page_of_def)
    then show ?thesis
      using res w same kept leaf_t far True by (intro exI [of _ ?t]) (auto split: if_splits)
  qed
qed

end
