(* ===== verification/Pager_Range.thy ===== *)
theory Pager_Range
  imports Pager_Map
begin

text \<open>
  \<open>pager_map_range\<close>: whatever mix of large and small pages the loop chooses, an unmapped range
  ends up translating byte for byte to the physical range, and the loop ends.
\<close>

unbundle bit_operations_syntax

section \<open>Blocks of addresses\<close>

lemma div_block:
  assumes "(b::nat) mod m = 0" and "0 < m"
  shows "a div m = b div m \<longleftrightarrow> b \<le> a \<and> a < b + m"
proof -
  obtain q where q: "b = m * q"
    using assms(1) by (metis mod_eq_0_iff_dvd dvdE)
  have "a div m = q \<longleftrightarrow> m * q \<le> a \<and> a < m * q + m"
  proof
    assume "a div m = q"
    then have "a = m * q + a mod m"
      using mult_div_mod_eq [of m a] by simp
    moreover have "a mod m < m"
      using assms(2) by simp
    ultimately show "m * q \<le> a \<and> a < m * q + m"
      by linarith
  next
    assume "m * q \<le> a \<and> a < m * q + m"
    then show "a div m = q"
      by (intro div_nat_eqI) (simp_all add: mult.commute)
  qed
  then show ?thesis
    using assms(2) by (simp add: q)
qed

lemma multiple_step:
  assumes "(a::nat) mod m = 0" and "b mod m = 0" and "a < b"
  shows "a + m \<le> b"
proof -
  obtain i j where ij: "a = m * i" "b = m * j"
    using assms(1,2) by (metis mod_eq_0_iff_dvd dvdE)
  then have "Suc i \<le> j"
    using assms(3) by auto
  then have "m * Suc i \<le> m * j"
    by (rule mult_le_mono2)
  then show ?thesis
    by (simp add: ij)
qed

lemma div_step:
  assumes "m \<le> y" and "y \<le> x" and "0 < (m::nat)"
  shows "Suc ((x - y) div m) \<le> x div m"
proof -
  have "Suc ((x - y) div m) = (x - y + m) div m"
    by (subst div_add_self2) (use assms(3) in auto)
  also have "\<dots> \<le> x div m"
    using assms by (intro div_le_mono) linarith
  finally show ?thesis .
qed

lemma same_block:
  fixes v w :: u64
  assumes "unat w mod 2 ^ k = 0"
  shows "drop_bit k v = drop_bit k w \<longleftrightarrow> unat w \<le> unat v \<and> unat v < unat w + 2 ^ k"
  using div_block [OF assms, of "unat v"] by (simp add: word_unat_eq_iff unat_drop)

lemma block_offset:
  fixes v w :: u64
  assumes "unat w mod 2 ^ k = 0" and "drop_bit k v = drop_bit k w"
  shows "v AND mask k = v - w"
proof -
  have le: "unat w \<le> unat v" "unat v < unat w + 2 ^ k"
    using assms same_block [OF assms(1), of v] by simp_all
  then have "unat v mod 2 ^ k = unat v - unat w"
    using assms(1)
    by (metis (no_types) add.commute le_add_diff_inverse less_diff_conv2 mod_add_left_eq mod_less plus_nat.add_0)
  then show ?thesis
    using le(1) by (simp add: word_unat_eq_iff unat_and_mask unat_sub_if')
qed

lemma aligned_and_not_mask: "unat p mod 2 ^ k = 0 \<Longrightarrow> p AND NOT (mask k) = p" for p :: u64
  using div_mult_mod_eq [of "unat p" "2 ^ k"]
  by (simp add: word_unat_eq_iff unat_and_not_mask)

section \<open>The loop\<close>

definition filled :: "u64 \<Rightarrow> u64 \<Rightarrow> nat \<Rightarrow> u64 \<Rightarrow> (u64 \<Rightarrow> (u64 \<times> u64) option)
    \<Rightarrow> u64 \<Rightarrow> (u64 \<times> u64) option" where
  "filled virt phys n a f v =
     (if unat virt \<le> unat v \<and> unat v < unat virt + n then Some (phys + (v - virt), a) else f v)"

lemma filled_0 [simp]: "filled virt phys 0 a f = f"
  by (auto simp: fun_eq_iff filled_def)

lemma remap_filled:
  assumes w: "unat w mod 2 ^ k = 0" and p: "unat p mod 2 ^ k = 0"
    and can: "\<forall>v. unat w \<le> unat v \<and> unat v < unat w + 2 ^ k \<longrightarrow> canonical v"
  shows "remap k w p flags f = filled w p (2 ^ k) (attr flags) f"
proof
  fix v
  show "remap k w p flags f v = filled w p (2 ^ k) (attr flags) f v"
  proof (cases "drop_bit k v = drop_bit k w")
    case True
    then show ?thesis
      using can same_block [OF w, of v] block_offset [OF w True] aligned_and_not_mask [OF p]
      by (simp add: remap_def filled_def)
  next
    case False
    then show ?thesis
      using same_block [OF w, of v] by (auto simp: remap_def filled_def)
  qed
qed

lemma filled_append:
  assumes "unat virt + n + k \<le> 2 ^ 64" and "unat (of_nat n :: u64) = n"
    and "unat (virt + of_nat n) = unat virt + n \<or> k = 0"
  shows "filled (virt + of_nat n) (phys + of_nat n) k a (filled virt phys n a f) =
    filled virt phys (n + k) a f"
proof (cases "k = 0")
  case True
  then show ?thesis by simp
next
  case False
  then have "unat (virt + of_nat n) = unat virt + n"
    using assms(3) by simp
  then show ?thesis
    by (auto simp: fun_eq_iff filled_def)
qed

lemma attr_huge: "attr (flags OR PAGE_HUGE) = attr flags"
  by (rule bit_word_eqI) (auto simp: attr_def bit_simps)

lemma or_huge: "(flags OR PAGE_HUGE) AND PAGE_HUGE \<noteq> 0"
  by (simp only: huge_and not_not) (simp add: huge_def bit_or_iff bit_page_huge)

text \<open>What a call of \<open>pager_map_range\<close> needs of its arguments.\<close>

definition range_args :: "u64 \<Rightarrow> u64 \<Rightarrow> nat \<Rightarrow> u64 \<Rightarrow> 'a pager_scheme \<Rightarrow> bool" where
  "range_args virt phys n flags s \<longleftrightarrow>
     cpu_phys_bits s \<le> 52 \<and> flags AND PAGE_HUGE = 0 \<and> n mod 4096 = 0
   \<and> unat virt mod 4096 = 0 \<and> unat phys mod 4096 = 0
   \<and> unat phys + n \<le> 2 ^ unat (cpu_phys_bits s) \<and> unat virt + n \<le> 2 ^ 64
   \<and> (\<forall>v. unat virt \<le> unat v \<and> unat v < unat virt + n \<longrightarrow> canonical v)"

definition range_free :: "u64 \<Rightarrow> nat \<Rightarrow> 'a pager_scheme \<Rightarrow> bool" where
  "range_free virt n s \<longleftrightarrow> (\<forall>v. unat virt \<le> unat v \<and> unat v < unat virt + n \<longrightarrow> tr s v = None)"

text \<open>The number of rounds of the loop.\<close>

function range_steps :: "nat \<Rightarrow> nat \<Rightarrow> nat \<Rightarrow> nat" where
  "range_steps v p n =
     (if n = 0 then 0
      else if 0x200000 \<le> n \<and> v mod 0x200000 = 0 \<and> p mod 0x200000 = 0
      then Suc (range_steps (v + 0x200000) (p + 0x200000) (n - 0x200000))
      else Suc (range_steps (v + 4096) (p + 4096) (n - 4096)))"
  by pat_completeness auto
termination
  by (relation "measure (\<lambda>(v, p, n). n)") auto

declare range_steps.simps [simp del]

lemma range_steps_pages: "range_steps v p n \<le> (n + 4095) div 4096"
proof (induction v p n rule: range_steps.induct)
  case (1 v p n)
  show ?case
  proof (cases "n = 0")
    case True
    then show ?thesis
      by (simp add: range_steps.simps)
  next
    case False
    have "Suc ((n - 0x200000 + 4095) div 4096) \<le> (n + 4095) div 4096" if "0x200000 \<le> n"
      using div_step [of 4096 "0x200000" "n + 4095"] that by simp
    moreover have "Suc ((n - 4096 + 4095) div 4096) \<le> (n + 4095) div 4096"
    proof (cases "4096 \<le> n")
      case True
      then show ?thesis
        using div_step [of 4096 4096 "n + 4095"] by simp
    next
      case small: False
      have "4096 \<le> n + 4095"
        using False by simp
      then have "4096 div 4096 \<le> (n + 4095) div 4096"
        by (rule div_le_mono)
      then show ?thesis
        using small by simp
    qed
    ultimately show ?thesis
      using 1 False by (subst range_steps.simps) (auto simp del: Suc_le_eq)
  qed
qed

lemma range_steps_aligned:
  "v mod 0x200000 = 0 \<Longrightarrow> p mod 0x200000 = 0 \<Longrightarrow> range_steps v p n \<le> n div 0x200000 + 512"
proof (induction n arbitrary: v p rule: less_induct)
  case (less n)
  show ?case
  proof (cases "0x200000 \<le> n")
    case True
    then have "range_steps v p n = Suc (range_steps (v + 0x200000) (p + 0x200000) (n - 0x200000))"
      using less.prems by (simp add: range_steps.simps [of v p n])
    moreover have "range_steps (v + 0x200000) (p + 0x200000) (n - 0x200000)
        \<le> (n - 0x200000) div 0x200000 + 512"
      using less True by (intro less.IH) simp_all
    ultimately show ?thesis
      using True by (simp add: le_div_geq)
  next
    case False
    then have "(n + 4095) div 4096 \<le> (0x1FFFFF + 4095) div 4096"
      by (intro div_le_mono) simp
    then show ?thesis
      using range_steps_pages [of v p n] by simp
  qed
qed

text \<open>Both addresses at the same distance from a large page boundary.\<close>

lemma range_steps_bound:
  "v + 4096 * a = 0x200000 * i \<Longrightarrow> p + 4096 * a = 0x200000 * j \<Longrightarrow> a < 512 \<Longrightarrow>
   range_steps v p n \<le> n div 0x200000 + 512 + a"
proof (induction a arbitrary: v p n)
  case 0
  then show ?case
    using range_steps_aligned [of v p n] by simp
next
  case (Suc a)
  have "range_steps v p n \<le> Suc (range_steps (v + 4096) (p + 4096) (n - 4096))"
  proof -
    have "v mod 0x200000 \<noteq> 0"
    proof
      assume "v mod 0x200000 = 0"
      then obtain k where "v = 0x200000 * k"
        by (metis mod_eq_0_iff_dvd dvdE)
      then have "4096 * Suc a = 0x200000 * i - 0x200000 * k"
        using Suc.prems(1) by simp
      then have "4096 * Suc a = 0x200000 * (i - k)"
        by (simp add: diff_mult_distrib2)
      then show False
        using Suc.prems(3) by (cases "i - k") simp_all
    qed
    then show ?thesis
      by (simp add: range_steps.simps [of v p n])
  qed
  also have "range_steps (v + 4096) (p + 4096) (n - 4096) \<le> (n - 4096) div 0x200000 + 512 + a"
    using Suc.prems by (intro Suc.IH) simp_all
  also have "(n - 4096) div 0x200000 \<le> n div 0x200000"
    by (intro div_le_mono) simp
  finally show ?case
    by simp
qed

text \<open>One call of \<open>pager_map\<close> for an aligned block of \<open>2^k\<close> bytes.\<close>

lemma map_block:
  assumes ok: "pager_ok s" and pool: "pool s (n + 3)"
    and k: "k = (if flags AND PAGE_HUGE = 0 then 12 else 21)"
    and lim: "cpu_phys_bits s \<le> 52" "unat p < 2 ^ unat (cpu_phys_bits s)"
    and al: "unat w mod 2 ^ k = 0" "unat p mod 2 ^ k = 0"
    and can: "\<forall>v. unat w \<le> unat v \<and> unat v < unat w + 2 ^ k \<longrightarrow> canonical v"
    and free: "tr s w = None"
  shows "\<exists>t. pager_map w p flags s = Some (firmware_pml4 s, t) \<and> pager_ok t \<and> pool t n
    \<and> pager_same s t \<and> kept s t \<and> tr t = filled w p (2 ^ k) (attr flags) (tr s)"
proof -
  have w: "canonical w"
    using can by simp
  have "tree (mem s) (root s)"
    using ok by (simp add: pager_ok_def)
  then have "\<forall>e. leaf (mem s) (root s) (vpath w) \<noteq> Some (e, 1)"
    using unmapped_leaf w free by fastforce
  from pager_map_spec [of s n p w flags, OF ok pool lim w this] show ?thesis
    unfolding k [symmetric] remap_filled [OF al can] by blast
qed

lemma pow_21: "(2::nat) ^ 21 = 0x200000" and pow_12: "(2::nat) ^ 12 = 4096"
  by simp_all

lemma map_range_loop:
  assumes args: "range_args virt phys n flags s0"
    and n: "n = pages_of nbytes * 4096"
  shows "pager_ok s \<Longrightarrow> pager_same s0 s \<and> kept s0 s \<Longrightarrow> unat off mod 4096 = 0 \<Longrightarrow> unat off \<le> n \<Longrightarrow>
    pool s (r + 3 * range_steps (unat virt + unat off) (unat phys + unat off)
      (unat nbytes - unat off)) \<Longrightarrow>
    tr s = filled virt phys (unat off) (attr flags) f \<Longrightarrow>
    \<forall>v. unat virt \<le> unat v \<and> unat v < unat virt + n \<longrightarrow> f v = None \<Longrightarrow>
    \<exists>t. pager_map_range_from off virt phys nbytes flags s = Some ((), t) \<and> pager_ok t \<and> pool t r
      \<and> (pager_same s0 t \<and> kept s0 t) \<and> tr t = filled virt phys n (attr flags) f"
proof (induction "n - unat off" arbitrary: off s rule: less_induct)
  case less
  note a = args [unfolded range_args_def]
  have lt: "off < nbytes \<longleftrightarrow> unat off < n"
    using less.prems(3) n by (auto simp: word_less_nat_alt pages_of_def)
  show ?case
  proof (cases "off < nbytes")
    case False
    then have "unat off = n"
      using lt less.prems(4) by simp
    then show ?thesis
      using False less.prems pool_mono [OF less.prems(5), of r]
      by (simp add: pager_map_range_from.simps)
  next
    case True
    then have on: "unat off < n"
      using lt by simp
    have same: "cpu_phys_bits s = cpu_phys_bits s0"
      using less.prems(2) by (simp add: pager_same_def)
    have pb: "(2::nat) ^ unat (cpu_phys_bits s0) \<le> 2 ^ 52"
      using a by (intro power_increasing) (auto simp: word_le_nat_alt)
    have n52: "n \<le> 2 ^ 52"
      using a pb by linarith
    have uv: "unat (virt + off) = unat virt + unat off"
      using a on by (intro unat_plus_less) simp
    have up: "unat (phys + off) = unat phys + unat off"
      using a on pb by (intro unat_plus_less) simp
    have al: "unat (virt + off) mod 4096 = 0" "unat (phys + off) mod 4096 = 0"
      using a less.prems(3) unfolding uv up by (simp_all add: mod_add_eq [symmetric] mod_0)
    define hg where "hg \<longleftrightarrow> 0x200000 \<le> nbytes - off \<and> (virt + off) mod 0x200000 = 0
      \<and> (phys + off) mod 0x200000 = 0"
    define k where "k = (if hg then 21 else 12::nat)"
    define fl where "fl = (if hg then flags OR PAGE_HUGE else flags)"
    have fl: "k = (if fl AND PAGE_HUGE = 0 then 12 else 21)" "attr fl = attr flags"
      using a or_huge by (auto simp: k_def fl_def attr_huge)
    have un: "unat (nbytes - off) = unat nbytes - unat off"
      using True by (simp add: unat_sub word_le_nat_alt word_less_nat_alt)
    have step: "unat off + 2 ^ k \<le> n"
    proof (cases hg)
      case True
      then have "0x200000 \<le> unat nbytes - unat off"
        using un by (simp add: hg_def word_le_nat_alt)
      then show ?thesis
        using n True by (simp add: k_def pages_of_def)
    next
      case False
      have "n mod 4096 = 0"
        using a by simp
      then show ?thesis
        using multiple_step [OF less.prems(3) _ on] False by (simp add: k_def)
    qed
    have kmod: "unat (virt + off) mod 2 ^ k = 0 \<and> unat (phys + off) mod 2 ^ k = 0"
    proof (cases hg)
      case True
      then have "unat ((virt + off) mod 0x200000) = 0" "unat ((phys + off) mod 0x200000) = 0"
        by (simp_all add: hg_def)
      then show ?thesis
        using True by (simp add: k_def unat_mod)
    next
      case False
      then show ?thesis
        using al by (simp add: k_def)
    qed
    define m where "m = range_steps (unat virt + (unat off + 2 ^ k)) (unat phys + (unat off + 2 ^ k))
      (unat nbytes - (unat off + 2 ^ k))"
    have k4: "4096 \<le> (2::nat) ^ k" "2 ^ k mod (4096::nat) = 0"
      by (simp_all add: k_def)
    have hg: "hg \<longleftrightarrow> 0x200000 \<le> unat nbytes - unat off
        \<and> (unat virt + unat off) mod 0x200000 = 0 \<and> (unat phys + unat off) mod 0x200000 = 0"
      unfolding hg_def uv [symmetric] up [symmetric] un [symmetric]
      by (simp add: word_le_nat_alt word_unat_eq_iff unat_mod)
    have "unat off < unat nbytes"
      using True by (simp add: word_less_nat_alt)
    then have "range_steps (unat virt + unat off) (unat phys + unat off) (unat nbytes - unat off) = Suc m"
      using hg unfolding m_def
      by (subst range_steps.simps) (auto simp: k_def add.assoc)
    then have pool: "pool s (r + 3 * m + 3)"
      using less.prems(5) by (simp add: algebra_simps)
    have can: "\<forall>v. unat (virt + off) \<le> unat v \<and> unat v < unat (virt + off) + 2 ^ k \<longrightarrow> canonical v"
      using a step unfolding uv by auto
    have "f (virt + off) = None"
      using less.prems(7) uv on by simp
    then have free: "tr s (virt + off) = None"
      using less.prems(6) uv by (simp add: filled_def)
    have lim: "cpu_phys_bits s \<le> 52" "unat (phys + off) < 2 ^ unat (cpu_phys_bits s)"
      using a on up by (simp_all add: same)
    from map_block [OF less.prems(1) pool fl(1) lim conjunct1 [OF kmod] conjunct2 [OF kmod]
        can free] obtain t where
      t: "pager_map (virt + off) (phys + off) fl s = Some (firmware_pml4 s, t)" "pager_ok t"
        "pool t (r + 3 * m)" "pager_same s t \<and> kept s t"
        "tr t = filled (virt + off) (phys + off) (2 ^ k) (attr fl) (tr s)"
      by blast
    let ?off = "off + 2 ^ k"
    have "unat (2 ^ k :: u64) = 2 ^ k"
      by (simp add: k_def)
    then have uo: "unat ?off = unat off + 2 ^ k"
      using step n52 by (subst unat_plus_less) simp_all
    have nxt: "pager_map_range_from off virt phys nbytes flags s =
        pager_map_range_from ?off virt phys nbytes flags t"
      using True t(1)
      by (subst pager_map_range_from.simps)
         (auto simp: Let_def k_def fl_def PAGE_SIZE_def hg_def split: if_splits)
    have "filled (virt + of_nat (unat off)) (phys + of_nat (unat off)) (2 ^ k) (attr flags)
        (filled virt phys (unat off) (attr flags) f) =
        filled virt phys (unat off + 2 ^ k) (attr flags) f"
      using a step uv by (intro filled_append) simp_all
    then have tr_t: "tr t = filled virt phys (unat ?off) (attr flags) f"
      unfolding t(5) less.prems(6) fl(2) uo by simp
    have "unat ?off mod 4096 = 0"
      using less.prems(3) k4(2) unfolding uo by (simp add: mod_add_eq [symmetric] mod_0)
    have "pager_same s0 t \<and> kept s0 t"
      using less.prems(2) t(4) pager_same_trans kept_trans by blast
    from less.hyps [OF _ t(2) this \<open>unat ?off mod 4096 = 0\<close> _ _ tr_t less.prems(7)]
    show ?thesis
      unfolding nxt using step t(3) on k4(1) by (simp add: uo m_def)
  qed
qed

lemma pager_map_range_spec:
  assumes "pager_ok s"
    and "pool s (r + 3 * range_steps (unat virt) (unat phys) (unat nbytes))"
    and "range_args virt phys (pages_of nbytes * 4096) flags s"
    and "range_free virt (pages_of nbytes * 4096) s"
  shows "\<exists>t. pager_map_range virt phys nbytes flags s = Some ((), t) \<and> pager_ok t \<and> pool t r
      \<and> pager_same s t \<and> kept s t \<and> tr t = filled virt phys (pages_of nbytes * 4096) (attr flags) (tr s)"
  using map_range_loop [OF assms(3) refl assms(1), of 0 r "tr s"] assms(2,4)
  by (simp add: pager_map_range_def range_free_def)

end
