(* ===== verification/Pager_Init.thy ===== *)
theory Pager_Init
  imports Pager_Range
begin

text \<open>
  What start-up leaves behind: the direct map of everything up to the end of the memory map, the
  identity maps of the firmware, and nothing else.
\<close>

unbundle bit_operations_syntax

section \<open>Diagnostics change nothing here\<close>

lemma diag_pager [simp]:
  "firmware_pml4 (diag m a s) = firmware_pml4 s" "mapped_pml4 (diag m a s) = mapped_pml4 s"
  "pager_ready (diag m a s) = pager_ready s" "cpu_phys_bits (diag m a s) = cpu_phys_bits s"
  "cpu_virt_bits (diag m a s) = cpu_virt_bits s" "pager.more (diag m a s) = pager.more s"
  by (simp_all add: diag_def)

lemma heap_diag [simp]: "heap_sensitive (diag m a s) = heap_sensitive s"
  by (simp add: diag_def)

lemma pool_diag [simp]: "pool (diag m a s) n = pool s n"
  by (rule pool_cong) simp_all

lemma used_diag [simp]: "used (diag m a s) = used s"
  by (rule pool_cong) simp_all

lemma tr_diag [simp]: "tr (diag m a s) = tr s"
  by (simp add: fun_eq_iff tr_def root_def)

lemma pager_ok_diag [simp]: "pager_ok (diag m a s) = pager_ok s"
  by (simp add: pager_ok_def root_def phys_ok_def)

lemma pager_same_diag [simp]: "pager_same s (diag m a t) = pager_same s t"
  "pager_same (diag m a s) t = pager_same s t"
  by (simp_all add: pager_same_def)

lemma range_diag [simp]: "range_args v p n f (diag m a s) = range_args v p n f s"
  "range_free v n (diag m a s) = range_free v n s"
  by (simp_all add: range_args_def range_free_def)

section \<open>Canonical addresses\<close>

lemma canonical_low: "unat v < 2 ^ 47 \<Longrightarrow> canonical v"
  using bit_small_word [of v 47] by (simp add: canonical_def)

lemma canonical_high:
  assumes "0xFFFF800000000000 \<le> unat v"
  shows "canonical v"
proof -
  have "unat (NOT v) < 2 ^ 47"
  proof -
    have "unat (NOT v) = 2 ^ 64 - 1 - unat v"
    proof -
      have "NOT v = - 1 - v"
        by (simp add: not_eq_complement)
      moreover have "unat (- 1 - v) = unat (- 1 :: u64) - unat v"
        by (rule unat_sub) simp
      moreover have "unat (- 1 :: u64) = 2 ^ 64 - 1"
        by (simp add: unsigned_minus_1_eq_mask mask_eq_exp_minus_1)
      ultimately show ?thesis
        by simp
    qed
    then show ?thesis
      using assms by simp
  qed
  then have "\<not> bit (NOT v) n" if "47 \<le> n" for n
    using bit_small_word that by blast
  then have "bit v n" if "47 \<le> n" "n < 64" for n
    using that by (simp add: bit_not_iff)
  then show ?thesis
    by (simp add: canonical_def)
qed

section \<open>The direct map\<close>

text \<open>
  A memory map in ascending order, page-aligned; and the address up to which the direct map
  reaches after it.
\<close>

fun gapless :: "nat \<Rightarrow> e820_entry list \<Rightarrow> bool" where
  "gapless a [] \<longleftrightarrow> True"
| "gapless a (e # es) \<longleftrightarrow>
     (if e_len e = 0 then gapless a es
      else a \<le> unat (e_base e) \<and> unat (e_base e) mod 4096 = 0 \<and> unat (e_len e) mod 4096 = 0
        \<and> gapless (unat (e_base e) + unat (e_len e)) es)"

fun mapped_upto :: "nat \<Rightarrow> e820_entry list \<Rightarrow> nat" where
  "mapped_upto a [] = a"
| "mapped_upto a (e # es) =
     (if e_len e = 0 then mapped_upto a es
      else mapped_upto (unat (e_base e) + unat (e_len e)) es)"

lemma gapless_le: "gapless a es \<Longrightarrow> a \<le> mapped_upto a es"
  by (induction es arbitrary: a) (force split: if_splits)+

lemma mapped_upto_page: "gapless a es \<Longrightarrow> a mod 4096 = 0 \<Longrightarrow> mapped_upto a es mod 4096 = 0"
  by (induction es arbitrary: a) (auto simp: mod_add_eq [symmetric] mod_0 split: if_splits)

lemma page_dist:
  assumes "a mod 4096 = (0::nat)"
  obtains q j where "q < 512" and "a + 4096 * q = 0x200000 * j"
proof -
  obtain b where b: "a = 4096 * b"
    using assms by (metis mod_eq_0_iff_dvd dvdE)
  have "b \<le> 512 * ((b + 511) div 512)" and "512 * ((b + 511) div 512) < b + 512"
    using mult_div_mod_eq [of 512 "b + 511"] mod_less_divisor [of 512 "b + 511"] by linarith+
  then show thesis
    using that [of "512 * ((b + 511) div 512) - b" "(b + 511) div 512"]
    by (simp add: b algebra_simps)
qed

lemma div_add_le: "x div m + y div m \<le> (x + y) div (m::nat)"
proof (cases "m = 0")
  case False
  have "(x div m + y div m) * m \<le> x + y"
    unfolding add_mult_distrib by (rule add_mono) simp_all
  then show ?thesis
    using False by (simp add: less_eq_div_iff_mult_less_eq)
qed simp

definition direct_flags :: u64 where
  "direct_flags = PAGE_PRESENT OR PAGE_RW OR PAGE_PCD"

lemma direct_flags_small: "direct_flags AND PAGE_HUGE = 0"
  by (simp add: direct_flags_def PAGE_PRESENT_def PAGE_RW_def PAGE_PCD_def PAGE_HUGE_def)

text \<open>One range of the direct map.\<close>

lemma direct_range:
  assumes ok: "pager_ok s" and pool: "pool s (r + 3 * (k div 0x200000 + 1024))"
    and bits: "cpu_phys_bits s \<le> 52" and lim: "a + k < 2 ^ unat (cpu_phys_bits s)" "a + k \<le> 2 ^ 45"
    and al: "a mod 4096 = 0" "k mod 4096 = 0"
    and tr: "tr s = filled AOS_DIRECT_MAP_BASE 0 a (attr direct_flags) f"
    and free: "\<forall>v. unat AOS_DIRECT_MAP_BASE \<le> unat v \<and> unat v < unat AOS_DIRECT_MAP_BASE + 2 ^ 45
      \<longrightarrow> f v = None"
    and words: "unat prev = a" "unat len = k"
  shows "\<exists>t. pager_map_range (AOS_DIRECT_MAP_BASE + prev) prev len direct_flags s = Some ((), t)
    \<and> pager_ok t \<and> pool t r \<and> pager_same s t
    \<and> tr t = filled AOS_DIRECT_MAP_BASE 0 (a + k) (attr direct_flags) f"
proof -
  have base: "unat AOS_DIRECT_MAP_BASE = 0xFFFF800000000000"
    by (simp add: space_defs)
  have v: "unat (AOS_DIRECT_MAP_BASE + prev) = 0xFFFF800000000000 + a"
    using lim words by (subst unat_plus_less) (simp_all add: base)
  obtain b where b: "k = 4096 * b"
    using al(2) by (metis mod_eq_0_iff_dvd dvdE)
  have pages: "pages_of len * 4096 = k"
    by (simp add: pages_of_def words b)
  obtain q j where q: "q < 512" "a + 4096 * q = 0x200000 * j"
    using page_dist [OF al(1)] .
  then have "0xFFFF800000000000 + a + 4096 * q = 0x200000 * (0x7FFFC000000 + j)"
    by simp
  from range_steps_bound [OF this q(2,1), of k]
  have "range_steps (0xFFFF800000000000 + a) a k \<le> k div 0x200000 + 1024"
    using q(1) by linarith
  then have pool': "pool s (r + 3 * range_steps (unat (AOS_DIRECT_MAP_BASE + prev)) (unat prev) (unat len))"
    unfolding v words by (intro pool_mono [OF pool]) simp
  have args: "range_args (AOS_DIRECT_MAP_BASE + prev) prev (pages_of len * 4096) direct_flags s"
    unfolding range_args_def pages v words
    using bits lim al by (auto simp: direct_flags_small mod_add_eq [symmetric] mod_0 intro: canonical_high)
  have "range_free (AOS_DIRECT_MAP_BASE + prev) (pages_of len * 4096) s"
    unfolding range_free_def pages v tr using free lim by (auto simp: filled_def base)
  from pager_map_range_spec [OF ok pool' args this] obtain t where
    t: "pager_map_range (AOS_DIRECT_MAP_BASE + prev) prev len direct_flags s = Some ((), t)"
      "pager_ok t" "pool t r" "pager_same s t"
      "tr t = filled (AOS_DIRECT_MAP_BASE + prev) prev k (attr direct_flags) (tr s)"
    unfolding pages by blast
  have "prev = of_nat a"
    by (simp flip: words)
  then have "tr t = filled AOS_DIRECT_MAP_BASE 0 (a + k) (attr direct_flags) f"
    using filled_append [of AOS_DIRECT_MAP_BASE a k 0 "attr direct_flags" f] v lim words(1)
    unfolding t(5) tr by (simp add: base)
  then show ?thesis
    using t by blast
qed

lemma direct_map_spec:
  "pager_ok s \<Longrightarrow> gapless a es \<Longrightarrow> a mod 4096 = 0 \<Longrightarrow> unat prev = a \<Longrightarrow>
   mapped_upto a es < 2 ^ unat (cpu_phys_bits s) \<Longrightarrow> mapped_upto a es \<le> 2 ^ 45 \<Longrightarrow>
   cpu_phys_bits s \<le> 52 \<Longrightarrow>
   pool s (r + 3 * ((mapped_upto a es - a) div 0x200000 + 1024 * length es)) \<Longrightarrow>
   tr s = filled AOS_DIRECT_MAP_BASE 0 a (attr direct_flags) f \<Longrightarrow>
   \<forall>v. unat AOS_DIRECT_MAP_BASE \<le> unat v \<and> unat v < unat AOS_DIRECT_MAP_BASE + 2 ^ 45
      \<longrightarrow> f v = None \<Longrightarrow>
   \<exists>t. direct_map es prev s = Some ((), t) \<and> pager_ok t \<and> pool t r \<and> pager_same s t
     \<and> tr t = filled AOS_DIRECT_MAP_BASE 0 (mapped_upto a es) (attr direct_flags) f"
proof (induction es arbitrary: a prev s)
  case Nil
  then show ?case by simp
next
  case (Cons e es)
  show ?case
  proof (cases "e_len e = 0")
    case True
    have "(mapped_upto a es - a) div 0x200000 + 1024 * length es
        \<le> (mapped_upto a (e # es) - a) div 0x200000 + 1024 * length (e # es)"
      using True by simp
    then have "pool s (r + 3 * ((mapped_upto a es - a) div 0x200000 + 1024 * length es))"
      by (intro pool_mono [OF Cons.prems(8)]) simp
    then show ?thesis
      using Cons.IH [of s a prev] Cons.prems True by simp
  next
    case False
    then have "e_len e \<noteq> 0" and pos: "\<not> e_len e < 1"
      by (simp_all add: word_less_nat_alt unat_eq_0)
    define top where "top = unat (e_base e) + unat (e_len e)"
    have e: "a \<le> unat (e_base e)" "unat (e_base e) mod 4096 = 0" "unat (e_len e) mod 4096 = 0"
        "gapless top es" and upto: "mapped_upto a (e # es) = mapped_upto top es"
      using Cons.prems(2) False by (simp_all add: top_def)
    have top: "a \<le> top" "top \<le> mapped_upto top es" "top mod 4096 = 0"
      using e gapless_le [OF e(4)] by (simp_all add: top_def mod_add_eq [symmetric] mod_0)
    have lims: "top < 2 ^ unat (cpu_phys_bits s)" "top \<le> 2 ^ 45"
      using top(2) Cons.prems(5,6) unfolding upto by linarith+
    define len where "len = (if prev < e_base e then (e_base e - prev) + e_len e else e_len e)"
    have start: "(if prev < e_base e then prev else e_base e) = prev"
      using e(1) Cons.prems(4) by (simp add: word_less_nat_alt word_unat_eq_iff)
    have len': "len = e_base e - prev + e_len e"
      using start unfolding len_def by (metis add_0 diff_self)
    have "unat (e_base e - prev) = unat (e_base e) - a"
      using e(1) Cons.prems(4) by (simp add: unat_sub word_le_nat_alt)
    then have ulen: "unat len = top - a"
      using lims(2) e(1) unfolding len' by (subst unat_plus_less) (simp_all add: top_def)
    have ulast: "unat (prev + len) = top"
      using lims(2) top(1) Cons.prems(4) ulen by (subst unat_plus_less) simp_all
    have bits: "\<not> 64 \<le> cpu_phys_bits s"
      using Cons.prems(7) by (simp add: word_le_nat_alt)
    have chk: "(prev + len) AND NOT (push_bit (unat (cpu_phys_bits s)) 1 - 1) = 0"
      by (rule phys_limit_ok) (simp add: ulast lims)
    define s1 where "s1 = diag ''[PAGER] Mapping Direct Map (0x%lx-0x%lx) to 0x%lx''
      [Num prev, Num (prev + len), Num (AOS_DIRECT_MAP_BASE + e_base e)] s"
    define r1 where "r1 = r + 3 * ((mapped_upto top es - top) div 0x200000 + 1024 * length es)"
    have "(top - a) div 0x200000 + (mapped_upto top es - top) div 0x200000
        \<le> (mapped_upto top es - a) div 0x200000"
      using div_add_le [of "top - a" "0x200000" "mapped_upto top es - top"] top by simp
    then have "r1 + 3 * ((top - a) div 0x200000 + 1024)
        \<le> r + 3 * ((mapped_upto top es - a) div 0x200000 + 1024 * length (e # es))"
      unfolding r1_def by simp
    then have pool: "pool s1 (r1 + 3 * ((top - a) div 0x200000 + 1024))"
      using pool_mono [OF Cons.prems(8) [unfolded upto]] by (simp add: s1_def)
    have k: "(top - a) mod 4096 = 0" "a + (top - a) = top"
      using top Cons.prems(3) by (simp_all add: mod_eq_0_iff_dvd dvd_diff_nat)
    have "\<exists>t. pager_map_range (AOS_DIRECT_MAP_BASE + prev) prev len direct_flags s1 = Some ((), t)
        \<and> pager_ok t \<and> pool t r1 \<and> pager_same s1 t
        \<and> tr t = filled AOS_DIRECT_MAP_BASE 0 (a + (top - a)) (attr direct_flags) f"
      using Cons.prems k(1) lims ulen
      by (intro direct_range [OF _ pool]) (simp_all add: s1_def k(2))
    then obtain t where
      t: "pager_map_range (AOS_DIRECT_MAP_BASE + prev) prev len direct_flags s1 = Some ((), t)"
        "pager_ok t" "pool t r1" "pager_same s t"
        "tr t = filled AOS_DIRECT_MAP_BASE 0 top (attr direct_flags) f"
      by (auto simp: s1_def k(2))
    have same: "cpu_phys_bits t = cpu_phys_bits s"
      using t(4) by (simp add: pager_same_def)
    have res: "direct_map (e # es) prev s = direct_map es (prev + len) t"
      using pos bits chk t(1)
      by (simp add: Let_def start len_def [symmetric] s1_def [symmetric] direct_flags_def [symmetric])
    from Cons.IH [OF t(2) e(4) top(3) ulast _ _ _ t(3) [unfolded r1_def] t(5) Cons.prems(10)]
    show ?thesis
      unfolding res upto using Cons.prems(5-7) t(4) same pager_same_trans
      unfolding upto by auto
  qed
qed

end
