(* ===== verification/Pager_Boot.thy ===== *)
theory Pager_Boot
  imports Pager_Init
begin

text \<open>
  \<open>pager_init\<close> on the state the firmware starts in and the memory map of the board: it returns,
  and the tables it loads translate exactly the direct map of the first 4 GiB and the identity
  maps of the firmware.
\<close>

unbundle bit_operations_syntax

section \<open>The state at start\<close>

text \<open>The initial values of the static variables of avmf.c and pager.c, with no lock held.\<close>

definition pager_boot :: "'a pager_scheme \<Rightarrow> bool" where
  "pager_boot s \<longleftrightarrow> avmf_bitmap s = replicate (BITMAP_SIZE div 64) 0
     \<and> avmf_base s = (\<lambda>_. 0) \<and> avmf_limit s = (\<lambda>_. 0) \<and> last_alloc_page s = 0
     \<and> virt_init s \<and> static_headers s = replicate AVMF_STATIC_SIZE zero_header
     \<and> header_index s = 0 \<and> avmf_head s = None \<and> last_found s = None
     \<and> firmware_pml4 s = 0 \<and> mapped_pml4 s = 0 \<and> pager_ready s = 0
     \<and> \<not> locks s Avmf_lock \<and> \<not> locks s Avmf_lock2"

definition basic_base :: "nat \<Rightarrow> u64" where "basic_base = (\<lambda>_. 0)(0 := 0x300000)"

definition basic_limit :: "nat \<Rightarrow> u64" where "basic_limit = (\<lambda>_. 0)(0 := 0x10000000)"

section \<open>The loops over the memory map\<close>

lemma view_words:
  "entry_view e = (a, n, t) \<Longrightarrow> e_base e = of_nat a \<and> e_len e = of_nat n \<and> e_type e = t"
  by (auto simp: entry_view_def)

lemma basic_entries:
  assumes "map entry_view es = basic_map"
  obtains e1 e2 e3 e4 e5 e6 where "es = [e1, e2, e3, e4, e5, e6]"
    and "e_base e1 = 0" "e_len e1 = 0x300000" "e_type e1 = E820_TYPE_RESERVED"
    and "e_base e2 = 0x300000" "e_len e2 = 0xFD00000" "e_type e2 = E820_TYPE_RAM"
    and "e_base e3 = 0xE0000000" "e_len e3 = 0x10000000" "e_type e3 = E820_TYPE_RESERVED"
    and "e_base e4 = 0xFEC00000" "e_len e4 = 0x1000" "e_type e4 = E820_TYPE_RESERVED"
    and "e_base e5 = 0xFEE00000" "e_len e5 = 0x1000" "e_type e5 = E820_TYPE_RESERVED"
    and "e_base e6 = 0xFF000000" "e_len e6 = 0x1000000" "e_type e6 = E820_TYPE_RESERVED"
proof -
  obtain e1 e2 e3 e4 e5 e6 where es: "es = [e1, e2, e3, e4, e5, e6]"
    and v: "entry_view e1 = (0x00000000, 0x00300000, E820_TYPE_RESERVED)"
      "entry_view e2 = (0x00300000, 0x0FD00000, E820_TYPE_RAM)"
      "entry_view e3 = (0xE0000000, 0x10000000, E820_TYPE_RESERVED)"
      "entry_view e4 = (0xFEC00000, 0x00001000, E820_TYPE_RESERVED)"
      "entry_view e5 = (0xFEE00000, 0x00001000, E820_TYPE_RESERVED)"
      "entry_view e6 = (0xFF000000, 0x01000000, E820_TYPE_RESERVED)"
    using assms unfolding basic_map_def map_eq_Cons_conv map_is_Nil_conv by blast
  show thesis
    by (rule that [OF es]) (use v [THEN view_words] in simp_all)
qed

lemma scan_basic:
  assumes "map entry_view es = basic_map"
  shows "\<exists>k. scan_ram es (0, \<lambda>_. 0, \<lambda>_. 0, 0) s =
    ((0x10000000, basic_base, basic_limit, 1), s\<lparr>klog := k\<rparr>)"
  by (rule basic_entries [OF assms])
     (simp add: Let_def E820_TYPE_RAM_def E820_TYPE_RESERVED_def basic_base_def basic_limit_def
        diag_def, rule exI, rule refl)

lemma basic_gapless:
  assumes "map entry_view es = basic_map"
  shows "gapless 0 es" and "mapped_upto 0 es = 0x100000000" and "length es = 6"
  by (rule basic_entries [OF assms], simp)+

section \<open>The empty top table\<close>

lemma reach_empty:
  "\<forall>k < 512. ent m r k = 0 \<Longrightarrow> path is \<Longrightarrow> reach m r is = Some t \<longleftrightarrow> is = [] \<and> t = r"
  by (cases "is") (auto simp: present_def Let_def)

lemma empty_table:
  assumes z: "\<forall>k < 512. ent m r k = 0"
  shows "tree m r" and "tables m r = {r}" and "translate m r v = None"
proof -
  show "tree m r"
    unfolding tree_def using reach_empty [OF z] z by (auto simp: present_def)
  show "tables m r = {r}"
    using reach_empty [OF z] by (auto simp: tables_def intro: exI [of _ "[]"])
  have "leaf m r (vpath v) = None"
    using z idx_less by (simp add: vpath_def present_def)
  then show "translate m r v = None"
    by (simp add: translate_def)
qed

section \<open>The pool at start\<close>

lemma avmf_init_free:
  "\<not> locks s Avmf_lock \<Longrightarrow> 200 \<le> length (avmf_bitmap s) \<Longrightarrow>
   avmf_init b l n s = Some ((), s\<lparr>
     avmf_base := (\<lambda>i. if i < unat (if n \<le> 128 then n else 128) then b i else avmf_base s i),
     avmf_limit := (\<lambda>i. if i < unat (if n \<le> 128 then n else 128) then l i else avmf_limit s i),
     avmf_head := None, avmf_bitmap := replicate 200 0 @ drop 200 (avmf_bitmap s)\<rparr>)"
  by (cases s)
     (simp add: avmf_init_def locked_free taken_def cli_def fun_upd_idem Let_def cong: if_cong)

lemma used_zero: "used_pages (replicate n 0) = {}"
  by (auto simp: used_pages_def less_mult_imp_div_less mult.commute)

lemma boot_pool:
  assumes boot: "pager_boot s"
    and t: "avmf_bitmap t = replicate (BITMAP_SIZE div 64) 0" "avmf_base t = basic_base"
      "avmf_limit t = basic_limit" "last_alloc_page t = 0" "heap_sensitive t = heap_sensitive s"
      "static_headers t = static_headers s" "header_index t = 0" "avmf_head t = None"
      "last_found t = None" "locks t = locks s"
  shows "pool t 64768" and "bump t 0 0x300 64768" and "used t = {}"
proof -
  have u: "used t = {}"
    by (simp add: used_def t used_zero)
  have r: "range_start t 0 = 0x300" "range_end t 0 = 0x10000"
    by (simp_all add: range_start_def range_end_def t basic_base_def basic_limit_def align4k_def
        PAGE_SIZE_def)
  then have "range_live t 0"
    by (simp add: range_live_def t basic_base_def basic_limit_def)
  moreover have "scan_from t 0 = 0x300"
    using r by (simp add: scan_from_def t)
  ultimately show b: "bump t 0 0x300 64768"
    using r u by (simp add: bump_def)
  have lim: "\<forall>i<128. unat (basic_limit i) \<le> 4096 * BITMAP_SIZE"
    by (auto simp: basic_limit_def BITMAP_SIZE_def)
  have ok: "phys_ok t"
    unfolding phys_ok_def using lim by (simp add: t)
  have reg: "regions_from 0 t"
    using boot by (simp add: regions_from_def t pager_boot_def)
  have h: "heap_sensitive t = 0xFFFFE00000000000"
    using boot by (simp add: t pager_boot_def virt_init_def space_defs)
  have lk: "\<not> locks t Avmf_lock" "\<not> locks t Avmf_lock2"
    using boot by (simp_all add: t pager_boot_def)
  have "\<exists>i p. 0 < p \<and> bump t i p 64768"
    using b by (intro exI [of _ 0] exI [of _ "0x300"]) simp
  then show "pool t 64768"
    unfolding pool_def using ok reg h lk by (simp add: word_less_nat_alt) blast
  show "used t = {}" by (rule u)
qed

section \<open>The result\<close>

definition boot_map :: "u64 \<Rightarrow> (u64 \<times> u64) option" where
  "boot_map v =
     (if AOS_DIRECT_MAP_BASE \<le> v \<and> v < AOS_DIRECT_MAP_BASE + 0x100000000
      then Some (v - AOS_DIRECT_MAP_BASE, 0x13)
      else if v < 0x80000 \<or> (0x100000 \<le> v \<and> v < 0x300000) \<or> (0xFF000000 \<le> v \<and> v < 0x100000000)
      then Some (v, 0x3)
      else None)"

definition ident_flags :: u64 where
  "ident_flags = PAGE_PRESENT OR PAGE_RW"

lemma flag_values:
  "attr direct_flags = 0x13" "attr ident_flags = 0x3" "ident_flags AND PAGE_HUGE = 0"
  by (simp_all add: attr_def direct_flags_def ident_flags_def PAGE_PRESENT_def PAGE_RW_def
      PAGE_PCD_def PAGE_HUGE_def mask_eq_exp_minus_1)

lemma boot_map_filled:
  "filled 0x100000 0x100000 0x200000 0x3 (filled 0 0 0x80000 0x3
     (filled 0xFF000000 0xFF000000 0x1000000 0x3
       (filled AOS_DIRECT_MAP_BASE 0 0x100000000 0x13 (\<lambda>_. None)))) = boot_map"
proof
  fix v :: u64
  show "filled 0x100000 0x100000 0x200000 0x3 (filled 0 0 0x80000 0x3
     (filled 0xFF000000 0xFF000000 0x1000000 0x3
       (filled AOS_DIRECT_MAP_BASE 0 0x100000000 0x13 (\<lambda>_. None)))) v = boot_map v"
    by (auto simp: filled_def boot_map_def word_le_nat_alt word_less_nat_alt space_defs)
qed

text \<open>The top table.\<close>

lemma alloc_pml4_spec:
  assumes pool: "pool s (Suc n)" and b: "bump s 0 0x300 (Suc n)" and zero: "firmware_pml4 s = 0"
    and nr: "pager_ready s = 0" and ok: "phys_ok s"
  shows "\<exists>t. alloc_pml4 0 s = Some ((), t) \<and> pager_ok t \<and> pool t n \<and> tr t = (\<lambda>_. None)
    \<and> firmware_pml4 t = frame 0x300 \<and> root t = frame 0x300 \<and> mapped_pml4 t = mapped_pml4 s
    \<and> pager_ready t = 0 \<and> cpu_phys_bits t = cpu_phys_bits s \<and> io t = io s"
proof -
  from alloc_page_table_spec [OF pool, of 0] obtain p t where
    t: "alloc_page_table 0 s =
          Some ((if pager_ready s \<noteq> 1 then frame p else AOS_DIRECT_MAP_BASE + frame p, frame p), t)"
      "\<exists>i. bump s i p (Suc n)" "p < BITMAP_SIZE" "used t = insert p (used s)"
      "mem t = clear_table (mem s) (frame p)" "pager_same s t" "pool t n"
    by blast
  have p: "p = 0x300"
    using t(2) bump_unique [OF b] by blast
  let ?t = "t\<lparr>firmware_pml4 := frame 0x300\<rparr>"
  have f0: "frame 0x300 \<noteq> 0"
    by (simp add: frame_def)
  have root: "root ?t = frame 0x300"
    using window_frame [OF t(3)] by (simp add: root_def p)
  have res: "alloc_pml4 0 s = Some ((), ?t)"
    using t(1) zero nr f0 by (simp add: alloc_pml4.simps p)
  have pt: "pool ?t n" "used ?t = used t"
    using t(7) pool_cong [of ?t t] by simp_all
  have z: "\<forall>k < 512. ent (mem ?t) (frame 0x300) k = 0"
    using t(3) by (simp add: t(5) p ent_clear)
  note e = empty_table [OF z]
  have "pager_ok ?t"
    using e pt t(4,6) nr unfolding pager_ok_def root by (simp add: pager_same_def pool_def p)
  then show ?thesis
    using res pt(1) root e(3) t(6) nr
    by (intro exI [of _ ?t]) (simp add: pager_same_def tr_def fun_eq_iff)
qed

text \<open>The three identity maps.\<close>

lemma identity_map:
  assumes "pager_ok s" and "pool s (r + 3 * range_steps (unat v) (unat v) (unat nbytes))"
    and "33 \<le> cpu_phys_bits s" "cpu_phys_bits s \<le> 52"
    and n: "n = pages_of nbytes * 4096" and "unat v mod 4096 = 0"
    and "unat v + n \<le> 0x100000000" and "range_free v n s"
  shows "\<exists>t. pager_map_range v v nbytes ident_flags s = Some ((), t) \<and> pager_ok t \<and> pool t r
    \<and> pager_same s t \<and> tr t = filled v v n 0x3 (tr s)"
proof -
  have "33 \<le> unat (cpu_phys_bits s)"
    using assms(3) by (simp add: word_le_nat_alt)
  then have "(2::nat) ^ 33 \<le> 2 ^ unat (cpu_phys_bits s)"
    by (intro power_increasing) simp_all
  then have "range_args v v n ident_flags s"
    using assms(4,6,7) by (auto simp: range_args_def flag_values n intro!: canonical_low)
  then show ?thesis
    using pager_map_range_spec [of s r v v nbytes ident_flags] assms
    unfolding n flag_values(2) by blast
qed

lemma bump_diag: "bump (diag m a s) i p n = bump s i p n"
proof -
  have r: "range_start (diag m a s) = range_start s" "range_end (diag m a s) = range_end s"
    by (simp_all add: fun_eq_iff range_start_def range_end_def)
  then have "range_live (diag m a s) = range_live s" "scan_from (diag m a s) = scan_from s"
    by (simp_all add: fun_eq_iff range_live_def scan_from_def cong: if_cong)
  then show ?thesis
    by (simp add: bump_def r)
qed

text \<open>The state between the first loop and the top table.\<close>

lemma boot_prepare:
  assumes boot: "pager_boot s" and es: "map entry_view es = basic_map"
    and bits: "33 \<le> pb" "pb \<le> 52"
  shows "\<exists>k s1 t. scan_ram es (0, \<lambda>_. 0, \<lambda>_. 0, 0) (s\<lparr>pager_ready := 0\<rparr>)
        = ((0x10000000, basic_base, basic_limit, 1), s\<lparr>klog := k\<rparr>)
    \<and> check_phys_bits 0x10000000 (s\<lparr>klog := k, cpu_phys_bits := pb, cpu_virt_bits := vb\<rparr>) = s1
    \<and> avmf_init basic_base basic_limit (of_nat 1) s1 = Some ((), t)
    \<and> pool t 64768 \<and> bump t 0 0x300 64768 \<and> phys_ok t \<and> firmware_pml4 t = 0
    \<and> pager_ready t = 0 \<and> cpu_phys_bits t = pb \<and> io t = io s"
proof -
  have ready: "s\<lparr>pager_ready := 0\<rparr> = s"
    using boot by (cases s) (simp add: pager_boot_def)
  obtain k where k: "scan_ram es (0, \<lambda>_. 0, \<lambda>_. 0, 0) (s\<lparr>pager_ready := 0\<rparr>)
      = ((0x10000000, basic_base, basic_limit, 1), s\<lparr>klog := k\<rparr>)"
    using scan_basic [OF es] unfolding ready by blast
  let ?s0 = "s\<lparr>klog := k, cpu_phys_bits := pb, cpu_virt_bits := vb\<rparr>"
  obtain l where l: "check_phys_bits 0x10000000 ?s0 = ?s0\<lparr>klog := l\<rparr>"
  proof (cases "cpu_phys_bits ?s0 < bits_needed 0x10000000")
    case True
    then show thesis
      using that by (simp add: check_phys_bits_def Let_def diag_def)
  next
    case False
    then show thesis
      using that [of k] by (simp add: check_phys_bits_def Let_def)
  qed
  let ?s1 = "?s0\<lparr>klog := l\<rparr>"
  have z: "replicate 200 0 @ drop 200 (avmf_bitmap s) = replicate (BITMAP_SIZE div 64) 0"
    using boot by (simp add: pager_boot_def BITMAP_SIZE_def drop_replicate replicate_add [symmetric])
  have one: "(\<lambda>i. if i < unat (if (of_nat 1 :: u8) \<le> 128 then of_nat 1 else (128 :: u8))
      then basic_base i else 0) = basic_base"
    "(\<lambda>i. if i < unat (if (of_nat 1 :: u8) \<le> 128 then of_nat 1 else (128 :: u8))
      then basic_limit i else 0) = basic_limit"
    by (auto simp: basic_base_def basic_limit_def fun_eq_iff)
  let ?t = "?s1\<lparr>avmf_base := basic_base, avmf_limit := basic_limit, avmf_head := None,
    avmf_bitmap := replicate (BITMAP_SIZE div 64) 0\<rparr>"
  have "avmf_init basic_base basic_limit (of_nat 1) ?s1 = Some ((), ?t)"
    using boot z one
    by (subst avmf_init_free) (simp_all add: pager_boot_def BITMAP_SIZE_def cong: if_cong)
  moreover have "pool ?t 64768" and b: "bump ?t 0 0x300 64768"
    by (rule boot_pool [OF boot]; use boot in \<open>simp add: pager_boot_def\<close>)+
  moreover have "phys_ok ?t"
    using \<open>pool ?t 64768\<close> by (simp add: pool_def)
  ultimately show ?thesis
    using k l boot
    by (intro exI [of _ k] exI [of _ ?s1] exI [of _ ?t]) (simp add: pager_boot_def)
qed

lemma pager_init_result:
  assumes boot: "pager_boot s" and tbl: "init_basic_e820 g_e820 = Some tbl"
    and cpu: "dev_cpuid dev 0x80000008 = (eax, ebx, ecx, edx)"
      "33 \<le> unat (eax AND 0xFF)" "unat (eax AND 0xFF) \<le> 52"
  shows "\<exists>t. pager_init dev tbl s = Some ((), t) \<and> pager_ok t \<and> tr t = boot_map
    \<and> pager_ready t = 1 \<and> firmware_pml4 t = frame 0x300 \<and> mapped_pml4 t = firmware_pml4 t
    \<and> io t = LoadCr3 (root t) # io s \<and> pool t 36000"
proof -
  let ?pb = "ucast (eax AND 0xFF) :: u64"
  have upb: "unat ?pb = unat (eax AND 0xFF)"
    using cpu(3) by (simp add: unsigned_ucast_eq take_bit_nat_eq_self)
  have pb: "33 \<le> ?pb" "?pb \<le> 52"
    using cpu(2,3) by (simp_all only: word_le_nat_alt upb) simp_all
  obtain es where es: "es = e820_list tbl" "map entry_view es = basic_map"
    and len: "\<not> length (e820_entries tbl) < unat (entry_count tbl)"
    using init_basic_result tbl by (auto simp: e820_ok_def)
  from boot_prepare [OF boot es(2) pb, of "ucast (drop_bit 8 eax AND 0xFF)"] obtain k s1 s2 where
    s2: "scan_ram es (0, \<lambda>_. 0, \<lambda>_. 0, 0) (s\<lparr>pager_ready := 0\<rparr>)
        = ((0x10000000, basic_base, basic_limit, 1), s\<lparr>klog := k\<rparr>)"
      "check_phys_bits 0x10000000 (s\<lparr>klog := k, cpu_phys_bits := ?pb,
         cpu_virt_bits := ucast (drop_bit 8 eax AND 0xFF)\<rparr>) = s1"
      "avmf_init basic_base basic_limit (of_nat 1) s1 = Some ((), s2)"
      "pool s2 64768" "bump s2 0 0x300 64768" "phys_ok s2" "firmware_pml4 s2 = 0"
      "pager_ready s2 = 0" "cpu_phys_bits s2 = ?pb" "io s2 = io s"
    by blast
  define d2 where "d2 = diag ''[PAGER] Initialized AVMF'' [] s2"
  have "pool d2 (Suc 64767)" and "bump d2 0 0x300 (Suc 64767)"
    using s2(4,5) by (simp_all add: d2_def bump_diag)
  then obtain s3 where s3: "alloc_pml4 0 d2 = Some ((), s3)" "pager_ok s3" "pool s3 64767"
      "tr s3 = (\<lambda>_. None)" "firmware_pml4 s3 = frame 0x300" "root s3 = frame 0x300"
      "pager_ready s3 = 0" "cpu_phys_bits s3 = ?pb" "io s3 = io s"
    using alloc_pml4_spec [of d2 64767] s2(6-10) unfolding phys_ok_def
    by (auto simp: d2_def)
  define d3 where "d3 = diag ''[PAGER] Allocated Virtual Memory for Page Tables'' [] s3"
  have pb64: "(2::nat) ^ 33 \<le> 2 ^ unat ?pb"
    using cpu(2) upb by (intro power_increasing) simp_all
  note g = basic_gapless [OF es(2)]
  have "\<exists>t. direct_map es 0 d3 = Some ((), t) \<and> pager_ok t \<and> pool t 40000 \<and> pager_same d3 t
      \<and> tr t = filled AOS_DIRECT_MAP_BASE 0 (mapped_upto 0 es) (attr direct_flags) (\<lambda>_. None)"
    using s3 g pb pb64 pool_mono [OF s3(3)]
    by (intro direct_map_spec) (simp_all add: d3_def)
  then obtain s4 where s4: "direct_map es 0 d3 = Some ((), s4)" "pager_ok s4" "pool s4 40000"
      "pager_same s3 s4" "tr s4 = filled AOS_DIRECT_MAP_BASE 0 0x100000000 0x13 (\<lambda>_. None)"
    by (auto simp: d3_def g flag_values)
  have bits4: "33 \<le> cpu_phys_bits s4" "cpu_phys_bits s4 \<le> 52"
    using s4(4) s3(8) pb by (simp_all add: pager_same_def)
  define d4 where "d4 = diag ''[PAGER] Mapped Direct Map'' [] s4"
  have "range_steps 0xFF000000 0xFF000000 0xFFFFFF \<le> 519"
    using range_steps_aligned [of "0xFF000000" "0xFF000000" "0xFFFFFF"] by simp
  then have pool_d4: "pool d4 (38000 + 3 * range_steps (unat (0xFF000000 :: u64)) (unat (0xFF000000 :: u64))
      (unat (0x00FFFFFF :: u64)))"
    using pool_mono [OF s4(3)] by (simp add: d4_def)
  have free_d4: "range_free 0xFF000000 0x1000000 d4"
    by (auto simp: d4_def range_free_def s4(5) filled_def space_defs)
  have pages_d4: "0x1000000 = pages_of 0x00FFFFFF * 4096"
    by (simp add: pages_of_def)
  have ok_d4: "pager_ok d4" and bits_d4: "33 \<le> cpu_phys_bits d4" "cpu_phys_bits d4 \<le> 52"
    using s4(2) bits4 by (simp_all add: d4_def)
  have al_d4: "unat (0xFF000000 :: u64) mod 4096 = 0" "unat (0xFF000000 :: u64) + 0x1000000 \<le> 0x100000000"
    by simp_all
  from identity_map [OF ok_d4 pool_d4 bits_d4 pages_d4 al_d4 free_d4] obtain s5 where
    s5: "pager_map_range 0xFF000000 0xFF000000 0x00FFFFFF ident_flags d4 = Some ((), s5)"
      "pager_ok s5" "pool s5 38000" "pager_same s4 s5"
      "tr s5 = filled 0xFF000000 0xFF000000 0x1000000 0x3 (tr s4)"
    by (auto simp: d4_def)
  define d5 where "d5 = diag ''[PAGER] Mapped Firmware (0xFF000000 - 0xFFFFFFFF)'' [] s5"
  have bits5: "33 \<le> cpu_phys_bits s5" "cpu_phys_bits s5 \<le> 52"
    using s5(4) bits4 by (simp_all add: pager_same_def)
  have "range_steps 0 0 0x80000 \<le> 128"
    using range_steps_pages [of 0 0 "0x80000"] by simp
  then have pool_d5: "pool d5 (37600 + 3 * range_steps (unat (0 :: u64)) (unat (0 :: u64))
      (unat (0x80000 :: u64)))"
    using pool_mono [OF s5(3)] by (simp add: d5_def)
  have free_d5: "range_free 0 0x80000 d5"
    by (auto simp: d5_def range_free_def s5(5) s4(5) filled_def space_defs)
  have pages_d5: "0x80000 = pages_of 0x80000 * 4096"
    by (simp add: pages_of_def)
  have ok_d5: "pager_ok d5" and bits_d5: "33 \<le> cpu_phys_bits d5" "cpu_phys_bits d5 \<le> 52"
    using s5(2) bits5 by (simp_all add: d5_def)
  have al_d5: "unat (0 :: u64) mod 4096 = 0" "unat (0 :: u64) + 0x80000 \<le> 0x100000000"
    by simp_all
  from identity_map [OF ok_d5 pool_d5 bits_d5 pages_d5 al_d5 free_d5] obtain s6 where
    s6: "pager_map_range 0 0 0x80000 ident_flags d5 = Some ((), s6)"
      "pager_ok s6" "pool s6 37600" "pager_same s5 s6" "tr s6 = filled 0 0 0x80000 0x3 (tr s5)"
    by (auto simp: d5_def)
  define d6 where "d6 = diag ''[PAGER] Mapped Firmware Stack (0x00000000 - 0x00008000)'' [] s6"
  have bits6: "33 \<le> cpu_phys_bits s6" "cpu_phys_bits s6 \<le> 52"
    using s6(4) bits5 by (simp_all add: pager_same_def)
  have "range_steps 0x100000 0x100000 0x200000 \<le> 512"
    using range_steps_pages [of "0x100000" "0x100000" "0x200000"] by simp
  then have pool_d6: "pool d6 (36000 + 3 * range_steps (unat (0x100000 :: u64)) (unat (0x100000 :: u64))
      (unat (0x200000 :: u64)))"
    using pool_mono [OF s6(3)] by (simp add: d6_def)
  have free_d6: "range_free 0x100000 0x200000 d6"
    by (auto simp: d6_def range_free_def s6(5) s5(5) s4(5) filled_def space_defs)
  have pages_d6: "0x200000 = pages_of 0x200000 * 4096"
    by (simp add: pages_of_def)
  have ok_d6: "pager_ok d6" and bits_d6: "33 \<le> cpu_phys_bits d6" "cpu_phys_bits d6 \<le> 52"
    using s6(2) bits6 by (simp_all add: d6_def)
  have al_d6: "unat (0x100000 :: u64) mod 4096 = 0" "unat (0x100000 :: u64) + 0x200000 \<le> 0x100000000"
    by simp_all
  from identity_map [OF ok_d6 pool_d6 bits_d6 pages_d6 al_d6 free_d6] obtain s7 where
    s7: "pager_map_range 0x100000 0x100000 0x200000 ident_flags d6 = Some ((), s7)"
      "pager_ok s7" "pool s7 36000" "pager_same s6 s7"
      "tr s7 = filled 0x100000 0x100000 0x200000 0x3 (tr s6)"
    by (auto simp: d6_def)
  have same: "pager_same s3 s7"
    using s4(4) s5(4) s6(4) s7(4) pager_same_trans by blast
  define d7 where "d7 = diag ''[PAGER] Mapped Firmware Data (0x00100000 - 0x001FFFFF)'' [] s7"
  define t where "t = diag ''[PAGER] Everything is Set!'' []
    ((event (LoadCr3 (frame 0x300)) d7)\<lparr>mapped_pml4 := frame 0x300, pager_ready := 1\<rparr>)"
  have d7: "firmware_pml4 d7 = frame 0x300" "pager_ready d7 = 0" "io d7 = io s"
    using same s3(5,7,9) by (simp_all add: d7_def pager_same_def)
  have f7: "firmware_pml4 s7 = frame 0x300"
    using same s3(5) by (simp add: pager_same_def)
  have load: "pager_load (frame 0x300) d7 =
      Some ((), (event (LoadCr3 (frame 0x300)) d7)\<lparr>mapped_pml4 := frame 0x300\<rparr>)"
    by (simp add: pager_load_def d7(2))
  have init: "pager_init dev tbl s = Some ((), t)"
    using len cpu(1) s2(1-3) s3(1) s4(1) s5(1) s6(1) s7(1) load
    by (simp add: pager_init_def Let_def es(1) [symmetric] d2_def [symmetric] d3_def [symmetric]
        d4_def [symmetric] d5_def [symmetric] d6_def [symmetric] ident_flags_def [symmetric]
        d7_def [symmetric] d7(1) f7 t_def)
  have frames: "mem t = mem s7" "root t = root s7" "avmf_bitmap t = avmf_bitmap s7"
    "avmf_limit t = avmf_limit s7" "firmware_pml4 t = firmware_pml4 d7"
    by (simp_all add: t_def d7_def root_def event_def)
  have pt: "pool t 36000" "used t = used s7"
    using s7(3) pool_cong [of t s7] by (simp_all add: t_def d7_def event_def diag_def)
  have "phys_ok t"
    using pt(1) by (simp add: pool_def)
  then have "pager_ok t"
    using s7(2) pt(2) unfolding pager_ok_def frames by (simp add: t_def)
  moreover have "tr t = boot_map"
  proof -
    have "tr t = tr s7"
      by (simp add: fun_eq_iff tr_def frames)
    then show ?thesis
      by (simp only: s7(5) s6(5) s5(5) s4(5) boot_map_filled)
  qed
  moreover have "root t = frame 0x300"
    using window_frame [of "0x300"] by (simp add: root_def frames d7 BITMAP_SIZE_def)
  moreover have "pager_ready t = 1" "firmware_pml4 t = frame 0x300" "mapped_pml4 t = frame 0x300"
    "io t = LoadCr3 (frame 0x300) # io s"
    using d7 by (simp_all add: t_def event_def)
  ultimately show ?thesis
    using init pt(1) by (intro exI [of _ t]) simp
qed

end
