(* ===== verification/Pager_Unmap.thy ===== *)
theory Pager_Unmap
  imports Pager_Map
begin

text \<open>
  \<open>pager_unmap\<close> removes exactly the page an address lies in from the translation, whatever its
  size, and keeps the tables well formed.
\<close>

unbundle bit_operations_syntax

definition unmapped :: "nat \<Rightarrow> u64 \<Rightarrow> (u64 \<Rightarrow> (u64 \<times> u64) option) \<Rightarrow> u64 \<Rightarrow> (u64 \<times> u64) option" where
  "unmapped k virt f v = (if canonical v \<and> drop_bit k v = drop_bit k virt then None else f v)"

text \<open>The size of the page an address lies in, 4 KiB when it is not mapped.\<close>

definition page_bits :: "'a pager_scheme \<Rightarrow> u64 \<Rightarrow> nat" where
  "page_bits s v = (case leaf (mem s) (root s) (vpath v) of Some (e, Suc 0) \<Rightarrow> 21 | _ \<Rightarrow> 12)"

lemma event_pager [simp]:
  "tr (event x s) = tr s" "pager_ok (event x s) = pager_ok s"
proof -
  have f: "root (event x s) = root s" "used (event x s) = used s" "phys_ok (event x s) = phys_ok s"
    "pager_ready (event x s) = pager_ready s"
    by (simp_all add: root_def used_def phys_ok_def event_def)
  show "tr (event x s) = tr s"
    by (intro ext) (simp add: tr_def f)
  show "pager_ok (event x s) = pager_ok s"
    by (simp add: pager_ok_def f)
qed

text \<open>An address without a mapping entry: nothing of its page is mapped.\<close>

lemma unmapped_absent:
  assumes "canonical virt" and "leaf (mem s) (root s) (vpath virt) = None"
  shows "unmapped 12 virt (tr s) = tr s" and "page_bits s virt = 12"
proof -
  have "tr s v = None" if "canonical v" "drop_bit 12 v = drop_bit 12 virt" for v
    using vpath_eq_iff [OF that(1) assms(1)] that(2) assms(2)
    by (simp add: tr_def translate_def)
  then show "unmapped 12 virt (tr s) = tr s"
    by (auto simp: unmapped_def fun_eq_iff)
  show "page_bits s virt = 12"
    by (simp add: page_bits_def assms(2))
qed

lemma not_present_clear: "\<not> present (e AND NOT PAGE_PRESENT)"
  by (simp add: present_def bit_simps PAGE_PRESENT_def)

text \<open>Clearing the entry at the end of a path.\<close>

lemma clear_entry_spec:
  assumes ok: "pager_ok s" and at: "path at" "i < 512" "length at = 2 \<or> length at = 3"
    and here: "reach (mem s) (root s) at = Some (window tbl)"
    and pre: "\<And>v. canonical v \<Longrightarrow> prefix (at @ [i]) (vpath v) \<longleftrightarrow> drop_bit k v = drop_bit k virt"
  shows "pager_ok (event x (set_entry tbl i (e AND NOT PAGE_PRESENT) s))
    \<and> tr (event x (set_entry tbl i (e AND NOT PAGE_PRESENT) s)) = unmapped k virt (tr s)"
proof -
  let ?t = "set_entry tbl i (e AND NOT PAGE_PRESENT) s"
  have "length at = 3 \<or> length at = 2 \<and> (present (e AND NOT PAGE_PRESENT) \<longrightarrow>
      huge (e AND NOT PAGE_PRESENT))"
    using at(3) not_present_clear by blast
  note w = write_entry_spec [OF ok at(1,2) here this refl]
  have root: "root ?t = root s"
    by (simp add: root_same)
  have "tr ?t = unmapped k virt (tr s)"
    using w pre not_present_clear
    by (auto simp: fun_eq_iff tr_def translate_def root unmapped_def)
  then show ?thesis
    using w by simp
qed

lemma clear_absent:
  assumes "canonical virt" and "leaf (mem s) (root s) (vpath virt) = None"
    and "\<And>v. canonical v \<Longrightarrow> drop_bit 21 v = drop_bit 21 virt \<Longrightarrow>
      leaf (mem s) (root s) (vpath v) = None"
  shows "unmapped 21 virt (tr s) = unmapped 12 virt (tr s)"
proof -
  have "tr s v = None" if "canonical v" "drop_bit 21 v = drop_bit 21 virt" for v
    using assms(3) [OF that] by (simp add: tr_def translate_def)
  then show ?thesis
    using unmapped_absent(1) [OF assms(1,2)] by (auto simp: unmapped_def fun_eq_iff)
qed

lemma pager_unmap_spec:
  assumes ok: "pager_ok s" and can: "canonical virt"
    and loaded: "mapped_pml4 s = firmware_pml4 s" "firmware_pml4 s \<noteq> 0"
  shows "pager_ok (pager_unmap virt s)
    \<and> tr (pager_unmap virt s) = unmapped (page_bits s virt) virt (tr s)"
proof -
  let ?a = "idx 39 virt" and ?b = "idx 30 virt" and ?c = "idx 21 virt" and ?d = "idx 12 virt"
  let ?pml4 = "mapped_pml4 s"
  let ?L = "\<lambda>v. leaf (mem s) (root s) (vpath v)"
  have vp: "vpath virt = [?a, ?b, ?c, ?d]"
    by (simp add: vpath_def)
  have g: "get_entry tbl i s = ent (mem s) (window tbl) i" for tbl i
    by (simp add: get_entry_def ent_def)
  have tree: "tree (mem s) (root s)"
    using ok by (simp add: pager_ok_def)
  have r0: "reach (mem s) (root s) [] = Some (window ?pml4)"
    by (simp add: root_def loaded(1))
  let ?e1 = "ent (mem s) (window ?pml4) ?a"
  let ?pdpt = "pager_phys_to_virt (?e1 AND NOT 0xFFF) s"
  let ?e2 = "ent (mem s) (window ?pdpt) ?b"
  let ?pd = "pager_phys_to_virt (?e2 AND NOT 0xFFF) s"
  let ?e3 = "ent (mem s) (window ?pd) ?c"
  let ?pt = "pager_phys_to_virt (?e3 AND NOT 0xFFF) s"
  let ?e4 = "ent (mem s) (window ?pt) ?d"
  have code: "pager_unmap virt s =
     (if \<not> present ?e1 then s else if \<not> present ?e2 then s
      else if huge ?e3 then event (Invlpg virt) (set_entry ?pd ?c (?e3 AND NOT PAGE_PRESENT) s)
      else if \<not> present ?e3 then s
      else event (Invlpg virt) (set_entry ?pt ?d (?e4 AND NOT PAGE_PRESENT) s))"
    using loaded by (simp add: pager_unmap_def Let_def g present_and huge_and)
  have absent: ?thesis if "?L virt = None" "pager_unmap virt s = s"
    using unmapped_absent [OF can that(1)] ok that(2) by simp
  have L0: "?L virt = leaf (mem s) (window ?pml4) [?a, ?b, ?c, ?d]"
    using loaded(1) by (simp add: vp root_def)
  show ?thesis
  proof (cases "present ?e1")
    case False
    then show ?thesis
      using absent code L0 by simp
  next
    case p1: True
    have nh1: "\<not> huge ?e1"
      using tree_entry(1) [OF tree _ _ idx_less r0 p1] by simp
    have r1: "reach (mem s) (root s) [?a] = Some (window ?pdpt)"
      using walk_step [OF ok _ _ idx_less r0 p1 nh1] by simp
    have L1: "?L virt = leaf (mem s) (window ?pdpt) [?b, ?c, ?d]"
      using leaf_reach [OF r1, of "[?b, ?c, ?d]"] by (simp add: vp)
    show ?thesis
    proof (cases "present ?e2")
      case False
      then show ?thesis
        using absent code L1 by simp
    next
      case p2: True
      have nh2: "\<not> huge ?e2"
        using tree_entry(1) [OF tree _ _ idx_less r1 p2] idx_less by simp
      have r2: "reach (mem s) (root s) [?a, ?b] = Some (window ?pd)"
        using walk_step [OF ok _ _ idx_less r1 p2 nh2] idx_less by simp
      have L2: "?L virt = leaf (mem s) (window ?pd) [?c, ?d]"
        using leaf_reach [OF r2, of "[?c, ?d]"] by (simp add: vp)
      have pre2: "prefix ([?a, ?b] @ [?c]) (vpath v) \<longleftrightarrow> drop_bit 21 v = drop_bit 21 virt"
        if "canonical v" for v
        using vpath_take_eq_iff [OF that can] by (auto simp: vpath_def numeral_3_eq_3)
      show ?thesis
      proof (cases "huge ?e3")
        case h: True
        have path: "path [?a, ?b]"
          by (simp add: idx_less)
        note w = clear_entry_spec [where x = "Invlpg virt" and e = ?e3, OF ok path idx_less _ r2 pre2]
        have t: "pager_unmap virt s = event (Invlpg virt) (set_entry ?pd ?c (?e3 AND NOT PAGE_PRESENT) s)"
          using code p1 p2 h by simp
        show ?thesis
        proof (cases "present ?e3")
          case True
          then have "page_bits s virt = 21"
            using L2 h by (simp add: page_bits_def Let_def)
          then show ?thesis
            using w t by simp
        next
          case False
          have "?L v = None" if v: "canonical v" "drop_bit 21 v = drop_bit 21 virt" for v
          proof -
            obtain d where "vpath v = [?a, ?b] @ [?c, d]"
              using pre2 [OF v(1)] v(2) by (auto simp: vpath_def)
            then show ?thesis
              using leaf_reach [OF r2, of "[?c, d]"] False by simp
          qed
          moreover have none: "?L virt = None"
            using L2 False by simp
          ultimately have "unmapped 21 virt (tr s) = unmapped 12 virt (tr s)"
            using clear_absent [OF can] by blast
          then show ?thesis
            using w t unmapped_absent(2) [OF can none] by simp
        qed
      next
        case nh3: False
        show ?thesis
        proof (cases "present ?e3")
          case False
          then show ?thesis
            using absent code L2 nh3 by simp
        next
          case p3: True
          have path: "path [?a, ?b, ?c]"
            by (simp add: idx_less)
          have r3: "reach (mem s) (root s) [?a, ?b, ?c] = Some (window ?pt)"
            using walk_step [OF ok _ _ idx_less r2 p3 nh3] idx_less by simp
          have pre3: "prefix ([?a, ?b, ?c] @ [?d]) (vpath v) \<longleftrightarrow> drop_bit 12 v = drop_bit 12 virt"
            if "canonical v" for v
            using vpath_eq_iff [OF that can] by (auto simp: vpath_def)
          note w = clear_entry_spec [where x = "Invlpg virt" and e = ?e4, OF ok path idx_less _ r3 pre3]
          have "?L virt = leaf (mem s) (window ?pt) [?d]"
            using leaf_reach [OF r3, of "[?d]"] by (simp add: vp)
          then have "page_bits s virt = 12"
            by (simp add: page_bits_def Let_def)
          then show ?thesis
            using w code p1 p2 p3 nh3 by simp
        qed
      qed
    qed
  qed
qed

end
