(* ===== verification/Avmf.thy ===== *)
theory Avmf
  imports Pager_Range
begin

text \<open>
  The two operations of avmf.c that tie its allocators to the pager: \<open>avmf_alloc\<close>, which takes a
  virtual range, a physical range and a region header and maps the one to the other, and
  \<open>avmf_free\<close>, which gives the physical pages back and unmaps one page.
\<close>

unbundle bit_operations_syntax

section \<open>Operations\<close>

text \<open>
  The second component of the result is what is written through \<open>phys_out\<close>, if anything. The
  \<open>int\<close> argument \<open>flags\<close> is sign-extended for the pager.
\<close>

definition avmf_alloc :: "u64 \<Rightarrow> MemoryAllocType \<Rightarrow> u32 \<Rightarrow> ('a pager_scheme, u64 \<times> u64 option) op" where
  "avmf_alloc nbytes type flags s = do {
     (virt, s) \<leftarrow> avmf_alloc_virt nbytes type s;
     if virt = 0 then Some ((0, None), s)
     else
       (let true_size = align4k nbytes in do {
          (phys, s) \<leftarrow> avmf_alloc_phys_contiguous true_size s;
          if phys = 0
          then Some ((0, None),
            diag ''[AVMF] Unable to retrieve physical address of VMemory Allocation for Size: 0x%llx bytes''
              [Num true_size] s)
          else do {
            (ok, s) \<leftarrow> avmf_alloc_region virt phys true_size flags s;
            if ok = 0
            then Some ((0, None), diag ''[AVMF] Failed to Allocate Internal Region for VMemory!'' [] s)
            else do {
              (_, s) \<leftarrow> pager_map_range virt phys true_size (scast flags) s;
              Some ((virt, Some phys), s) } } }) }"

definition avmf_free :: "u64 \<Rightarrow> ('a pager_scheme, unit) op" where
  "avmf_free virt s = do {
     (hdr, s) \<leftarrow> avmf_find virt s;
     case hdr of
       None \<Rightarrow> Some ((), s)
     | Some i \<Rightarrow> locked Avmf_lock (\<lambda>s.
         let h = static_headers s ! i;
             page_idx = phys_addr h div PAGE_SIZE;
             pages = hsize h div PAGE_SIZE
         in do {
           bm \<leftarrow> each_page bitmap_clear page_idx (unat pages) (avmf_bitmap s);
           Some ((), pager_unmap virt (s\<lparr>avmf_bitmap := bm\<rparr>)) }) s }"

section \<open>Allocation\<close>

lemma set_heap_pager [simp]:
  "firmware_pml4 (set_heap_ptr type v s) = firmware_pml4 s"
  "mapped_pml4 (set_heap_ptr type v s) = mapped_pml4 s"
  "pager_ready (set_heap_ptr type v s) = pager_ready s"
  "cpu_phys_bits (set_heap_ptr type v s) = cpu_phys_bits s"
  "cpu_virt_bits (set_heap_ptr type v s) = cpu_virt_bits s"
  "pager.more (set_heap_ptr type v s) = pager.more s"
  by (cases type; simp)+

lemma pages_of_align4k: "unat nbytes + 4095 < 2 ^ 64 \<Longrightarrow> pages_of (align4k nbytes) = pages_of nbytes"
  by (simp add: pages_of_def unat_align4k)

text \<open>The virtual part: the pointer of the region moves, and the pool loses at most what it moves.\<close>

lemma alloc_virt_pool:
  assumes pool: "pool s (m + n)" and m: "m = pages_of nbytes" and fits: "virt_fits nbytes type s"
    and type: "heap_end type = Some lim" and room: "unat (heap_ptr type s) + m * 4096 \<le> unat lim"
  shows "\<exists>t. avmf_alloc_virt nbytes type s = Some (heap_ptr type s, t)
    \<and> t = set_heap_ptr type (heap_ptr type s + align4k nbytes) s
    \<and> unat (heap_sensitive t) + n * 4096 < 2 ^ 64 \<and> 0 < heap_sensitive t"
proof -
  have sz: "unat (align4k nbytes) = m * 4096"
    using fits unfolding m by (intro unat_align4k_pages) (simp add: virt_fits_def)
  have sum: "unat (heap_ptr type s + align4k nbytes) = unat (heap_ptr type s) + m * 4096"
    using room unat_less_exp [of lim] unfolding sz [symmetric] by (intro unat_plus_less) simp
  then have "\<not> lim < heap_ptr type s + align4k nbytes"
    using room by (simp add: word_less_nat_alt)
  then have res: "avmf_alloc_virt nbytes type s =
      Some (heap_ptr type s, set_heap_ptr type (heap_ptr type s + align4k nbytes) s)"
    using pool type by (simp add: alloc_virt_cases pool_def)
  let ?t = "set_heap_ptr type (heap_ptr type s + align4k nbytes) s"
  have "unat (heap_sensitive ?t) \<le> unat (heap_sensitive s) + m * 4096
      \<and> unat (heap_sensitive s) \<le> unat (heap_sensitive ?t)"
    using sum type by (cases type) simp_all
  then have "unat (heap_sensitive ?t) + n * 4096 < 2 ^ 64" and "0 < heap_sensitive ?t"
    using pool by (auto simp: pool_def word_less_nat_alt add_mult_distrib)
  with res show ?thesis
    by blast
qed

text \<open>The physical part: pages nobody uses.\<close>

lemma alloc_phys_pool:
  assumes pool: "pool s (m + n)" and m: "m = pages_of nbytes" "0 < m"
    and fits: "unat nbytes + 4095 < 2 ^ 64"
  shows "\<exists>p bm. avmf_alloc_phys_contiguous nbytes s =
      Some (frame p, s\<lparr>avmf_bitmap := bm, last_alloc_page := of_nat (p + m)\<rparr>)
    \<and> 0 < p \<and> p + m \<le> BITMAP_SIZE \<and> {p ..< p + m} \<inter> used s = {}
    \<and> used_pages bm = used s \<union> {p ..< p + m}
    \<and> pool (s\<lparr>avmf_bitmap := bm, last_alloc_page := of_nat (p + m)\<rparr>) n"
proof -
  from pool m(2) obtain i p k where b: "0 < p" "bump s i p (m + n)" and ok: "phys_ok s"
    and reg: "regions_from k s" and free: "\<not> locks s Avmf_lock" "\<not> locks s Avmf_lock2"
    and hs: "0 < heap_sensitive s" "unat (heap_sensitive s) + (m + n) * 4096 < 2 ^ 64"
    by (auto simp: pool_def)
  from alloc_phys_bump_pages [OF free(1) ok b(2) m fits] obtain bm where
    bm: "avmf_alloc_phys_contiguous nbytes s =
        Some (of_nat p * 4096, s\<lparr>avmf_bitmap := bm, last_alloc_page := of_nat (p + m)\<rparr>)"
      "used_pages bm = used s \<union> {p ..< p + m}"
      "phys_ok (s\<lparr>avmf_bitmap := bm, last_alloc_page := of_nat (p + m)\<rparr>)"
      "0 < n \<longrightarrow> bump (s\<lparr>avmf_bitmap := bm, last_alloc_page := of_nat (p + m)\<rparr>) i (p + m) n"
      "p + m \<le> BITMAP_SIZE"
    by blast
  let ?t = "s\<lparr>avmf_bitmap := bm, last_alloc_page := of_nat (p + m)\<rparr>"
  have "regions_from k ?t"
    using reg by (simp add: regions_from_def)
  moreover have "n = 0 \<or> (\<exists>i p. 0 < p \<and> bump ?t i p n)"
    using bm(4) b(1) by (metis add_gr_0 neq0_conv)
  moreover have "unat (heap_sensitive ?t) + n * 4096 < 2 ^ 64"
    using hs(2) by (simp add: add_mult_distrib)
  ultimately have "pool ?t n"
    using bm(3) hs(1) free unfolding pool_def by auto
  moreover have "{p ..< p + m} \<subseteq> {p ..< p + (m + n)}"
    by auto
  then have "{p ..< p + m} \<inter> used s = {}"
    using b(2) unfolding bump_def by blast
  ultimately show ?thesis
    using bm(1,2,5) b(1) unfolding frame_def
    by (intro exI [of _ p] exI [of _ bm]) simp
qed

lemma pager_ok_grow:
  assumes "pager_ok s" and "mem t = mem s" and "firmware_pml4 t = firmware_pml4 s"
    and "pager_ready t = pager_ready s" and "used s \<subseteq> used t" and "phys_ok t"
  shows "pager_ok t" and "tr t = tr s"
proof -
  have r: "root t = root s"
    by (simp add: root_def assms(3))
  show "tr t = tr s"
    by (intro ext) (simp add: tr_def r assms(2))
  show "pager_ok t"
    using assms(1,4,6) image_mono [OF assms(5), of frame]
    unfolding pager_ok_def r assms(2) by (metis subset_trans)
qed

lemma pool_sensitive:
  assumes "pool s k" and "0 < heap_sensitive t" and "unat (heap_sensitive t) + n * 4096 < 2 ^ 64"
    and "t = set_heap_ptr type v s" and "n \<le> k"
  shows "pool t n" and "used t = used s"
proof -
  have f: "avmf_bitmap t = avmf_bitmap s" "avmf_base t = avmf_base s" "avmf_limit t = avmf_limit s"
    "last_alloc_page t = last_alloc_page s" "locks t = locks s"
    by (simp_all add: assms(4))
  have r: "range_start t = range_start s" "range_end t = range_end s"
    by (simp_all add: fun_eq_iff range_start_def range_end_def f)
  then have l: "range_live t = range_live s" "scan_from t = scan_from s"
    by (simp_all add: fun_eq_iff range_live_def scan_from_def f cong: if_cong)
  show u: "used t = used s"
    by (simp add: used_def f)
  have "bump t i p n = bump s i p n" for i p
    by (simp add: bump_def r l u)
  moreover have "regions_from i t = regions_from i s" for i
    by (simp add: regions_from_def assms(4))
  ultimately show "pool t n"
    using pool_mono [OF assms(1,5)] assms(2,3) by (simp add: pool_def phys_ok_def f)
qed

text \<open>
  The whole allocation. The range the region hands out is unmapped and canonical; then the
  returned address is the pointer of the region, the returned physical range was unused, and the
  range translates to it.
\<close>

lemma avmf_alloc_spec:
  assumes ok: "pager_ok s" and pool: "pool s (5 * m + r)"
    and m: "m = pages_of nbytes" "0 < m"
    and type: "heap_end type = Some lim" "unat (heap_ptr type s) + m * 4096 \<le> unat lim"
    and v: "virt = heap_ptr type s" "virt \<noteq> 0" "unat virt mod 4096 = 0"
    and fits: "virt_fits nbytes type s" and hdr: "header_index s < AVMF_STATIC_SIZE"
    and bits: "29 \<le> cpu_phys_bits s" "cpu_phys_bits s \<le> 52"
    and flags: "scast flags AND PAGE_HUGE = 0"
    and can: "\<forall>a. unat virt \<le> unat a \<and> unat a < unat virt + m * 4096 \<longrightarrow> canonical a"
    and free: "range_free virt (m * 4096) s"
  shows "\<exists>p t. avmf_alloc nbytes type flags s = Some ((virt, Some (frame p)), t)
    \<and> 0 < p \<and> p + m \<le> BITMAP_SIZE \<and> {p ..< p + m} \<inter> used s = {}
    \<and> pager_ok t \<and> pool t r \<and> pager_same s t \<and> kept s t
    \<and> (\<forall>q. p \<le> q \<and> q < p + m \<longrightarrow> q \<in> used t \<and> data_page q t)
    \<and> tr t = filled virt (frame p) (m * 4096) (attr (scast flags)) (tr s)"
proof -
  have small: "unat nbytes + 4095 < 2 ^ 64"
    using fits by (simp add: virt_fits_def)
  have sz: "unat (align4k nbytes) = m * 4096"
    unfolding m(1) using small by (rule unat_align4k_pages)
  have pages: "pages_of (align4k nbytes) = m"
    using pages_of_align4k [OF small] m(1) by simp
  have "pool s (m + (m + (3 * m + r)))"
    using pool by (simp add: algebra_simps)
  from alloc_virt_pool [OF this m(1) fits type] obtain s1 where
    s1: "avmf_alloc_virt nbytes type s = Some (virt, s1)"
      "s1 = set_heap_ptr type (virt + align4k nbytes) s"
      "unat (heap_sensitive s1) + (m + (3 * m + r)) * 4096 < 2 ^ 64" "0 < heap_sensitive s1"
    unfolding v(1) [symmetric] by blast
  have p1: "pool s1 (m + (3 * m + r))" and u1: "used s1 = used s"
    using pool_sensitive [OF pool s1(4,3,2)] by simp_all
  have "unat (align4k nbytes) + 4095 < 2 ^ 64"
    using unat_less_exp [of "align4k nbytes"] unfolding sz by simp
  from alloc_phys_pool [OF p1 pages [symmetric] m(2) this] obtain p bm where
    s2: "avmf_alloc_phys_contiguous (align4k nbytes) s1 =
        Some (frame p, s1\<lparr>avmf_bitmap := bm, last_alloc_page := of_nat (p + m)\<rparr>)"
      "0 < p" "p + m \<le> BITMAP_SIZE" "{p ..< p + m} \<inter> used s1 = {}"
      "used_pages bm = used s1 \<union> {p ..< p + m}"
      "pool (s1\<lparr>avmf_bitmap := bm, last_alloc_page := of_nat (p + m)\<rparr>) (3 * m + r)"
    by blast
  let ?s2 = "s1\<lparr>avmf_bitmap := bm, last_alloc_page := of_nat (p + m)\<rparr>"
  have pB: "p < BITMAP_SIZE"
    using s2(3) m(2) by simp
  have "unat (frame p) \<noteq> 0"
    using s2(2) unat_frame [OF pB] by simp
  then have f0: "frame p \<noteq> 0"
    by auto
  obtain k where k: "regions_from k ?s2" and l2: "\<not> locks ?s2 Avmf_lock2"
    using s2(6) by (auto simp: pool_def)
  have "header_index ?s2 < AVMF_STATIC_SIZE"
    using hdr by (simp add: s1(2))
  from alloc_region_appends [OF l2 k this] obtain hs h where
    s3: "avmf_alloc_region virt (frame p) (align4k nbytes) flags ?s2 = Some (1,
        ?s2\<lparr>static_headers := hs, header_index := header_index ?s2 + 1, avmf_head := h\<rparr>)"
      "regions_from k (?s2\<lparr>static_headers := hs, header_index := header_index ?s2 + 1, avmf_head := h\<rparr>)"
    by blast
  let ?s3 = "?s2\<lparr>static_headers := hs, header_index := header_index ?s2 + 1, avmf_head := h\<rparr>"
  have "bump ?s3 i q n = bump ?s2 i q n" for i q n
    by (simp add: bump_def scan_from_def range_start_def range_end_def range_live_def used_def)
  then have p3: "pool ?s3 (3 * m + r)"
    using s2(6) s3(2) by (auto simp: pool_def phys_ok_def)
  have u3: "used ?s3 = used s \<union> {p ..< p + m}"
    using s2(5) by (simp add: used_def u1 [unfolded used_def])
  have same3: "pager_same s ?s3"
    by (simp add: pager_same_def s1(2))
  have "mem ?s3 = mem s" "firmware_pml4 ?s3 = firmware_pml4 s" "pager_ready ?s3 = pager_ready s"
    by (simp_all add: s1(2))
  moreover have "phys_ok ?s3"
    using p3 by (simp add: pool_def)
  ultimately have ok3: "pager_ok ?s3" and tr3: "tr ?s3 = tr s"
    using pager_ok_grow [OF ok] u3 by blast+
  have "range_steps (unat virt) (unat (frame p)) (unat (align4k nbytes)) \<le> m"
    using range_steps_pages [of "unat virt" "unat (frame p)" "m * 4096"] sz by simp
  then have p4: "pool ?s3 (r + 3 * range_steps (unat virt) (unat (frame p)) (unat (align4k nbytes)))"
    by (intro pool_mono [OF p3]) simp
  have "29 \<le> unat (cpu_phys_bits s)"
    using bits(1) by (simp add: word_le_nat_alt)
  then have "(2::nat) ^ 29 \<le> 2 ^ unat (cpu_phys_bits s)"
    by (intro power_increasing) simp_all
  moreover have "unat (frame p) + m * 4096 \<le> 2 ^ 29"
    using s2(3) unat_frame [OF pB] by (simp add: BITMAP_SIZE_def)
  ultimately have lim: "unat (frame p) + m * 4096 \<le> 2 ^ unat (cpu_phys_bits s)"
    by linarith
  have "cpu_phys_bits ?s3 = cpu_phys_bits s"
    using same3 by (simp add: pager_same_def)
  moreover have "unat virt + m * 4096 \<le> 2 ^ 64"
    using type(2) unat_less_exp [of lim] by (simp add: v(1))
  ultimately have args: "range_args virt (frame p) (pages_of (align4k nbytes) * 4096) (scast flags) ?s3"
    using bits(2) flags v(3) can lim unat_frame [OF pB]
    unfolding range_args_def pages by simp
  have fr: "range_free virt (pages_of (align4k nbytes) * 4096) ?s3"
    using free unfolding range_free_def pages tr3 .
  from pager_map_range_spec [OF ok3 p4 args fr] obtain t where
    t: "pager_map_range virt (frame p) (align4k nbytes) (scast flags) ?s3 = Some ((), t)"
      "pager_ok t" "pool t r" "pager_same ?s3 t" "kept ?s3 t"
      "tr t = filled virt (frame p) (m * 4096) (attr (scast flags)) (tr s)"
    unfolding pages tr3 by blast
  have "avmf_alloc nbytes type flags s = Some ((virt, Some (frame p)), t)"
    using s1(1) v(2) s2(1) f0 s3(1) t(1) by (simp add: avmf_alloc_def Let_def)
  moreover have root3: "root ?s3 = root s" "mem ?s3 = mem s"
    by (simp_all add: root_def s1(2))
  then have "kept s ?s3"
    using u3 by (intro keptI) simp_all
  moreover have "q \<in> used t \<and> data_page q t" if q: "p \<le> q" "q < p + m" for q
  proof -
    have "q \<in> used ?s3"
      unfolding u3 using q by simp
    moreover have "q < BITMAP_SIZE" "q \<notin> used s"
      using q s2(3,4) by (auto simp: u1)
    ultimately have new: "q \<in> used ?s3" "q < BITMAP_SIZE" "q \<notin> used s"
      by blast+
    have "tables (mem s) (root s) \<subseteq> frame ` used s" "\<forall>w \<in> used s. w < BITMAP_SIZE"
      using ok used_bound [of s] by (auto simp: pager_ok_def)
    then have "frame q \<notin> tables (mem ?s3) (root ?s3)"
      unfolding root3 using new(2,3) frame_inject by blast
    then show ?thesis
      using keptD(1,2) [OF t(5) new(1,2)] new(2) by (simp add: data_page_def)
  qed
  ultimately show ?thesis
    using s2(2,3,4) u1 t(2,3,6) pager_same_trans [OF same3 t(4)] kept_trans [OF _ t(5)] by blast
qed

end
