(* ===== verification/Memory_Manager.thy ===== *)
theory Memory_Manager
  imports Pager_Boot Pager_Unmap Avmf
begin

text \<open>
  The memory manager as a whole (avmf.c and pager.c together): what each of its entry points does
  to the pages in use, to the list of regions and to the translation of virtual addresses, on the
  state the firmware starts in and on a small state with an empty top table.
\<close>

unbundle bit_operations_syntax

section \<open>Two states\<close>

text \<open>The static variables of avmf.c and pager.c as the linker initialises them.\<close>

definition boot_state :: pager where
  "boot_state = \<lparr>mem = (\<lambda>_. 0), io = [], klog = [], locks = (\<lambda>_. False), rflags = 0x202,
     avmf_bitmap = replicate (BITMAP_SIZE div 64) 0, avmf_base = (\<lambda>_. 0), avmf_limit = (\<lambda>_. 0),
     last_alloc_page = 0, heap_kernel = AOS_KERNEL_SPACE_BASE, heap_driver = AOS_DRIVER_SPACE_BASE,
     heap_user = AOS_USER_SPACE_BASE, heap_sensitive = AOS_SENSITIVE_SPACE_BASE,
     static_headers = replicate AVMF_STATIC_SIZE zero_header, header_index = 0, avmf_head = None,
     last_found = None, firmware_pml4 = 0, mapped_pml4 = 0, pager_ready = 0, cpu_phys_bits = 0,
     cpu_virt_bits = 0\<rparr>"

text \<open>A device that reads as zero, on a processor with \<open>n\<close> physical address bits.\<close>

definition quiet_device :: "u32 \<Rightarrow> device" where
  "quiet_device n = \<lparr>dev_in8 = (\<lambda>_ _. 0), dev_in16 = (\<lambda>_ _. 0), dev_in32 = (\<lambda>_ _. 0),
     dev_mmio = (\<lambda>_ _. 0), dev_tsc = (\<lambda>_. 0),
     dev_cpuid = (\<lambda>leaf. if leaf = 0x80000008 then (n, 0, 0, 0) else (0, 0, 0, 0))\<rparr>"

text \<open>After start-up with one page in use, which holds an empty top table.\<close>

definition fresh_pager :: pager where
  "fresh_pager = boot_state\<lparr>avmf_bitmap := (replicate (BITMAP_SIZE div 64) 0)[12 := 1],
     avmf_base := basic_base, avmf_limit := basic_limit, last_alloc_page := 0x301,
     firmware_pml4 := frame 0x300, mapped_pml4 := frame 0x300, pager_ready := 1, cpu_phys_bits := 39\<rparr>"

lemma boot_state_boot: "pager_boot boot_state"
  by (simp add: pager_boot_def boot_state_def virt_init_def)

lemma fresh_used: "used fresh_pager = {0x300}"
proof -
  have "n \<in> used fresh_pager \<longleftrightarrow> n = 0x300" for n
  proof -
    have bm: "n \<in> used fresh_pager \<longleftrightarrow> n < 131072
        \<and> bit (if n div 64 = 12 then 1 else 0 :: u64) (n mod 64)"
      by (auto simp: used_def used_pages_def fresh_pager_def BITMAP_SIZE_def nth_list_update
          less_mult_imp_div_less mult.commute)
    show ?thesis
      unfolding bm using div_mult_mod_eq [of n 64] by (auto simp: bit_1_iff split: if_splits)
  qed
  then show ?thesis
    by blast
qed

lemma fresh_frame: "window (frame 0x300) = frame 0x300"
  by (rule window_frame) (simp add: BITMAP_SIZE_def)

lemma ld_bytes_zero: "le_word (ld_bytes (\<lambda>_. 0) a n) = 0"
  by (induction n arbitrary: a) auto

lemma fresh_empty: "k < 512 \<Longrightarrow> ent (mem fresh_pager) (frame 0x300) k = 0"
  by (simp add: ent_def fresh_pager_def boot_state_def ld64_def ld_bytes_zero)

lemma fresh_ok: "pager_ok fresh_pager"
proof -
  have r: "root fresh_pager = frame 0x300"
    by (simp add: root_def fresh_pager_def fresh_frame)
  have lim: "\<forall>i<128. unat (basic_limit i) \<le> 4096 * BITMAP_SIZE"
    by (auto simp: basic_limit_def BITMAP_SIZE_def)
  then have "phys_ok fresh_pager"
    by (simp add: phys_ok_def fresh_pager_def)
  moreover have "pager_ready fresh_pager = 1"
    by (simp add: fresh_pager_def)
  ultimately show ?thesis
    using empty_table [of "mem fresh_pager" "frame 0x300"] fresh_empty
    by (simp add: pager_ok_def r fresh_used)
qed

lemma fresh_tr: "tr fresh_pager = (\<lambda>_. None)"
proof -
  have r: "root fresh_pager = frame 0x300"
    by (simp add: root_def fresh_pager_def fresh_frame)
  show ?thesis
    using empty_table(3) [of "mem fresh_pager" "frame 0x300"] fresh_empty
    by (simp add: fun_eq_iff tr_def r)
qed

lemma fresh_fields [simp]:
  "cpu_phys_bits fresh_pager = 39" "firmware_pml4 fresh_pager = frame 0x300"
  "mapped_pml4 fresh_pager = frame 0x300" "header_index fresh_pager = 0"
  "locks fresh_pager = (\<lambda>_. False)" "pager_ready fresh_pager = 1"
  "heap_kernel fresh_pager = 0xFFFFA00000000000"
  by (simp_all add: fresh_pager_def boot_state_def space_defs)

lemma fresh_pool: "pool fresh_pager 60000"
proof -
  have r: "range_start fresh_pager 0 = 0x300" "range_end fresh_pager 0 = 0x10000"
    by (simp_all add: range_start_def range_end_def fresh_pager_def basic_base_def
        basic_limit_def align4k_def PAGE_SIZE_def)
  then have "range_live fresh_pager 0"
    by (simp add: range_live_def fresh_pager_def basic_base_def basic_limit_def)
  moreover have "scan_from fresh_pager 0 = 0x301"
    using r by (simp add: scan_from_def) (simp add: fresh_pager_def)
  ultimately have "bump fresh_pager 0 0x301 60000"
    using r by (simp add: bump_def fresh_used)
  then have "\<exists>i p. 0 < p \<and> bump fresh_pager i p 60000"
    by (intro exI [of _ 0] exI [of _ "0x301"]) simp
  moreover have "regions_from 0 fresh_pager"
    by (simp add: regions_from_def fresh_pager_def boot_state_def)
  moreover have "heap_sensitive fresh_pager = 0xFFFFE00000000000"
    by (simp add: fresh_pager_def boot_state_def space_defs)
  ultimately show ?thesis
    using fresh_ok by (auto simp: pool_def pager_ok_def word_less_nat_alt)
qed

section \<open>A state with one region\<close>

lemma kernel_canonical: "0xFFFF800000000000 \<le> v \<Longrightarrow> canonical v"
  by (rule canonical_high) (simp add: word_le_nat_alt)

text \<open>An allocation from this state.\<close>

lemma fresh_alloc:
  assumes m: "m = pages_of n" "0 < m" "m \<le> 1000" and n: "unat n \<le> 0x400000" and flags: "scast flags AND PAGE_HUGE = 0"
  shows "\<exists>p t. avmf_alloc n MALLOC_TYPE_KERNEL flags fresh_pager = Some ((0xFFFFA00000000000, Some (frame p)), t)
    \<and> 0 < p \<and> p + m \<le> BITMAP_SIZE \<and> pager_ok t \<and> pool t 1000 \<and> pager_same fresh_pager t
    \<and> tr t = filled 0xFFFFA00000000000 (frame p) (m * 4096) (attr (scast flags)) (\<lambda>_. None)"
proof -
  have pool: "pool fresh_pager (5 * m + 1000)"
    by (rule pool_mono [OF fresh_pool]) (use m in simp)
  have v: "(0xFFFFA00000000000 :: u64) = heap_ptr MALLOC_TYPE_KERNEL fresh_pager"
    by simp
  have fits: "virt_fits n MALLOC_TYPE_KERNEL fresh_pager"
    using n by (simp add: virt_fits_def)
  have free: "range_free 0xFFFFA00000000000 (m * 4096) fresh_pager"
    by (simp add: range_free_def fresh_tr)
  have "\<exists>p t. avmf_alloc n MALLOC_TYPE_KERNEL flags fresh_pager = Some ((0xFFFFA00000000000, Some (frame p)), t)
    \<and> 0 < p \<and> p + m \<le> BITMAP_SIZE \<and> {p ..< p + m} \<inter> used fresh_pager = {}
    \<and> pager_ok t \<and> pool t 1000 \<and> pager_same fresh_pager t \<and> kept fresh_pager t
    \<and> (\<forall>q. p \<le> q \<and> q < p + m \<longrightarrow> q \<in> used t \<and> data_page q t)
    \<and> tr t = filled 0xFFFFA00000000000 (frame p) (m * 4096) (attr (scast flags)) (tr fresh_pager)"
    by (rule avmf_alloc_spec [OF fresh_ok pool m(1,2) _ _ v _ _ fits _ _ _ flags _ free])
       (use m(3) in \<open>auto simp: space_defs AVMF_STATIC_SIZE_def word_le_nat_alt intro!: kernel_canonical\<close>)
  then show ?thesis
    by (auto simp: fresh_tr fun_eq_iff)
qed

text \<open>One page at the start of the kernel region, on the page after the top table.\<close>

definition one_region :: pager where
  "one_region = fresh_pager\<lparr>avmf_bitmap := (replicate (BITMAP_SIZE div 64) 0)[12 := 3],
     static_headers := (replicate AVMF_STATIC_SIZE zero_header)[0 :=
       zero_header\<lparr>virt_addr := 0xFFFFA00000000000, phys_addr := 0x301000, hsize := 0x1000\<rparr>],
     header_index := 1, avmf_head := Some 0\<rparr>"

lemma one_region_fields [simp]:
  "cpu_phys_bits one_region = 39" "firmware_pml4 one_region = frame 0x300"
  "mapped_pml4 one_region = frame 0x300" "header_index one_region = 1"
  "locks one_region = (\<lambda>_. False)" "pager_ready one_region = 1" "last_found one_region = None"
  "static_headers one_region ! 0 =
     zero_header\<lparr>virt_addr := 0xFFFFA00000000000, phys_addr := 0x301000, hsize := 0x1000\<rparr>"
  by (simp_all add: one_region_def fresh_pager_def boot_state_def AVMF_STATIC_SIZE_def)

lemma one_region_regions: "regions_from 0 one_region" "regions_apart 0 one_region"
  by (simp_all add: regions_from_def regions_apart_def one_region_def fresh_pager_def
      boot_state_def AVMF_STATIC_SIZE_def zero_header_def)

lemma one_region_used: "used one_region = {0x300, 0x301}"
proof -
  have "n \<in> used one_region \<longleftrightarrow> n = 0x300 \<or> n = 0x301" for n
  proof -
    have three: "bit (3 :: u64) j \<longleftrightarrow> j < 2" for j
    proof -
      have "(3 :: u64) = mask 2"
        by (simp add: mask_eq_exp_minus_1)
      then show ?thesis
        by (simp only: bit_mask_iff) auto
    qed
    have "n \<in> used one_region \<longleftrightarrow> n < 131072 \<and> bit (if n div 64 = 12 then 3 else 0 :: u64) (n mod 64)"
      by (simp add: used_def used_pages_def one_region_def BITMAP_SIZE_def nth_list_update
          less_mult_imp_div_less mult.commute cong: if_cong)
    also have "\<dots> \<longleftrightarrow> n < 131072 \<and> n div 64 = 12 \<and> n mod 64 < 2"
      using three [of "n mod 64"] by simp
    also have "\<dots> \<longleftrightarrow> n = 0x300 \<or> n = 0x301"
    proof (intro iffI)
      assume "n < 131072 \<and> n div 64 = 12 \<and> n mod 64 < 2"
      then show "n = 0x300 \<or> n = 0x301"
        using div_mult_mod_eq [of n 64] by linarith
    qed auto
    finally show ?thesis .
  qed
  then show ?thesis
    by blast
qed

lemma one_region_ok: "pager_ok one_region" "tables (mem one_region) (root one_region) = {frame 0x300}"
proof -
  have r: "root one_region = root fresh_pager" "mem one_region = mem fresh_pager"
    by (simp_all add: root_def one_region_def)
  have root: "root fresh_pager = frame 0x300"
    by (simp add: root_def fresh_frame)
  have lim: "\<forall>i<128. unat (basic_limit i) \<le> 4096 * BITMAP_SIZE"
    by (auto simp: basic_limit_def BITMAP_SIZE_def)
  have "used fresh_pager \<subseteq> used one_region"
    by (simp add: fresh_used one_region_used)
  moreover have "phys_ok one_region"
    using lim by (simp add: phys_ok_def one_region_def fresh_pager_def)
  ultimately show "pager_ok one_region"
    by (intro pager_ok_grow [OF fresh_ok]) (simp_all add: r)
  show "tables (mem one_region) (root one_region) = {frame 0x300}"
    unfolding r root using fresh_empty by (intro empty_table) simp
qed

section \<open>Freeing\<close>

lemma find_region:
  assumes "regions_apart k s" and "k \<le> i" "i < header_index s" "covers_virt virt (static_headers s ! i)"
  shows "find (\<lambda>i. covers_virt virt (static_headers s ! i)) [k..<header_index s] = Some i"
proof (rule find_unique)
  show "\<forall>j\<in>set [k..<header_index s]. covers_virt virt (static_headers s ! j) \<longrightarrow> j = i"
  proof (intro ballI impI)
    fix j
    assume "j \<in> set [k..<header_index s]" and c: "covers_virt virt (static_headers s ! j)"
    then have "k \<le> j" "j < header_index s"
      by simp_all
    then show "j = i"
      using assms c unfolding regions_apart_def by blast
  qed
qed (use assms in simp_all)

lemma avmf_free_spec:
  assumes ok: "pager_ok s" and reg: "regions_from k s" "regions_apart k s"
    and i: "k \<le> i" "i < header_index s" "covers_virt virt (static_headers s ! i)"
    and free: "\<not> locks s Avmf_lock" and can: "canonical virt"
    and loaded: "mapped_pml4 s = firmware_pml4 s" "firmware_pml4 s \<noteq> 0"
    and p: "p = unat (phys_addr (static_headers s ! i) div PAGE_SIZE)"
      "n = unat (hsize (static_headers s ! i) div PAGE_SIZE)" "p + n \<le> BITMAP_SIZE"
    and apart: "frame ` {p ..< p + n} \<inter> tables (mem s) (root s) = {}"
  shows "\<exists>t. avmf_free virt s = Some ((), t) \<and> pager_ok t \<and> used t = used s - {p ..< p + n}
    \<and> tr t = unmapped (page_bits s virt) virt (tr s) \<and> regions k t = regions k s"
proof -
  let ?h = "static_headers s ! i"
  have "find (\<lambda>i. covers_virt virt (static_headers s ! i)) [k..<header_index s] = Some i"
    by (rule find_region [OF reg(2) i])
  with avmf_find_search [OF reg, of virt] obtain s1 where
    s1: "avmf_find virt s = Some (Some i, s1)" "s1 = s \<or> (\<exists>r. s1 = s\<lparr>last_found := r\<rparr>)"
    by auto
  have f1: "static_headers s1 = static_headers s" "avmf_bitmap s1 = avmf_bitmap s" "locks s1 = locks s"
      "header_index s1 = header_index s" "mem s1 = mem s" "firmware_pml4 s1 = firmware_pml4 s"
      "mapped_pml4 s1 = mapped_pml4 s" "pager_ready s1 = pager_ready s" "avmf_limit s1 = avmf_limit s"
    using s1(2) by auto
  have len: "length (avmf_bitmap s) = BITMAP_SIZE div 64"
    using ok by (simp add: pager_ok_def phys_ok_def)
  then have cap: "bitmap_cap (avmf_bitmap s) = BITMAP_SIZE"
    by (simp add: bitmap_cap_def BITMAP_SIZE_def)
  have "p + n < 2 ^ 64"
    using p(3) by (simp add: BITMAP_SIZE_def)
  then obtain bm where bm: "each_page bitmap_clear (phys_addr ?h div PAGE_SIZE) n (avmf_bitmap s) = Some bm"
      "used_pages bm = used_pages (avmf_bitmap s) - {p ..< p + n}"
      "bitmap_cap bm = bitmap_cap (avmf_bitmap s)"
    using bm.each_clear [of "phys_addr ?h div PAGE_SIZE" n "avmf_bitmap s"] p cap by auto
  let ?s2 = "(taken Avmf_lock s1)\<lparr>avmf_bitmap := bm\<rparr>"
  have u2: "used ?s2 = used s - {p ..< p + n}"
    using bm(2) by (simp add: used_def)
  have m2: "mem ?s2 = mem s" "firmware_pml4 ?s2 = firmware_pml4 s" "mapped_pml4 ?s2 = mapped_pml4 s"
      "pager_ready ?s2 = pager_ready s" "avmf_limit ?s2 = avmf_limit s"
    using f1 by (simp_all add: taken_def cli_def)
  then have r2: "root ?s2 = root s"
    by (simp add: root_def)
  have "64 * length bm = BITMAP_SIZE"
    using bm(3) cap by (simp add: bitmap_cap_def)
  then have "length bm = BITMAP_SIZE div 64"
    by (simp add: BITMAP_SIZE_def)
  then have ph: "phys_ok ?s2"
    using ok m2(5) by (simp add: phys_ok_def pager_ok_def)
  have "tables (mem s) (root s) \<subseteq> frame ` used ?s2"
    using ok apart unfolding pager_ok_def u2 by blast
  then have ok2: "pager_ok ?s2"
    using ok ph unfolding pager_ok_def m2 r2 by simp
  have tr2: "tr ?s2 = tr s" "page_bits ?s2 virt = page_bits s virt"
    by (simp_all add: fun_eq_iff tr_def page_bits_def m2 r2)
  let ?s3 = "pager_unmap virt ?s2"
  have s3: "pager_ok ?s3" "tr ?s3 = unmapped (page_bits s virt) virt (tr s)"
    using pager_unmap_spec [OF ok2 can] m2 loaded tr2 by simp_all
  have f3: "avmf_bitmap ?s3 = avmf_bitmap ?s2" "static_headers ?s3 = static_headers ?s2"
    "header_index ?s3 = header_index ?s2"
    by (simp_all add: pager_unmap_def Let_def set_entry_def event_def)
  let ?t = "?s3\<lparr>locks := (locks ?s3)(Avmf_lock := False), rflags := rflags s1\<rparr>"
  have res: "avmf_free virt s = Some ((), ?t)"
    using s1(1) free f1 bm(1) p(2) by (simp add: avmf_free_def locked_free Let_def)
  have "root ?t = root ?s3"
    by (simp add: root_def)
  then have "pager_ok ?t" "tr ?t = tr ?s3" "used ?t = used ?s3"
    using s3(1) by (simp_all add: pager_ok_def phys_ok_def used_def tr_def fun_eq_iff)
  moreover have "used ?s3 = used s - {p ..< p + n}"
    unfolding u2 [symmetric] by (simp add: used_def f3)
  moreover have "regions k ?t = regions k s"
    by (simp add: regions_def f3 f1)
  ultimately show ?thesis
    using res s3(2) by metis
qed

section \<open>Round trip of addresses\<close>

definition phys_apart :: "nat \<Rightarrow> 'a avmf_scheme \<Rightarrow> bool" where
  "phys_apart k s \<longleftrightarrow> (\<forall>i j phys. k \<le> i \<and> i < header_index s \<and> k \<le> j \<and> j < header_index s
     \<and> covers_phys phys (static_headers s ! i) \<and> covers_phys phys (static_headers s ! j) \<longrightarrow> i = j)"

lemma find_phys:
  assumes "phys_apart k s" and "k \<le> i" "i < header_index s" "covers_phys p (static_headers s ! i)"
  shows "find (\<lambda>i. covers_phys p (static_headers s ! i)) [k..<header_index s] = Some i"
proof (rule find_unique)
  show "\<forall>j\<in>set [k..<header_index s]. covers_phys p (static_headers s ! j) \<longrightarrow> j = i"
  proof (intro ballI impI)
    fix j
    assume "j \<in> set [k..<header_index s]" and c: "covers_phys p (static_headers s ! j)"
    then have "k \<le> j" "j < header_index s"
      by simp_all
    then show "j = i"
      using assms c unfolding phys_apart_def by blast
  qed
qed (use assms in simp_all)

lemma cover_shift:
  assumes "covers_virt virt h" and "unat (phys_addr h) + unat (hsize h) < 2 ^ 64"
    and "unat (virt_addr h) + unat (hsize h) < 2 ^ 64"
  shows "covers_phys (phys_addr h + (virt - virt_addr h)) h"
proof -
  have "unat (virt - virt_addr h) = unat virt - unat (virt_addr h)"
    using assms(1) by (intro unat_sub) (simp add: covers_virt_def)
  moreover have "unat virt < unat (virt_addr h) + unat (hsize h)" "unat (virt_addr h) \<le> unat virt"
    using assms(1,3) by (simp_all add: covers_virt_def word_less_nat_alt word_le_nat_alt unat_plus_less)
  ultimately have off: "unat (virt - virt_addr h) < unat (hsize h)"
    by simp
  then have "unat (phys_addr h + (virt - virt_addr h)) = unat (phys_addr h) + unat (virt - virt_addr h)"
    using assms(2) by (intro unat_plus_less) simp
  then show ?thesis
    using off assms(2) by (simp add: covers_phys_def word_less_nat_alt word_le_nat_alt unat_plus_less)
qed

lemma virt_phys_virt:
  assumes reg: "regions_from k s" "regions_apart k s" "phys_apart k s"
    and i: "k \<le> i" "i < header_index s" "covers_virt virt (static_headers s ! i)"
    and out: "virt < AOS_DIRECT_MAP_BASE \<or> AOS_KERNEL_SPACE_BASE \<le> virt"
    and nowrap: "unat (phys_addr (static_headers s ! i)) + unat (hsize (static_headers s ! i)) < 2 ^ 64"
      "unat (virt_addr (static_headers s ! i)) + unat (hsize (static_headers s ! i)) < 2 ^ 64"
  shows "\<exists>p t. avmf_virt_to_phys virt s = Some (p, t) \<and> avmf_phys_to_virt p t = Some (virt, t)
    \<and> p = phys_addr (static_headers s ! i) + (virt - virt_addr (static_headers s ! i))"
proof -
  let ?h = "static_headers s ! i"
  let ?p = "phys_addr ?h + (virt - virt_addr ?h)"
  have "find (\<lambda>i. covers_virt virt (static_headers s ! i)) [k..<header_index s] = Some i"
    by (rule find_region [OF reg(2) i])
  with avmf_find_search [OF reg(1,2), of virt] obtain t where
    t: "avmf_find virt s = Some (Some i, t)" "regions_from k t" "t = s \<or> (\<exists>r. t = s\<lparr>last_found := r\<rparr>)"
    by auto
  have f: "static_headers t = static_headers s" "header_index t = header_index s"
    using t(3) by auto
  have "\<not> (AOS_DIRECT_MAP_BASE \<le> virt \<and> virt < AOS_KERNEL_SPACE_BASE)"
    using out by auto
  then have 1: "avmf_virt_to_phys virt s = Some (?p, t)"
    unfolding avmf_virt_to_phys_def by (simp add: if_not_P t(1) f Let_def)
  have c: "covers_phys ?p ?h"
    by (rule cover_shift [OF i(3) nowrap])
  have "find (\<lambda>i. covers_phys ?p (static_headers s ! i)) [k..<header_index s] = Some i"
    by (rule find_phys [OF reg(3) i(1,2) c])
  then have "avmf_phys_to_virt ?p t = Some (virt, t)"
    using walk_regions [OF t(2), of "covers_phys ?p"] by (simp add: avmf_phys_to_virt_def f Let_def)
  with 1 show ?thesis
    by blast
qed

section \<open>Bits\<close>

lemma bits_needed_from_spec:
  "unat n < 2 ^ j \<Longrightarrow> unat c + j < 2 ^ 64 \<Longrightarrow> 0 < j \<Longrightarrow>
   \<exists>b. 1 \<le> b \<and> b \<le> j \<and> unat (bits_needed_from n c) = unat c + b \<and> unat n < 2 ^ b
     \<and> (b = 1 \<or> 2 ^ (b - 1) \<le> unat n)"
proof (induction j arbitrary: n c)
  case 0
  then show ?case by simp
next
  case (Suc j)
  have c1: "unat (c + 1) = Suc (unat c)"
    using Suc.prems(2) by (subst unat_plus_less) simp_all
  have d: "unat (drop_bit 1 n) = unat n div 2"
    using unat_drop [of 1 n] by simp
  show ?case
  proof (cases "drop_bit 1 n = 0")
    case True
    then have "unat n div 2 = 0"
      using d by simp
    then show ?thesis
      using True c1 by (intro exI [of _ 1]) (simp add: bits_needed_from.simps [of n])
  next
    case False
    then have pos: "0 < unat n div 2"
      using d by (metis unat_gt_0)
    have "unat (drop_bit 1 n) < 2 ^ j"
      using Suc.prems(1) unfolding d by simp
    moreover have "0 < j"
      using pos Suc.prems(1) by (cases j) simp_all
    ultimately obtain b where b: "1 \<le> b" "b \<le> j"
        "unat (bits_needed_from (drop_bit 1 n) (c + 1)) = unat (c + 1) + b"
        "unat n div 2 < 2 ^ b" "b = 1 \<or> 2 ^ (b - 1) \<le> unat n div 2"
      using Suc.IH [of "drop_bit 1 n" "c + 1"] Suc.prems(2) c1 d by auto
    have "2 ^ b \<le> unat n"
    proof (cases "b = 1")
      case True
      then show ?thesis
        using pos by simp
    next
      case False
      then have "2 * 2 ^ (b - 1) \<le> unat n"
        using b(5) by simp
      then show ?thesis
        using b(1) by (cases b) simp_all
    qed
    moreover have "unat n < 2 ^ Suc b"
      using b(4) by simp
    ultimately show ?thesis
      using False b c1 by (intro exI [of _ "Suc b"]) (simp add: bits_needed_from.simps [of n])
  qed
qed

section \<open>Properties\<close>

text \<open>
  C1. On the state the firmware starts in, with the built-in memory map, \<open>pager_init\<close> returns, and
  the tables it loads translate exactly the direct map of the first 4 GiB and the identity maps of
  the low 512 KiB, of 1 to 3 MiB and of the firmware image; everything else is not mapped. The
  pager is ready, its state well-formed, and loading the top table is the only port or register
  access.
\<close>

theorem pager_init_maps:
  assumes "pager_boot s" and "init_basic_e820 g_e820 = Some tbl"
    and "dev_cpuid dev 0x80000008 = (eax, ebx, ecx, edx)"
    and "33 \<le> unat (eax AND 0xFF)" and "unat (eax AND 0xFF) \<le> 52"
  shows "\<exists>t. pager_init dev tbl s = Some ((), t) \<and> tr t = boot_map \<and> pager_ok t
    \<and> pager_ready t = 1 \<and> io t = LoadCr3 (root t) # io s"
  using pager_init_result [OF assms] by blast

lemma quiet_cpuid: "dev_cpuid (quiet_device 39) 0x80000008 = (39, 0, 0, 0)"
  by (simp add: quiet_device_def)

theorem pager_init_maps_witness:
  "\<exists>tbl t. init_basic_e820 g_e820 = Some tbl
    \<and> pager_init (quiet_device 39) tbl boot_state = Some ((), t) \<and> tr t = boot_map
    \<and> tr t 0xFFFF800000001234 = Some (0x1234, 0x13) \<and> tr t 0x90000 = None"
proof -
  obtain tbl where tbl: "init_basic_e820 g_e820 = Some tbl"
    using init_basic_result by blast
  have "33 \<le> unat ((39 :: u32) AND 0xFF)" "unat ((39 :: u32) AND 0xFF) \<le> 52"
    by simp_all
  from pager_init_maps [OF boot_state_boot tbl quiet_cpuid this] tbl show ?thesis
    by (auto simp: boot_map_def space_defs)
qed

text \<open>
  C9. After \<open>pager_init\<close> no memory between 3 MiB and the firmware image is mapped at its physical
  address: neither the boot stack at 0x08000000 nor the top table that \<open>firmware_pml4\<close> still points
  to by its physical address. The table can be read through the direct map only.
\<close>

theorem pager_init_leaves_ram_unmapped:
  assumes "pager_boot s" and "init_basic_e820 g_e820 = Some tbl"
    and "dev_cpuid dev 0x80000008 = (eax, ebx, ecx, edx)"
    and "33 \<le> unat (eax AND 0xFF)" and "unat (eax AND 0xFF) \<le> 52"
    and "0x300000 \<le> a" and "a < 0xFF000000"
  shows "\<exists>t. pager_init dev tbl s = Some ((), t) \<and> tr t a = None
    \<and> tr t (firmware_pml4 t) = None
    \<and> tr t (AOS_DIRECT_MAP_BASE + firmware_pml4 t) = Some (firmware_pml4 t, 0x13)"
proof -
  have "boot_map a = None"
    using assms(6,7) by (auto simp: boot_map_def space_defs word_le_nat_alt word_less_nat_alt)
  moreover have "boot_map (frame 0x300) = None"
    "boot_map (AOS_DIRECT_MAP_BASE + frame 0x300) = Some (frame 0x300, 0x13)"
    by (simp_all add: boot_map_def space_defs frame_def)
  ultimately show ?thesis
    using pager_init_result [OF assms(1-5)] by auto
qed

theorem pager_init_leaves_ram_unmapped_witness:
  "\<exists>tbl t. init_basic_e820 g_e820 = Some tbl
    \<and> pager_init (quiet_device 39) tbl boot_state = Some ((), t) \<and> tr t 0x08000000 = None"
proof -
  obtain tbl where tbl: "init_basic_e820 g_e820 = Some tbl"
    using init_basic_result by blast
  have "33 \<le> unat ((39 :: u32) AND 0xFF)" "unat ((39 :: u32) AND 0xFF) \<le> 52"
    by simp_all
  from pager_init_leaves_ram_unmapped [OF boot_state_boot tbl quiet_cpuid this, of "0x08000000"] tbl
  show ?thesis
    by auto
qed


lemma fresh_leaf: "leaf (mem fresh_pager) (root fresh_pager) (vpath v) = None"
proof -
  have "root fresh_pager = frame 0x300"
    by (simp add: root_def fresh_frame)
  then show ?thesis
    using fresh_empty idx_less by (simp add: vpath_def present_def)
qed


text \<open>
  \<open>pager_map\<close> refuses a physical address that does not fit the processor's address bits: it
  returns 0 and touches nothing but the log.
\<close>

theorem pager_map_limit:
  assumes "unat (cpu_phys_bits s) < 64" and "2 ^ unat (cpu_phys_bits s) \<le> unat phys"
  shows "\<exists>k. pager_map virt phys flags s = Some (0, s\<lparr>klog := k\<rparr>)"
proof -
  let ?b = "unat (cpu_phys_bits s)"
  have m: "push_bit ?b 1 - 1 = (mask ?b :: u64)"
    by (simp add: mask_eq_exp_minus_1)
  have "unat (phys AND NOT (mask ?b)) = unat phys div 2 ^ ?b * 2 ^ ?b"
    by (rule unat_and_not_mask)
  moreover have "0 < unat phys div 2 ^ ?b"
    using assms(2) by (simp add: div_greater_zero_iff)
  ultimately have "phys AND NOT (mask ?b) \<noteq> 0"
    by (metis mult_is_0 not_gr_zero power_not_zero unat_0 zero_neq_numeral)
  moreover have "\<not> 64 \<le> cpu_phys_bits s"
    using assms(1) by (simp add: word_le_nat_alt)
  ultimately have "pager_map virt phys flags s =
      Some (0, diag ''[PAGER] ERROR: Physical address %p exceeds CPU limit of %lu bits!''
        [Num phys, Num (cpu_phys_bits s)] s)"
    unfolding pager_map_def m by simp
  then show ?thesis
    unfolding diag_def by blast
qed

theorem pager_map_limit_witness:
  "\<exists>k. pager_map 0x1000 0x8000000000 3 fresh_pager = Some (0, fresh_pager\<lparr>klog := k\<rparr>)"
  by (rule pager_map_limit) simp_all




lemma frame_768: "frame 0x300 \<noteq> 0"
  by (simp add: frame_def)







text \<open>
  C6. \<open>avmf_alloc_phys_contiguous\<close> returns the first byte of a run of whole free pages inside a
  memory range, not before the point where the last search ended, and marks exactly these pages; or
  it returns 0, changes nothing and logs the failure, and then no range has such a run.
\<close>

theorem alloc_phys_takes_free_run:
  assumes "\<not> locks s Avmf_lock" and "phys_ok s"
    and "0 < nbytes" and "unat nbytes + 4095 < 2 ^ 64"
  shows "(\<exists>run i bm. i < 128 \<and> free_run s (pages_of nbytes) i (unat run)
            \<and> used_pages bm = used s \<union> {unat run ..< unat run + pages_of nbytes}
            \<and> avmf_alloc_phys_contiguous nbytes s =
                Some (push_bit 12 run, s\<lparr>avmf_bitmap := bm,
                  last_alloc_page := run + align4k nbytes div PAGE_SIZE\<rparr>))
       \<or> ((\<forall>i < 128. \<forall>q. \<not> free_run s (pages_of nbytes) i q)
            \<and> avmf_alloc_phys_contiguous nbytes s =
                Some (0, diag ''[AVMF] Out of physical memory (Range: 0x%llx bytes)''
                           [Num (align4k nbytes)] s))"
  using alloc_phys_spec [OF assms] by blast

theorem alloc_phys_takes_free_run_witness:
  "avmf_alloc_phys_contiguous 0x1000 boot_state =
     Some (0, diag ''[AVMF] Out of physical memory (Range: 0x%llx bytes)'' [Num 0x1000] boot_state)"
proof -
  have no: "\<not> free_run boot_state n i q" for n i q
    by (simp add: free_run_def range_live_def boot_state_def)
  have "align4k 0x1000 = 0x1000"
    by (rule align4k_page) simp
  moreover have "phys_ok boot_state" "\<not> locks boot_state Avmf_lock"
    by (simp_all add: phys_ok_def boot_state_def)
  ultimately show ?thesis
    using alloc_phys_takes_free_run [of boot_state "0x1000"] no by simp
qed

text \<open>
  C7. Whatever requests arrive in whatever order, as long as together they do not exhaust the
  64-bit address space: the virtual ranges that succeed are pairwise disjoint and lie in the region
  of their type, at or after the pointer the region had.
\<close>

theorem alloc_virt_ranges_disjoint:
  assumes "\<not> locks s Avmf_lock" and "virt_ok s"
    and "\<And>u. unat (heap_ptr u s) + demand reqs < 2 ^ 64"
  shows "\<exists>rs t. alloc_virts reqs s = Some (rs, t) \<and> virt_ok t \<and> (\<forall>x \<in> set rs. above s x)
     \<and> sorted_wrt (\<lambda>x y. range_of x \<inter> range_of y = {}) rs"
  using alloc_virts_apart [OF assms] .

theorem alloc_virt_ranges_disjoint_witness:
  "\<exists>rs t. alloc_virts [(1, MALLOC_TYPE_KERNEL), (0x2001, MALLOC_TYPE_USER), (5, MALLOC_TYPE_KERNEL)]
      boot_state = Some (rs, t) \<and> virt_ok t
     \<and> sorted_wrt (\<lambda>x y. range_of x \<inter> range_of y = {}) rs"
proof -
  have v: "virt_ok boot_state"
    by (rule virt_init_ok) (simp add: virt_init_def boot_state_def)
  have "unat (heap_ptr u boot_state)
      + demand [(1, MALLOC_TYPE_KERNEL), (0x2001, MALLOC_TYPE_USER), (5, MALLOC_TYPE_KERNEL)] < 2 ^ 64" for u
    by (cases u) (simp_all add: boot_state_def demand_def space_defs)
  from alloc_virt_ranges_disjoint [OF _ v this] show ?thesis
    by (auto simp: boot_state_def)
qed

text \<open>
  With disjoint regions the one-entry cache of \<open>avmf_find\<close> does not show: the header it
  returns is the one a search of the whole list from its head finds, and the list stays well-formed.
\<close>

theorem avmf_find_ignores_cache:
  assumes "regions_from k s" and "regions_apart k s"
  shows "\<exists>t. avmf_find virt s =
      Some (find (\<lambda>i. covers_virt virt (static_headers s ! i)) [k..<header_index s], t)
      \<and> regions_from k t \<and> regions k t = regions k s"
proof -
  obtain t where t: "avmf_find virt s =
      Some (find (\<lambda>i. covers_virt virt (static_headers s ! i)) [k..<header_index s], t)"
      "regions_from k t" "t = s \<or> (\<exists>r. t = s\<lparr>last_found := r\<rparr>)"
    using avmf_find_search [OF assms] by blast
  then have "regions k t = regions k s"
    by (auto simp: regions_def)
  with t show ?thesis
    by blast
qed

theorem avmf_find_ignores_cache_witness:
  "\<exists>t. avmf_find 0xFFFFA00000000FFF one_region = Some (Some 0, t) \<and> regions_from 0 t"
  using avmf_find_ignores_cache [OF one_region_regions, of "0xFFFFA00000000FFF"]
  by (auto simp: covers_virt_def zero_header_def)

text \<open>
  C10. The region list grows at its end: while a static header is left \<open>avmf_alloc_region\<close> returns
  1 and the list of regions is the old one followed by the new region; when none is left it returns
  0 and the state is as before.
\<close>

theorem alloc_region_appends_or_fails:
  assumes "\<not> locks s Avmf_lock2" and "regions_from k s"
  shows "\<exists>r t. avmf_alloc_region virt phys nbytes flags s = Some (r, t) \<and> regions_from k t
     \<and> (if header_index s < AVMF_STATIC_SIZE
        then r = 1 \<and> regions k t = regions k s @ [(virt, phys, align4k nbytes, flags)]
        else r = 0 \<and> t = s)"
proof (cases "header_index s < AVMF_STATIC_SIZE")
  case True
  then show ?thesis
    using alloc_region_appends [OF assms True, of virt phys nbytes flags] by auto
next
  case False
  show ?thesis
  proof -
    have "header_index s = AVMF_STATIC_SIZE"
      using False assms(2) by (simp add: regions_from_def)
    then show ?thesis
      using alloc_region_full [OF assms(2)] assms(2) by simp
  qed
qed

theorem alloc_region_appends_or_fails_witness:
  "\<exists>t. avmf_alloc_region 0xFFFFA00000001000 0x5000 1 3 one_region = Some (1, t)
    \<and> regions 0 t = [(0xFFFFA00000000000, 0x301000, 0x1000, 0), (0xFFFFA00000001000, 0x5000, align4k 1, 3)]"
  using alloc_region_appends_or_fails [OF _ one_region_regions(1), of "0xFFFFA00000001000" "0x5000" 1 3]
  by (auto simp: AVMF_STATIC_SIZE_def regions_def region_desc_def zero_header_def)

text \<open>
  C11. Round trip of addresses: for an address of a region outside the direct map
  \<open>avmf_virt_to_phys\<close> gives the byte at the same offset of the region's physical range, and
  \<open>avmf_phys_to_virt\<close> takes it back to the address.
\<close>

theorem virt_to_phys_round_trip:
  assumes "regions_from k s" "regions_apart k s" "phys_apart k s"
    and "k \<le> i" "i < header_index s" "covers_virt virt (static_headers s ! i)"
    and "virt < AOS_DIRECT_MAP_BASE \<or> AOS_KERNEL_SPACE_BASE \<le> virt"
    and "unat (phys_addr (static_headers s ! i)) + unat (hsize (static_headers s ! i)) < 2 ^ 64"
      "unat (virt_addr (static_headers s ! i)) + unat (hsize (static_headers s ! i)) < 2 ^ 64"
  shows "\<exists>p t. avmf_virt_to_phys virt s = Some (p, t) \<and> avmf_phys_to_virt p t = Some (virt, t)
    \<and> p = phys_addr (static_headers s ! i) + (virt - virt_addr (static_headers s ! i))"
  using virt_phys_virt [OF assms] .

theorem virt_to_phys_round_trip_witness:
  "\<exists>t. avmf_virt_to_phys 0xFFFFA00000000123 one_region = Some (0x301123, t)
    \<and> avmf_phys_to_virt 0x301123 t = Some (0xFFFFA00000000123, t)"
proof -
  have a: "phys_apart 0 one_region"
    by (simp add: phys_apart_def)
  have c: "covers_virt 0xFFFFA00000000123 (static_headers one_region ! 0)"
    by (simp add: covers_virt_def zero_header_def)
  have n: "unat (phys_addr (static_headers one_region ! 0)) + unat (hsize (static_headers one_region ! 0)) < 2 ^ 64"
    "unat (virt_addr (static_headers one_region ! 0)) + unat (hsize (static_headers one_region ! 0)) < 2 ^ 64"
    by (simp_all add: zero_header_def)
  show ?thesis
    using virt_to_phys_round_trip [OF one_region_regions a _ _ c _ n]
    by (auto simp: space_defs zero_header_def)
qed

text \<open>
  \<open>bits_needed\<close> computes the bit length: the least positive number of bits that holds its
  argument. Its loop ends for every argument.
\<close>

theorem bits_needed_bit_length:
  "1 \<le> unat (bits_needed n) \<and> unat n < 2 ^ unat (bits_needed n)
    \<and> (unat (bits_needed n) = 1 \<or> 2 ^ (unat (bits_needed n) - 1) \<le> unat n)"
  using bits_needed_from_spec [of n 64 0] unat_less_exp [of n] by (auto simp: bits_needed_def)

end
