(* ===== verification/Printf.thy ===== *)
theory Printf
  imports Machine "HOL-Library.Char_ord"
begin

text \<open>
  What the formatted output of serial.c and vmem.c shares: the conversion of an integer to digits
  and the parsing of a conversion specification, which the two files contain in the same words;
  the interface \<open>char_sink\<close> of a device that takes characters; and the text a number prints as.

  A C string is the list of its characters up to the terminating NUL.
\<close>

unbundle bit_operations_syntax

section \<open>The code\<close>

definition digit_char :: "nat \<Rightarrow> char" where
  "digit_char n = ''0123456789abcdef'' ! n"

text \<open>
  The loop that fills \<open>buf\<close>, least significant digit first. A base below 2 has no defined result.
\<close>

function int_digits :: "u64 \<Rightarrow> u64 \<Rightarrow> string option" where
  "int_digits base val =
     (if base < 2 then None
      else if 0 < val div base
      then map_option (Cons (digit_char (unat (val mod base)))) (int_digits base (val div base))
      else Some [digit_char (unat (val mod base))])"
  by pat_completeness auto
termination
proof (relation "measure (\<lambda>(base, val). unat val)")
  fix base val :: u64
  assume b: "\<not> base < 2" and v: "0 < val div base"
  have "2 \<le> unat base"
    using b by (simp add: word_less_nat_alt)
  moreover have "0 < unat val"
    using v by (cases "val = 0") (simp_all add: unat_gt_0)
  ultimately show "((base, val div base), base, val) \<in> measure (\<lambda>(base, val). unat val)"
    by (simp add: unat_div)
qed simp

declare int_digits.simps [simp del]

text \<open>
  Between \<open>%\<close> and the conversion character: zero flag, width, number of \<open>l\<close>. The third
  component counts them, the last is the rest of the format.
\<close>

fun parse_width :: "nat \<Rightarrow> string \<Rightarrow> nat \<times> string" where
  "parse_width w (c # cs) =
     (if CHR ''0'' \<le> c \<and> c \<le> CHR ''9'' then parse_width (w * 10 + (of_char c - 48)) cs else (w, c # cs))"
| "parse_width w [] = (w, [])"

fun parse_longs :: "nat \<Rightarrow> string \<Rightarrow> nat \<times> string" where
  "parse_longs n (c # cs) = (if c = CHR ''l'' then parse_longs (Suc n) cs else (n, c # cs))"
| "parse_longs n [] = (n, [])"

definition parse_spec :: "string \<Rightarrow> bool \<times> nat \<times> nat \<times> string" where
  "parse_spec fmt =
     (let (zero_pad, fmt) = (case fmt of c # cs \<Rightarrow> if c = CHR ''0'' then (True, cs) else (False, fmt)
                             | [] \<Rightarrow> (False, fmt));
          (width, fmt) = parse_width 0 fmt;
          (is_long, fmt) = parse_longs 0 fmt
      in (zero_pad, width, is_long, fmt))"

text \<open>\<open>va_arg\<close> at the types the formatter uses.\<close>

definition arg_signed :: "nat \<Rightarrow> u64 \<Rightarrow> u64" where
  "arg_signed is_long n = (if 1 \<le> is_long then n else scast (ucast n :: u32))"

definition arg_unsigned :: "nat \<Rightarrow> u64 \<Rightarrow> u64" where
  "arg_unsigned is_long n = (if 1 \<le> is_long then n else ucast (ucast n :: u32))"

lemma parse_width_length: "parse_width w fmt = (n, r) \<Longrightarrow> length r \<le> length fmt"
  by (induction w fmt rule: parse_width.induct) (auto split: if_splits)

lemma parse_longs_length: "parse_longs w fmt = (n, r) \<Longrightarrow> length r \<le> length fmt"
  by (induction w fmt rule: parse_longs.induct) (auto split: if_splits)

lemma parse_spec_length: "parse_spec fmt = (z, w, l, r) \<Longrightarrow> length r \<le> length fmt"
  by (auto simp: parse_spec_def Let_def split: list.splits prod.splits if_splits
      dest!: parse_width_length parse_longs_length)

lemma parse_spec_shorter: "(z, w, l, k # r) = parse_spec fmt \<Longrightarrow> length r < length fmt"
  using parse_spec_length [of fmt z w l "k # r"] by simp

section \<open>Digits\<close>

fun num_text :: "nat \<Rightarrow> nat \<Rightarrow> string" where
  "num_text b n = (if b < 2 \<or> n < b then [digit_char n]
     else num_text b (n div b) @ [digit_char (n mod b)])"

declare num_text.simps [simp del]

lemma int_digits_text:
  "2 \<le> base \<Longrightarrow> int_digits base val = Some (rev (num_text (unat base) (unat val)))"
proof (induction base val rule: int_digits.induct)
  case (1 base val)
  have b: "\<not> base < 2" "\<not> unat base < 2"
    using 1(2) by (simp_all add: word_less_nat_alt word_le_nat_alt)
  have "0 < val div base \<longleftrightarrow> \<not> unat val < unat base"
    using b by (simp add: word_less_nat_alt unat_div div_greater_zero_iff not_less)
  then show ?case
    using 1 b by (simp add: int_digits.simps [of base val] num_text.simps [of "unat base" "unat val"]
        unat_div unat_mod)
qed

lemma num_text_nonempty: "num_text b n \<noteq> []"
  by (subst num_text.simps) simp

text \<open>A base of at least 2 needs at most 64 digits for 64 bits: \<open>buf\<close> is large enough.\<close>

lemma num_text_length: "n < 2 ^ k \<Longrightarrow> 0 < k \<Longrightarrow> 2 \<le> b \<Longrightarrow> length (num_text b n) \<le> k"
proof (induction b n arbitrary: k rule: num_text.induct)
  case (1 b n)
  show ?case
  proof (cases "n < b")
    case True
    then show ?thesis
      using 1(3) by (simp add: num_text.simps [of b n])
  next
    case False
    have "k \<noteq> 1"
      using False 1(2,4) by auto
    then obtain j where j: "k = Suc j" "0 < j"
      using 1(3) by (cases k) auto
    have "n div b \<le> n div 2"
      using 1(4) by (rule div_le_mono2 [rotated]) simp
    also have "n div 2 < 2 ^ j"
      using 1(2) j by (simp add: less_mult_imp_div_less)
    finally have "length (num_text b (n div b)) \<le> j"
      using 1(1) [of j] False 1(4) j by simp
    then show ?thesis
      using False 1(4) j by (simp add: num_text.simps [of b n])
  qed
qed

text \<open>What is printed for an integer: padding, sign and digits.\<close>

definition integer_text :: "nat \<Rightarrow> u64 \<Rightarrow> nat \<Rightarrow> bool \<Rightarrow> bool \<Rightarrow> string" where
  "integer_text b val width zero_pad is_signed =
     (let neg = is_signed \<and> sint val < 0;
          digs = num_text b (unat (if neg then - val else val));
          sign = (if neg then ''-'' else '''');
          pad = width - (length digs + length sign)
      in if zero_pad then sign @ replicate pad CHR ''0'' @ digs
         else replicate pad CHR '' '' @ sign @ digs)"

section \<open>The two printers\<close>

text \<open>
  \<open>serial_print_ex_integer\<close> and \<open>vmem_print_ex_integer\<close> are the same text up to the function that
  prints one character; so are the loops of \<open>serial_printf\<close> and \<open>vmem_printf\<close>, up to the
  functions that print a character, a string and the prefix of a pointer.
\<close>

text \<open>
  \<open>while (n--) printc(c)\<close> and \<open>while (i > 0) printc(buf[--i])\<close>, for any character output.
\<close>

primrec put_all :: "(char \<Rightarrow> 's \<Rightarrow> (unit \<times> 's) option) \<Rightarrow> string \<Rightarrow> 's \<Rightarrow> (unit \<times> 's) option" where
  "put_all putc [] s = Some ((), s)"
| "put_all putc (c # cs) s = Option.bind (putc c s) (\<lambda>(_, s). put_all putc cs s)"

lemma put_all_append:
  "put_all p (cs @ ds) s = Option.bind (put_all p cs s) (\<lambda>(_, s). put_all p ds s)"
proof (induction cs arbitrary: s)
  case (Cons c cs)
  then show ?case
    by (cases "p c s") auto
qed simp

definition print_ex_integer ::
  "(char \<Rightarrow> 's \<Rightarrow> (unit \<times> 's) option) \<Rightarrow> u64 \<Rightarrow> u64 \<Rightarrow> nat \<Rightarrow> bool \<Rightarrow> bool \<Rightarrow> 's \<Rightarrow> (unit \<times> 's) option" where
  "print_ex_integer printc val base width zero_pad is_signed s =
     (let neg = (is_signed \<and> sint val < 0);
          val = (if neg then - val else val)
      in do {
        buf \<leftarrow> int_digits base val;
        let total_len = length buf + (if neg then 1 else 0);
        (neg, s) \<leftarrow>
          (if total_len < width then
             (let padding_count = width - total_len in
              if zero_pad then do {
                (_, s) \<leftarrow> (if neg then printc (CHR ''-'') s else Some ((), s));
                (_, s) \<leftarrow> put_all printc (replicate padding_count (CHR ''0'')) s;
                Some (False, s) }
              else do {
                (_, s) \<leftarrow> put_all printc (replicate padding_count (CHR '' '')) s;
                Some (neg, s) })
           else Some (neg, s));
        (_, s) \<leftarrow> (if neg then printc (CHR ''-'') s else Some ((), s));
        put_all printc (rev buf) s })"

text \<open>
  The body of the loop for one conversion character. \<open>None\<close>: the argument is missing or of the
  wrong kind, or the width overflows its \<open>int\<close>.
\<close>

definition convert_arg ::
  "(char \<Rightarrow> 's \<Rightarrow> (unit \<times> 's) option) \<Rightarrow> (string \<Rightarrow> 's \<Rightarrow> (unit \<times> 's) option) \<Rightarrow>
   ('s \<Rightarrow> (unit \<times> 's) option) \<Rightarrow> char \<Rightarrow> bool \<Rightarrow> nat \<Rightarrow> nat \<Rightarrow> parg list \<Rightarrow> 's \<Rightarrow>
   (parg list \<times> 's) option" where
  "convert_arg printc prints prefix k zero_pad width is_long args s =
     (if 2 ^ 31 \<le> width then None
      else if k = CHR ''c'' then
        (case args of Num n # args \<Rightarrow> map_option (\<lambda>(_, s). (args, s))
             (printc (char_of (unat (ucast n :: u8))) s)
         | _ \<Rightarrow> None)
      else if k = CHR ''s'' then
        (case args of Str t # args \<Rightarrow> map_option (\<lambda>(_, s). (args, s))
             (prints (case t of Some t \<Rightarrow> t | None \<Rightarrow> ''(NULL)'') s)
         | _ \<Rightarrow> None)
      else if k = CHR ''i'' \<or> k = CHR ''d'' then
        (case args of Num n # args \<Rightarrow> map_option (\<lambda>(_, s). (args, s))
             (print_ex_integer printc (arg_signed is_long n) 10 width zero_pad True s)
         | _ \<Rightarrow> None)
      else if k = CHR ''u'' then
        (case args of Num n # args \<Rightarrow> map_option (\<lambda>(_, s). (args, s))
             (print_ex_integer printc (arg_unsigned is_long n) 10 width zero_pad False s)
         | _ \<Rightarrow> None)
      else if k = CHR ''p'' then
        (case args of Num n # args \<Rightarrow> do {
             (_, s) \<leftarrow> prefix s;
             map_option (\<lambda>(_, s). (args, s))
               (print_ex_integer printc n 16 (if width = 0 then 16 else width) True False s) }
         | _ \<Rightarrow> None)
      else if k = CHR ''x'' then
        (case args of Num n # args \<Rightarrow> map_option (\<lambda>(_, s). (args, s))
             (print_ex_integer printc (arg_unsigned is_long n) 16 width zero_pad False s)
         | _ \<Rightarrow> None)
      else map_option (\<lambda>(_, s). (args, s)) (printc k s))"

text \<open>
  The loop. A format that ends inside a conversion specification makes the code print the NUL and
  read on behind the string: \<open>None\<close>.
\<close>

function printf_loop ::
  "(char \<Rightarrow> 's \<Rightarrow> (unit \<times> 's) option) \<Rightarrow> (string \<Rightarrow> 's \<Rightarrow> (unit \<times> 's) option) \<Rightarrow>
   ('s \<Rightarrow> (unit \<times> 's) option) \<Rightarrow> string \<Rightarrow> parg list \<Rightarrow> 's \<Rightarrow> (unit \<times> 's) option" where
  "printf_loop printc prints prefix [] args s = Some ((), s)"
| "printf_loop printc prints prefix (c # fmt) args s =
     (if c = CHR ''%'' then
        (case parse_spec fmt of (zero_pad, width, is_long, rest) \<Rightarrow>
           (case rest of
              [] \<Rightarrow> None
            | k # rest \<Rightarrow>
                Option.bind (convert_arg printc prints prefix k zero_pad width is_long args s)
                  (\<lambda>(args, s). printf_loop printc prints prefix rest args s)))
      else Option.bind (printc c s) (\<lambda>(_, s). printf_loop printc prints prefix fmt args s))"
  by pat_completeness auto
termination
  by (relation "measure (\<lambda>(p, q, r, fmt, args, s). length fmt)")
     (auto dest: parse_spec_shorter)

text \<open>The characters a number can print as.\<close>

definition number_chars :: "char set" where
  "number_chars = set ''0123456789abcdef- ''"

lemma digit_char_set: "k < 16 \<Longrightarrow> digit_char k \<in> number_chars"
  unfolding digit_char_def number_chars_def by (auto simp: less_Suc_eq numeral_eq_Suc)

lemma num_text_chars:
  "2 \<le> b \<Longrightarrow> b \<le> 16 \<Longrightarrow> set (num_text b n) \<subseteq> number_chars"
proof (induction b n rule: num_text.induct)
  case (1 b n)
  have "n mod b < b"
    using 1(2) by simp
  then have "n mod b < 16"
    using 1(3) by (rule less_le_trans)
  then show ?case
    using 1 digit_char_set [of n] digit_char_set [of "n mod b"]
    by (subst num_text.simps) auto
qed

lemma integer_text_chars:
  "2 \<le> b \<Longrightarrow> b \<le> 16 \<Longrightarrow>
   set (integer_text b val width zero_pad is_signed) \<subseteq> number_chars"
  using num_text_chars [of b] by (auto simp: integer_text_def Let_def number_chars_def)

section \<open>The text a format prints\<close>

text \<open>
  \<open>pt\<close> is the text the string output makes of a string, \<open>px\<close> what the prefix of a pointer shows.
\<close>

definition convert_text ::
  "(string \<Rightarrow> string) \<Rightarrow> string \<Rightarrow> char \<Rightarrow> bool \<Rightarrow> nat \<Rightarrow> nat \<Rightarrow> parg list \<Rightarrow>
   (parg list \<times> string) option" where
  "convert_text pt px k zero_pad width is_long args =
     (if 2 ^ 31 \<le> width then None
      else if k \<in> set ''csidupx'' then
        (case args of
           [] \<Rightarrow> None
         | Num n # args \<Rightarrow>
             (if k = CHR ''s'' then None
              else Some (args,
                if k = CHR ''c'' then [char_of (unat (ucast n :: u8))]
                else if k = CHR ''u'' then integer_text 10 (arg_unsigned is_long n) width zero_pad False
                else if k = CHR ''p'' then px @ integer_text 16 n (if width = 0 then 16 else width) True False
                else if k = CHR ''x'' then integer_text 16 (arg_unsigned is_long n) width zero_pad False
                else integer_text 10 (arg_signed is_long n) width zero_pad True))
         | Str t # args \<Rightarrow>
             (if k = CHR ''s'' then Some (args, pt (case t of Some t \<Rightarrow> t | None \<Rightarrow> ''(NULL)'')) else None))
      else Some (args, [k]))"

function format_text ::
  "(string \<Rightarrow> string) \<Rightarrow> string \<Rightarrow> string \<Rightarrow> parg list \<Rightarrow> string option" where
  "format_text pt px [] args = Some []"
| "format_text pt px (c # fmt) args =
     (if c = CHR ''%'' then
        (case parse_spec fmt of (zero_pad, width, is_long, rest) \<Rightarrow>
           (case rest of
              [] \<Rightarrow> None
            | k # rest \<Rightarrow> do {
                (args, t) \<leftarrow> convert_text pt px k zero_pad width is_long args;
                r \<leftarrow> format_text pt px rest args;
                Some (t @ r) }))
      else map_option (Cons c) (format_text pt px fmt args))"
  by pat_completeness auto
termination
  by (relation "measure (\<lambda>(pt, px, fmt, args). length fmt)")
     (auto dest: parse_spec_shorter)

section \<open>A device that takes characters\<close>

text \<open>
  \<open>ready n\<close>: the device takes \<open>n\<close> more characters; \<open>text\<close>: the characters it has shown;
  \<open>plain\<close>: the characters it shows as they are.
\<close>

locale char_sink =
  fixes putc :: "char \<Rightarrow> 's \<Rightarrow> (unit \<times> 's) option"
    and ready :: "nat \<Rightarrow> 's \<Rightarrow> bool"
    and shown :: "'s \<Rightarrow> string"
    and plain :: "char \<Rightarrow> bool"
  assumes putc_ready: "ready (Suc n) s \<Longrightarrow> plain c \<Longrightarrow>
      \<exists>t. putc c s = Some ((), t) \<and> ready n t \<and> shown t = shown s @ [c]"
    and ready_less: "ready n s \<Longrightarrow> m \<le> n \<Longrightarrow> ready m s"
    and plain_number: "c \<in> number_chars \<Longrightarrow> plain c"
begin

lemma put_all_shown:
  "ready (length cs + n) s \<Longrightarrow> \<forall>c \<in> set cs. plain c \<Longrightarrow>
   \<exists>t. put_all putc cs s = Some ((), t) \<and> ready n t \<and> shown t = shown s @ cs"
proof (induction cs arbitrary: s)
  case Nil
  then show ?case by simp
next
  case (Cons c cs)
  from putc_ready [of "length cs + n" s c] Cons.prems obtain t where
    t: "putc c s = Some ((), t)" "ready (length cs + n) t" "shown t = shown s @ [c]"
    by auto
  from Cons.IH [OF t(2)] Cons.prems(2) show ?case
    by (auto simp: t(1,3))
qed

lemma number_plain: "set cs \<subseteq> number_chars \<Longrightarrow> \<forall>c \<in> set cs. plain c"
  using plain_number by blast

lemma put_number:
  "ready (length cs + n) s \<Longrightarrow> set cs \<subseteq> number_chars \<Longrightarrow>
   \<exists>t. put_all putc cs s = Some ((), t) \<and> ready n t \<and> shown t = shown s @ cs"
  by (rule put_all_shown [OF _ number_plain])

text \<open>An integer is shown as its text.\<close>

lemma print_ex_integer_puts:
  assumes "2 \<le> base"
  shows "print_ex_integer putc val base width zero_pad is_signed s =
      put_all putc (integer_text (unat base) val width zero_pad is_signed) s"
proof -
  define neg where "neg \<longleftrightarrow> is_signed \<and> sint val < 0"
  define digs where "digs = num_text (unat base) (unat (if neg then - val else val))"
  define sign where "sign = (if neg then ''-'' else [])"
  define pad where "pad = width - (length digs + length sign)"
  have shape: "integer_text (unat base) val width zero_pad is_signed =
      (if zero_pad then sign @ replicate pad (CHR ''0'') @ digs
       else replicate pad (CHR '' '') @ sign @ digs)"
    by (simp add: integer_text_def Let_def neg_def digs_def sign_def pad_def)
  have buf: "int_digits base (if neg then - val else val) = Some (rev digs)"
    unfolding digs_def by (rule int_digits_text [OF assms])
  have one: "(if neg then putc (CHR ''-'') u else Some ((), u)) = put_all putc sign u" for u
    by (cases "putc (CHR ''-'') u") (auto simp: sign_def)
  have len: "length digs + (if neg then 1 else 0) = length digs + length sign"
    by (simp add: sign_def)
  show ?thesis
  proof (cases "length digs + length sign < width")
    case False
    then have "pad = 0"
      by (simp add: pad_def)
    then show ?thesis
      unfolding shape print_ex_integer_def Let_def neg_def [symmetric] buf one
      using False by (simp add: len put_all_append one)
  next
    case True
    then show ?thesis
      unfolding shape print_ex_integer_def Let_def neg_def [symmetric] buf one
      by (cases "put_all putc sign s"; cases zero_pad)
         (auto simp: len put_all_append one pad_def case_prod_unfold split: Option.bind_split)
  qed
qed

lemma print_ex_integer_text:
  assumes "base = 10 \<or> base = 16"
    and r: "ready (length (integer_text (unat base) val width zero_pad is_signed) + n) s"
  shows "\<exists>t. print_ex_integer putc val base width zero_pad is_signed s = Some ((), t) \<and> ready n t
    \<and> shown t = shown s @ integer_text (unat base) val width zero_pad is_signed"
proof -
  have b: "2 \<le> base" "unat base \<le> 16" "2 \<le> unat base"
    using assms(1) by auto
  show ?thesis
    unfolding print_ex_integer_puts [OF b(1)]
    by (rule put_number [OF r integer_text_chars [OF b(3,2)]])
qed

text \<open>
  Formatted output shows the text of the format, when the string output shows \<open>pt str\<close> for a
  string and the prefix shows \<open>px\<close>.
\<close>

lemma convert_shown:
  assumes prints: "\<And>str n s. ready (length (pt str) + n) s \<Longrightarrow> \<forall>c \<in> set (pt str). plain c \<Longrightarrow>
      \<exists>t. prints str s = Some ((), t) \<and> ready n t \<and> shown t = shown s @ pt str"
    and prefix: "\<And>n s. ready (length px + n) s \<Longrightarrow>
      \<exists>t. prefix s = Some ((), t) \<and> ready n t \<and> shown t = shown s @ px"
    and conv: "convert_text pt px k zero_pad width is_long args = Some (args', str)"
    and r: "ready (length str + n) s" and plain: "\<forall>c \<in> set str. plain c"
  shows "\<exists>t. convert_arg putc prints prefix k zero_pad width is_long args s = Some (args', t)
    \<and> ready n t \<and> shown t = shown s @ str"
proof -
  have w: "\<not> 2 ^ 31 \<le> width"
    using conv by (auto simp: convert_text_def)
  have one: "ready (Suc n) s \<Longrightarrow> plain c \<Longrightarrow>
      \<exists>t. putc c s = Some ((), t) \<and> ready n t \<and> shown t = shown s @ [c]" for c s
    by (rule putc_ready)
  show ?thesis
  proof (cases "k \<in> set ''csidupx''")
    case False
    then have "args' = args" "str = [k]"
      using conv w by (simp_all add: convert_text_def)
    then show ?thesis
      using False w r plain one [of s k] by (auto simp: convert_arg_def)
  next
    case True
    then obtain a rest where args: "args = a # rest"
      using conv w by (cases args) (auto simp: convert_text_def)
    show ?thesis
    proof (cases a)
      case (Str t)
      then have k: "k = CHR ''s''" "args' = rest" "str = pt (case t of Some t \<Rightarrow> t | None \<Rightarrow> ''(NULL)'')"
        using conv w True args by (auto simp: convert_text_def split: if_splits)
      then show ?thesis
        using prints [OF r [unfolded k(3)] plain [unfolded k(3)]] w args Str
        by (auto simp: convert_arg_def)
    next
      case (Num v)
      then have k: "k \<noteq> CHR ''s''" "args' = rest"
        using conv w True args by (auto simp: convert_text_def split: if_splits)
      have int: "\<exists>t. print_ex_integer putc x base width zp sg s = Some ((), t) \<and> ready n t
          \<and> shown t = shown s @ integer_text (unat base) x width zp sg"
        if "ready (length (integer_text (unat base) x width zp sg) + n) s" "base = 10 \<or> base = 16"
        for x base width zp sg s
        using print_ex_integer_text [OF that(2,1)] .
      consider "k = CHR ''c''" | "k = CHR ''i'' \<or> k = CHR ''d''" | "k = CHR ''u''" | "k = CHR ''x''"
        | "k = CHR ''p''"
        using True k(1) by auto
      then show ?thesis
      proof cases
        case 1
        then show ?thesis
          using conv w args Num r plain one [of s "char_of (unat (ucast v :: u8))"]
          by (auto simp: convert_text_def convert_arg_def)
      next
        case 2
        then have s: "str = integer_text 10 (arg_signed is_long v) width zero_pad True"
          using conv w args Num by (auto simp: convert_text_def)
        show ?thesis
          using int [of 10 "arg_signed is_long v" width zero_pad True s] r 2 w args Num k
          by (auto simp: convert_arg_def s)
      next
        case 3
        then have s: "str = integer_text 10 (arg_unsigned is_long v) width zero_pad False"
          using conv w args Num by (auto simp: convert_text_def)
        show ?thesis
          using int [of 10 "arg_unsigned is_long v" width zero_pad False s] r 3 w args Num k
          by (auto simp: convert_arg_def s)
      next
        case 4
        then have s: "str = integer_text 16 (arg_unsigned is_long v) width zero_pad False"
          using conv w args Num by (auto simp: convert_text_def)
        show ?thesis
          using int [of 16 "arg_unsigned is_long v" width zero_pad False s] r 4 w args Num k
          by (auto simp: convert_arg_def s)
      next
        case 5
        let ?w = "if width = 0 then 16 else width"
        have s: "str = px @ integer_text 16 v ?w True False"
          using 5 conv w args Num by (auto simp: convert_text_def)
        then obtain u where u: "prefix s = Some ((), u)"
            "ready (length (integer_text 16 v ?w True False) + n) u" "shown u = shown s @ px"
          using prefix [of "length (integer_text 16 v ?w True False) + n" s] r
          by (auto simp: add.assoc)
        then show ?thesis
          using int [of 16 v ?w True False u] 5 w args Num k
          by (auto simp: convert_arg_def s)
      qed
    qed
  qed
qed

lemma printf_shown:
  assumes prints: "\<And>str n s. ready (length (pt str) + n) s \<Longrightarrow> \<forall>c \<in> set (pt str). plain c \<Longrightarrow>
      \<exists>t. prints str s = Some ((), t) \<and> ready n t \<and> shown t = shown s @ pt str"
    and prefix: "\<And>n s. ready (length px + n) s \<Longrightarrow>
      \<exists>t. prefix s = Some ((), t) \<and> ready n t \<and> shown t = shown s @ px"
  shows "format_text pt px fmt args = Some str \<Longrightarrow> ready (length str + n) s \<Longrightarrow>
    \<forall>c \<in> set str. plain c \<Longrightarrow>
    \<exists>t. printf_loop putc prints prefix fmt args s = Some ((), t) \<and> ready n t \<and> shown t = shown s @ str"
proof (induction "length fmt" arbitrary: fmt args s str rule: less_induct)
  case less
  show ?case
  proof (cases fmt)
    case Nil
    then show ?thesis
      using less.prems by simp
  next
    case (Cons c rest)
    show ?thesis
    proof (cases "c = CHR ''%''")
      case False
      then obtain str' where str: "str = c # str'" "format_text pt px rest args = Some str'"
        using less.prems(1) Cons by auto
      from putc_ready [of "length str' + n" s c] less.prems(2,3) obtain u where
        u: "putc c s = Some ((), u)" "ready (length str' + n) u" "shown u = shown s @ [c]"
        by (auto simp: str(1))
      have "length rest < length fmt" and "\<forall>c \<in> set str'. plain c"
        using Cons less.prems(3) by (simp_all add: str(1))
      from less.hyps [OF this(1) str(2) u(2) this(2)] show ?thesis
        using False Cons u(1,3) by (auto simp: str(1))
    next
      case True
      obtain zp w l r where spec: "parse_spec rest = (zp, w, l, r)"
        by (metis prod_cases4)
      then obtain k r' args' t str' where r: "r = k # r'"
          "convert_text pt px k zp w l args = Some (args', t)"
          "format_text pt px r' args' = Some str'" "str = t @ str'"
        using less.prems(1) Cons True by (auto split: list.splits)
      have "ready (length t + (length str' + n)) s" and "\<forall>c \<in> set t. plain c"
        using less.prems(2,3) by (simp_all add: r(4) add.assoc)
      from convert_shown [OF prints prefix r(2) this] obtain u where
        u: "convert_arg putc prints prefix k zp w l args s = Some (args', u)"
          "ready (length str' + n) u" "shown u = shown s @ t"
        by blast
      have "length r' < length fmt" and "\<forall>c \<in> set str'. plain c"
        using parse_spec_length [OF spec] less.prems(3) by (simp_all add: Cons r(1,4))
      from less.hyps [OF this(1) r(3) u(2) this(2)] show ?thesis
        using True Cons u(1,3) spec by (auto simp: r(1,4))
    qed
  qed
qed

end

end
