(* ===== verification/Serial.thy ===== *)
theory Serial
  imports Printf
begin

text \<open>
  The serial driver of serial.c: a 16550 UART that is polled, with formatted output. Every
  function takes its own lock; the text sent is what the transmit register received.
\<close>

unbundle bit_operations_syntax

section \<open>Operations\<close>

definition SERIAL_PORT :: u16 where "SERIAL_PORT = 0x3F8"

definition serial_init :: "('a mach_scheme, unit) op" where
  "serial_init s =
     locked Serial_lock (\<lambda>s. Some ((),
        outb (SERIAL_PORT + 4) 0x0B (outb (SERIAL_PORT + 2) 0xC7 (outb (SERIAL_PORT + 3) 0x03
          (outb (SERIAL_PORT + 1) 0x00 (outb (SERIAL_PORT + 0) 0x03
            (outb (SERIAL_PORT + 3) 0x80 (outb (SERIAL_PORT + 1) 0x00 s))))))))
       (s\<lparr>locks := (locks s)(Serial_lock := False, Serialp_lock := False,
            Serialf_lock := False, Serialc_lock := False)\<rparr>)"

definition serial_is_transmit_empty :: "device \<Rightarrow> 'a mach_scheme \<Rightarrow> u8 \<times> 'a mach_scheme" where
  "serial_is_transmit_empty dev s = (let (v, s) = inb dev (SERIAL_PORT + 5) s in (v AND 0x20, s))"

text \<open>\<open>while (!serial_is_transmit_empty());\<close>\<close>

partial_function (option) wait_transmit ::
  "device \<Rightarrow> 'a mach_scheme \<Rightarrow> (unit \<times> 'a mach_scheme) option" where
  "wait_transmit dev s =
     (let (r, s) = serial_is_transmit_empty dev s in if r = 0 then wait_transmit dev s else Some ((), s))"

definition serial_printc :: "device \<Rightarrow> char \<Rightarrow> ('a mach_scheme, unit) op" where
  "serial_printc dev c = locked Serialc_lock (\<lambda>s. do {
     (_, s) \<leftarrow> wait_transmit dev s;
     Some ((), outb SERIAL_PORT (of_char c) s) })"

text \<open>The loop of \<open>serial_print\<close>: a carriage return before each newline.\<close>

primrec serial_print_loop :: "device \<Rightarrow> string \<Rightarrow> ('a mach_scheme, unit) op" where
  "serial_print_loop dev [] s = Some ((), s)"
| "serial_print_loop dev (c # cs) s = do {
     (_, s) \<leftarrow> (if c = CHR 0x0A then serial_printc dev (CHR 0x0D) s else Some ((), s));
     (_, s) \<leftarrow> serial_printc dev c s;
     serial_print_loop dev cs s }"

definition serial_print :: "device \<Rightarrow> string \<Rightarrow> ('a mach_scheme, unit) op" where
  "serial_print dev str = locked Serialp_lock (serial_print_loop dev str)"

definition serial_print_ex_integer ::
  "device \<Rightarrow> u64 \<Rightarrow> u64 \<Rightarrow> nat \<Rightarrow> bool \<Rightarrow> bool \<Rightarrow> ('a mach_scheme, unit) op" where
  "serial_print_ex_integer dev = print_ex_integer (serial_printc dev)"

definition serial_printf :: "device \<Rightarrow> string \<Rightarrow> parg list \<Rightarrow> ('a mach_scheme, unit) op" where
  "serial_printf dev fmt args = locked Serialf_lock
     (printf_loop (serial_printc dev) (serial_print dev) (serial_print dev ''0x'') fmt args)"

section \<open>The transmitter\<close>

text \<open>
  A UART that always becomes ready: after some number of further status reads the transmit bit is
  set.
\<close>

definition uart_ok :: "device \<Rightarrow> bool" where
  "uart_ok dev \<longleftrightarrow> (\<forall>h. \<exists>n. dev_in8 dev (replicate n (In8 (SERIAL_PORT + 5)) @ h) (SERIAL_PORT + 5) AND 0x20 \<noteq> 0)"

text \<open>The bytes sent, oldest first.\<close>

primrec sent :: "io_event list \<Rightarrow> string" where
  "sent [] = []"
| "sent (e # h) = sent h @ (case e of Out8 port v \<Rightarrow> if port = SERIAL_PORT then [char_of (unat v)] else [] | _ \<Rightarrow> [])"

lemma sent_status [simp]: "sent (replicate n (In8 p) @ h) = sent h"
  by (induction n) auto

lemma wait_transmit_ready:
  assumes "uart_ok dev"
  shows "\<exists>n. wait_transmit dev s = Some ((), s\<lparr>io := replicate n (In8 (SERIAL_PORT + 5)) @ io s\<rparr>)"
proof -
  let ?p = "SERIAL_PORT + 5"
  let ?bit = "\<lambda>h. dev_in8 dev h ?p AND 0x20"
  have step: "wait_transmit dev s =
      (if ?bit (io s) = 0 then wait_transmit dev (event (In8 ?p) s) else Some ((), event (In8 ?p) s))"
    for s :: "'a mach_scheme"
    by (subst wait_transmit.simps) (simp add: serial_is_transmit_empty_def inb_def Let_def)
  have "?bit (replicate n (In8 ?p) @ io s) \<noteq> 0 \<Longrightarrow>
      \<exists>m. wait_transmit dev s = Some ((), s\<lparr>io := replicate m (In8 ?p) @ io s\<rparr>)"
    for n and s :: "'a mach_scheme"
  proof (induction n arbitrary: s)
    case 0
    then have "wait_transmit dev s = Some ((), s\<lparr>io := replicate 1 (In8 ?p) @ io s\<rparr>)"
      by (subst step) (simp add: event_def)
    then show ?case
      by blast
  next
    case (Suc n)
    show ?case
    proof (cases "?bit (io s) = 0")
      case True
      have "?bit (replicate n (In8 ?p) @ io (event (In8 ?p) s)) \<noteq> 0"
        using Suc.prems by (simp add: replicate_app_Cons_same)
      from Suc.IH [OF this] obtain m where
        "wait_transmit dev (event (In8 ?p) s) =
          Some ((), (event (In8 ?p) s)\<lparr>io := replicate m (In8 ?p) @ io (event (In8 ?p) s)\<rparr>)"
        by blast
      then have "wait_transmit dev s = Some ((), s\<lparr>io := replicate (Suc m) (In8 ?p) @ io s\<rparr>)"
        using True by (subst step) (simp add: event_def replicate_app_Cons_same)
      then show ?thesis
        by blast
    next
      case False
      then have "wait_transmit dev s = Some ((), s\<lparr>io := replicate 1 (In8 ?p) @ io s\<rparr>)"
        by (subst step) (simp add: event_def)
      then show ?thesis
        by blast
    qed
  qed
  then show ?thesis
    using assms unfolding uart_ok_def by blast
qed

lemma of_char_byte: "char_of (unat (of_char c :: u8)) = c"
proof -
  have "(of_char c :: u8) = of_nat (of_char c)"
    by (simp add: of_nat_of_char)
  moreover have "(of_char c :: nat) = of_char c mod 256"
    by (rule of_char_mod_256 [symmetric])
  ultimately show ?thesis
    by (simp add: unat_of_nat)
qed

lemma serial_printc_sends:
  assumes "uart_ok dev" and "\<not> locks s Serialc_lock"
  shows "\<exists>n. serial_printc dev c s = Some ((), s\<lparr>io :=
    Out8 SERIAL_PORT (of_char c) # replicate n (In8 (SERIAL_PORT + 5)) @ io s\<rparr>)"
proof -
  obtain n where "wait_transmit dev (taken Serialc_lock s) =
      Some ((), (taken Serialc_lock s)\<lparr>io := replicate n (In8 (SERIAL_PORT + 5)) @ io s\<rparr>)"
    using wait_transmit_ready [OF assms(1), of "taken Serialc_lock s"] by auto
  then show ?thesis
    using assms(2)
    by (cases s) (auto simp: serial_printc_def locked_free outb_def event_def taken_def cli_def
        fun_upd_idem)
qed

text \<open>The driver as a character device; no call leaves a lock changed.\<close>

interpretation serial: char_sink "serial_printc dev"
  "\<lambda>n s. uart_ok dev \<and> locks s = L \<and> \<not> L Serialc_lock" "\<lambda>s. sent (io s)" "\<lambda>c. True" for dev L
proof unfold_locales
  fix n c and s :: "'a mach_scheme"
  assume a: "uart_ok dev \<and> locks s = L \<and> \<not> L Serialc_lock"
  then obtain k where "serial_printc dev c s = Some ((), s\<lparr>io :=
      Out8 SERIAL_PORT (of_char c) # replicate k (In8 (SERIAL_PORT + 5)) @ io s\<rparr>)"
    using serial_printc_sends by blast
  then show "\<exists>t. serial_printc dev c s = Some ((), t) \<and> (uart_ok dev \<and> locks t = L \<and> \<not> L Serialc_lock)
      \<and> sent (io t) = sent (io s) @ [c]"
    using a by (auto simp: of_char_byte)
qed auto

section \<open>Strings and formats\<close>

definition crlf :: "string \<Rightarrow> string" where
  "crlf str = concat (map (\<lambda>c. if c = CHR 0x0A then [CHR 0x0D, c] else [c]) str)"

lemma crlf_simps [simp]:
  "crlf [] = []" "crlf (c # cs) = (if c = CHR 0x0A then [CHR 0x0D, c] else [c]) @ crlf cs"
  by (simp_all add: crlf_def)

lemma serial_print_loop_puts: "serial_print_loop dev str s = put_all (serial_printc dev) (crlf str) s"
proof (induction str arbitrary: s)
  case (Cons c cs)
  show ?case
    by (cases "serial_printc dev (CHR 0x0D) s"; cases "serial_printc dev c s")
       (auto simp: Cons split: Option.bind_split)
qed simp

text \<open>A lock around a body, when it is free: what one transition through it shows.\<close>

lemma locked_shown:
  assumes free: "\<not> locks s l"
    and body: "\<exists>t. body (taken l s) = Some ((), t) \<and> locks t = (locks s)(l := True)
      \<and> sent (io t) = sent (io s) @ str"
  shows "\<exists>t. locked l body s = Some ((), t) \<and> locks t = locks s \<and> sent (io t) = sent (io s) @ str"
proof -
  obtain t where "body (taken l s) = Some ((), t)" "locks t = (locks s)(l := True)"
      "sent (io t) = sent (io s) @ str"
    using body by blast
  then show ?thesis
    using free by (auto simp: locked_free fun_upd_idem)
qed

lemma serial_print_shown:
  assumes "uart_ok dev" "\<not> locks s Serialc_lock" "\<not> locks s Serialp_lock"
  shows "\<exists>t. serial_print dev str s = Some ((), t) \<and> locks t = locks s
    \<and> sent (io t) = sent (io s) @ crlf str"
  unfolding serial_print_def
proof (rule locked_shown [OF assms(3)])
  show "\<exists>t. serial_print_loop dev str (taken Serialp_lock s) = Some ((), t)
      \<and> locks t = (locks s)(Serialp_lock := True) \<and> sent (io t) = sent (io s) @ crlf str"
    unfolding serial_print_loop_puts
    using serial.put_all_shown [where dev = dev and s = "taken Serialp_lock s" and cs = "crlf str"
        and L = "(locks s)(Serialp_lock := True)"] assms by auto
qed

lemma serial_printf_shown:
  assumes "uart_ok dev" "\<not> locks s Serialc_lock" "\<not> locks s Serialp_lock" "\<not> locks s Serialf_lock"
    and "format_text crlf ''0x'' fmt args = Some str"
  shows "\<exists>t. serial_printf dev fmt args s = Some ((), t) \<and> locks t = locks s
    \<and> sent (io t) = sent (io s) @ str"
  unfolding serial_printf_def
proof (rule locked_shown [OF assms(4)])
  let ?L = "(locks s)(Serialf_lock := True)"
  have prints: "\<exists>t. serial_print dev str u = Some ((), t)
      \<and> (uart_ok dev \<and> locks t = ?L \<and> \<not> ?L Serialc_lock) \<and> sent (io t) = sent (io u) @ crlf str"
    if "uart_ok dev \<and> locks u = ?L \<and> \<not> ?L Serialc_lock" for str and u :: "'a mach_scheme"
    using serial_print_shown [of dev u str] that assms(3) by auto
  have "crlf ''0x'' = ''0x''"
    by simp
  with prints [of _ "''0x''"] have prefix: "\<exists>t. serial_print dev ''0x'' u = Some ((), t)
      \<and> (uart_ok dev \<and> locks t = ?L \<and> \<not> ?L Serialc_lock) \<and> sent (io t) = sent (io u) @ ''0x''"
    if "uart_ok dev \<and> locks u = ?L \<and> \<not> ?L Serialc_lock" for u :: "'a mach_scheme"
    using that by simp
  have "uart_ok dev \<and> locks (taken Serialf_lock s) = ?L \<and> \<not> ?L Serialc_lock"
    using assms(1,2) by simp
  from serial.printf_shown [OF prints prefix assms(5) this]
  show "\<exists>t. printf_loop (serial_printc dev) (serial_print dev) (serial_print dev ''0x'') fmt args
      (taken Serialf_lock s) = Some ((), t)
      \<and> locks t = ?L \<and> sent (io t) = sent (io s) @ str"
    by auto
qed

section \<open>Properties\<close>

text \<open>A UART whose transmitter is always empty.\<close>

definition ready_uart :: device where
  "ready_uart = \<lparr>dev_in8 = (\<lambda>_ _. 0x20), dev_in16 = (\<lambda>_ _. 0), dev_in32 = (\<lambda>_ _. 0),
     dev_mmio = (\<lambda>_ _. 0), dev_tsc = (\<lambda>_. 0), dev_cpuid = (\<lambda>_. (0, 0, 0, 0))\<rparr>"

definition idle_mach :: mach where
  "idle_mach = \<lparr>mem = (\<lambda>_. 0), io = [], klog = [], locks = (\<lambda>_. False), rflags = 0x202\<rparr>"

lemma ready_uart_ok: "uart_ok ready_uart"
  by (simp add: uart_ok_def ready_uart_def)

lemma idle_mach_fields [simp]: "locks idle_mach = (\<lambda>_. False)" "io idle_mach = []"
  by (simp_all add: idle_mach_def)

text \<open>
  C21. Formatted output on a UART that always becomes ready again: \<open>serial_printf\<close> returns, every
  lock is as it was, and the bytes written to the transmit register are the text of the format with
  each conversion replaced by its argument, padded as the specification says.
\<close>

theorem serial_printf_sends_format:
  assumes "uart_ok dev" "\<not> locks s Serialc_lock" "\<not> locks s Serialp_lock" "\<not> locks s Serialf_lock"
    and "format_text crlf ''0x'' fmt args = Some str"
  shows "\<exists>t. serial_printf dev fmt args s = Some ((), t) \<and> locks t = locks s
    \<and> sent (io t) = sent (io s) @ str"
  using serial_printf_shown [OF assms] .

theorem serial_printf_sends_format_witness:
  "\<exists>t. serial_printf ready_uart ''%05d=%s'' [Num (- 42), Str (Some ''ok'')] idle_mach = Some ((), t)
    \<and> sent (io t) = ''-0042=ok''"
proof -
  have spec: "parse_spec ''05d=%s'' = (True, 5, 0, ''d=%s'')" "parse_spec ''s'' = (False, 0, 0, ''s'')"
    by (simp_all add: parse_spec_def Let_def less_eq_char_def)
  have n: "num_text 10 42 = ''42''"
    by (simp add: num_text.simps digit_char_def)
  have a: "arg_signed 0 (- 42) = - 42"
    by (simp add: arg_signed_def)
  have i: "integer_text 10 (- 42) 5 True True = ''-0042''"
    by (simp add: integer_text_def Let_def n) (simp add: numeral_2_eq_2)
  have "format_text crlf ''0x'' ''%05d=%s'' [Num (- 42), Str (Some ''ok'')] = Some ''-0042=ok''"
    by (simp add: spec convert_text_def a i)
  from serial_printf_sends_format [OF ready_uart_ok _ _ _ this, of idle_mach]
  show ?thesis
    by auto
qed

text \<open>
  C24. The digit buffer of the integer printers: for either base the code uses, the loop ends, fills
  at most 64 entries, and the characters read back to front are the digits of the value.
\<close>

theorem int_digits_fit_buffer:
  assumes "2 \<le> base"
  shows "\<exists>buf. int_digits base val = Some buf \<and> length buf \<le> 64
    \<and> rev buf = num_text (unat base) (unat val)"
proof -
  have "2 \<le> unat base"
    using assms by (simp add: word_le_nat_alt)
  moreover have "unat val < 2 ^ 64"
    using unat_less_exp [of val] by simp
  ultimately have "length (num_text (unat base) (unat val)) \<le> 64"
    by (intro num_text_length) simp_all
  then show ?thesis
    using int_digits_text [OF assms] by simp
qed

theorem int_digits_fit_buffer_witness:
  "\<exists>buf. int_digits 2 (- 1) = Some buf \<and> length buf \<le> 64"
  using int_digits_fit_buffer [of 2 "- 1"] by auto

end
