(* ===== verification/Vmem.thy ===== *)
theory Vmem
  imports Serial
begin

text \<open>
  The text screen of vmem.c: a 80 by 25 array of 16-bit cells at 0xB8000, written at the cursor
  of a design record, with an optional copy of the output on the serial port. The state of an
  operation is the design the caller points to and the machine.
\<close>

unbundle bit_operations_syntax

section \<open>Operations\<close>

definition VMEM :: u64 where "VMEM = 0xB8000"
definition VMEM_MAX_COLS :: nat where "VMEM_MAX_COLS = 80"
definition VMEM_MAX_ROWS :: nat where "VMEM_MAX_ROWS = 25"

text \<open>The fields are \<open>int\<close> and enumeration values, 32 bits wide.\<close>

record vmem_design =
  vx :: u32
  vy :: u32
  vfg :: u32
  vbg :: u32
  serial_out :: u8

text \<open>\<open>vmem[i] = v\<close> for an index of type \<open>int\<close>.\<close>

definition put_cell :: "u32 \<Rightarrow> u16 \<Rightarrow> 'a mach_scheme \<Rightarrow> 'a mach_scheme" where
  "put_cell i v s = s\<lparr>mem := st16 (mem s) (VMEM + 2 * scast i) v\<rparr>"

definition design_attr :: "vmem_design \<Rightarrow> u16" where
  "design_attr d = ucast (push_bit 4 (vbg d) OR vfg d)"

text \<open>A function with a lock around a body that also changes the design.\<close>

definition locked_design ::
  "lock_id \<Rightarrow> (vmem_design \<times> 'a mach_scheme, 'r) op \<Rightarrow> (vmem_design \<times> 'a mach_scheme, 'r) op" where
  "locked_design l body = (\<lambda>(d, s). do {
     (flags, s) \<leftarrow> spin_lock_irqsave l s;
     (r, (d, s)) \<leftarrow> body (d, s);
     Some (r, (d, spin_unlock_irqrestore l flags s)) })"

definition vmem_set_cursor :: "u16 \<Rightarrow> u16 \<Rightarrow> ('a mach_scheme, unit) op" where
  "vmem_set_cursor x y = locked Vmem_cur_lock (\<lambda>s.
     let pos = y * of_nat VMEM_MAX_COLS + x in
     Some ((), outb 0x3D5 (ucast (pos AND 0xFF)) (outb 0x3D4 0x0F
       (outb 0x3D5 (ucast (drop_bit 8 pos AND 0xFF)) (outb 0x3D4 0x0E s)))))"

definition vmem_disable_cursor :: "('a mach_scheme, unit) op" where
  "vmem_disable_cursor = locked Vmem_cur_lock (\<lambda>s.
     Some ((), outb 0x3D5 0x20 (outb 0x3D4 0x0A s)))"

definition vmem_clear_screen :: "(vmem_design \<times> 'a mach_scheme, unit) op" where
  "vmem_clear_screen = locked_design Vmem_lock (\<lambda>(d, s).
     let attr = design_attr d in
     Some ((), (d\<lparr>vx := 0, vy := 0\<rparr>,
       foldl (\<lambda>s i. put_cell (of_nat i) (push_bit 8 attr) s) s
         [0..<VMEM_MAX_COLS * VMEM_MAX_ROWS])))"

text \<open>
  \<open>vmem_printc\<close>. The cell gets the attribute and the character, which is a signed \<open>char\<close>: a
  character above 0x7F is sign-extended over the attribute.
\<close>

definition vmem_printc :: "device \<Rightarrow> char \<Rightarrow> (vmem_design \<times> 'a mach_scheme, unit) op" where
  "vmem_printc dev c ds = do {
     (_, (d, s)) \<leftarrow> locked_design Vmemc_lock (\<lambda>(d, s).
       if c = CHR 0x0A
       then Some ((), (d\<lparr>vx := 0, vy := ucast (ucast (vy d + 1) :: u16)\<rparr>, s))
       else Some ((), (d\<lparr>vx := ucast (ucast (vx d + 1) :: u16)\<rparr>,
              put_cell (vy d * of_nat VMEM_MAX_COLS + vx d)
                (push_bit 8 (design_attr d) OR scast (of_char c :: u8)) s))) ds;
     (_, s) \<leftarrow> vmem_set_cursor (ucast (vx d)) (ucast (vy d)) s;
     (_, s) \<leftarrow> (if serial_out d = 1 then serial_printc dev c s else Some ((), s));
     Some ((), (d, s)) }"

definition vmem_print :: "device \<Rightarrow> string \<Rightarrow> (vmem_design \<times> 'a mach_scheme, unit) op" where
  "vmem_print dev str = locked_design Vmem_lock (put_all (vmem_printc dev) str)"

definition vmem_print_ex_integer ::
  "device \<Rightarrow> u64 \<Rightarrow> u64 \<Rightarrow> nat \<Rightarrow> bool \<Rightarrow> bool \<Rightarrow> (vmem_design \<times> 'a mach_scheme, unit) op" where
  "vmem_print_ex_integer dev = print_ex_integer (vmem_printc dev)"

text \<open>The prefix of a pointer goes to the serial port, not to the screen.\<close>

definition vmem_printf :: "device \<Rightarrow> string \<Rightarrow> parg list \<Rightarrow> (vmem_design \<times> 'a mach_scheme, unit) op" where
  "vmem_printf dev fmt args = locked_design Vmemf_lock
     (printf_loop (vmem_printc dev) (vmem_print dev)
        (\<lambda>(d, s). map_option (\<lambda>(r, s). (r, (d, s))) (serial_print dev ''0x'' s)) fmt args)"

text \<open>
  \<open>vmem_scroll_up\<close>; \<open>bottom - 1\<close> wraps at 32 bits, the indices are 64 bits wide.
\<close>

definition cell_addr :: "nat \<Rightarrow> u64" where
  "cell_addr i = VMEM + 2 * of_nat i"

definition vmem_scroll_up :: "vmem_design \<Rightarrow> u32 \<Rightarrow> u32 \<Rightarrow> u32 \<Rightarrow> 'a mach_scheme \<Rightarrow> 'a mach_scheme" where
  "vmem_scroll_up d first bottom width s =
     (let stride = VMEM_MAX_COLS;
          m = foldl (\<lambda>m y. foldl (\<lambda>m x.
                st16 m (cell_addr (y * stride + x)) (ld16 m (cell_addr ((y + 1) * stride + x))))
                m [0..<unat width]) (mem s) [unat first..<unat (bottom - 1)];
          blank_attr = (ucast (ucast (vfg d) :: u8) OR ucast (ucast (push_bit 4 (vbg d)) :: u8)) :: u16;
          blank_char = 0x20 OR push_bit 8 blank_attr;
          row = unat ((bottom - 1) * of_nat stride)
      in s\<lparr>mem := foldl (\<lambda>m x. st16 m (cell_addr (row + x)) blank_char) m [0..<unat width]\<rparr>)"

section \<open>Cells\<close>

lemma unat_cell: "i < 2 ^ 31 \<Longrightarrow> unat (cell_addr i) = 0xB8000 + 2 * i"
proof -
  assume i: "i < 2 ^ 31"
  have "cell_addr i = of_nat (0xB8000 + 2 * i)"
    by (simp add: cell_addr_def VMEM_def)
  then show ?thesis
    using i by (simp only:) (rule unat_of_nat_small, simp)
qed

lemma cell_inject: "i < 2 ^ 31 \<Longrightarrow> j < 2 ^ 31 \<Longrightarrow> cell_addr i = cell_addr j \<longleftrightarrow> i = j"
  by (auto dest!: arg_cong [of _ _ unat] simp: unat_cell)

lemma cell_aligned: "i < 2 ^ 31 \<Longrightarrow> aligned2 (cell_addr i)"
  by (simp add: aligned2_def unat_cell)

definition cell :: "memory \<Rightarrow> nat \<Rightarrow> u16" where
  "cell m i = ld16 m (cell_addr i)"

lemma cell_write:
  "i < 2 ^ 31 \<Longrightarrow> j < 2 ^ 31 \<Longrightarrow> cell (st16 m (cell_addr i) v) j = (if i = j then v else cell m j)"
  unfolding cell_def by (subst hw.rd_wr) (simp_all add: cell_aligned cell_inject)

lemma put_cell_addr: "i < 2 ^ 31 \<Longrightarrow> put_cell (of_nat i) v s = s\<lparr>mem := st16 (mem s) (cell_addr i) v\<rparr>"
proof -
  assume i: "i < 2 ^ 31"
  then show ?thesis
    by (simp add: put_cell_def cell_addr_def scast_of_nat_small)
qed

section \<open>Scrolling\<close>

lemma scroll_row:
  "w \<le> 80 \<Longrightarrow> 80 * y + 160 < 2 ^ 31 \<Longrightarrow> j < 2 ^ 31 \<Longrightarrow>
   cell (foldl (\<lambda>m x. st16 m (cell_addr (y * 80 + x)) (ld16 m (cell_addr ((y + 1) * 80 + x)))) m [0..<w]) j
   = (if 80 * y \<le> j \<and> j < 80 * y + w then cell m (j + 80) else cell m j)"
proof (induction w arbitrary: j)
  case 0
  then show ?case by auto
next
  case (Suc w)
  let ?f = "\<lambda>m x. st16 m (cell_addr (y * 80 + x)) (ld16 m (cell_addr ((y + 1) * 80 + x)))"
  let ?m = "foldl ?f m [0..<w]"
  have IH: "cell ?m k = (if 80 * y \<le> k \<and> k < 80 * y + w then cell m (k + 80) else cell m k)"
    if "k < 2 ^ 31" for k
    using Suc.prems that by (intro Suc.IH) simp_all
  have "cell (?f ?m w) j = (if y * 80 + w = j then cell ?m ((y + 1) * 80 + w) else cell ?m j)"
    using Suc.prems by (subst cell_write) (simp_all add: cell_def)
  also have "cell ?m ((y + 1) * 80 + w) = cell m ((y + 1) * 80 + w)"
    using IH [of "(y + 1) * 80 + w"] Suc.prems by simp
  finally show ?case
    using IH [of j] Suc.prems by (auto simp: algebra_simps)
qed

lemma scroll_rows:
  "w \<le> 80 \<Longrightarrow> 80 * b + 160 < 2 ^ 31 \<Longrightarrow> j < 2 ^ 31 \<Longrightarrow> a \<le> b \<Longrightarrow>
   cell (foldl (\<lambda>m y. foldl (\<lambda>m x. st16 m (cell_addr (y * 80 + x)) (ld16 m (cell_addr ((y + 1) * 80 + x))))
      m [0..<w]) m [a..<b]) j
   = (if a \<le> j div 80 \<and> j div 80 < b \<and> j mod 80 < w then cell m (j + 80) else cell m j)"
proof (induction "b - a" arbitrary: b j)
  case 0
  then show ?case by auto
next
  case (Suc n)
  then obtain c where c: "b = Suc c" "a \<le> c" "n = c - a"
    by (cases b) auto
  let ?F = "\<lambda>m y. foldl (\<lambda>m x. st16 m (cell_addr (y * 80 + x)) (ld16 m (cell_addr ((y + 1) * 80 + x))))
      m [0..<w]"
  let ?m = "foldl ?F m [a..<c]"
  have IH: "cell ?m k = (if a \<le> k div 80 \<and> k div 80 < c \<and> k mod 80 < w then cell m (k + 80) else cell m k)"
    if "k < 2 ^ 31" for k
    using Suc.hyps(1) [OF c(3), of k] Suc.prems c that by simp
  have row: "80 * c \<le> j \<and> j < 80 * c + w \<longleftrightarrow> j div 80 = c \<and> j mod 80 < w"
  proof -
    have "j = 80 * (j div 80) + j mod 80" and "j mod 80 < 80"
      by simp_all
    then show ?thesis
      using Suc.prems(1) by (cases "j div 80" c rule: linorder_cases) linarith+
  qed
  have next_row: "cell ?m (j + 80) = cell m (j + 80)" if "j div 80 = c"
  proof -
    have "j < 80 * c + 80"
      using that dividend_less_div_times [of 80 j] by simp
    then show ?thesis
      using IH [of "j + 80"] that Suc.prems c by (simp add: div_add_self2)
  qed
  have "cell (foldl ?F m [a..<b]) j = cell (?F ?m c) j"
    using c by simp
  also have "\<dots> = (if 80 * c \<le> j \<and> j < 80 * c + w then cell ?m (j + 80) else cell ?m j)"
    using Suc.prems c by (intro scroll_row) simp_all
  also have "\<dots> = (if a \<le> j div 80 \<and> j div 80 < b \<and> j mod 80 < w then cell m (j + 80) else cell m j)"
    unfolding row using next_row IH [of j] Suc.prems c by auto
  finally show ?case .
qed

lemma fill_row:
  "r + w < 2 ^ 31 \<Longrightarrow> j < 2 ^ 31 \<Longrightarrow>
   cell (foldl (\<lambda>m x. st16 m (cell_addr (r + x)) v) m [0..<w]) j
   = (if r \<le> j \<and> j < r + w then v else cell m j)"
  by (induction w) (auto simp: cell_write)

lemma vmem_scroll_up_cells:
  assumes "first < bottom" and "unat bottom \<le> 25" and "unat width \<le> 80" and "i < 2000"
  shows "cell (mem (vmem_scroll_up d first bottom width s)) i =
    (if i mod 80 < unat width \<and> unat first \<le> i div 80 \<and> Suc (i div 80) < unat bottom
     then cell (mem s) (i + 80)
     else if i mod 80 < unat width \<and> Suc (i div 80) = unat bottom
     then 0x20 OR push_bit 8 (ucast (ucast (vfg d) :: u8) OR ucast (ucast (push_bit 4 (vbg d)) :: u8))
     else cell (mem s) i)"
proof -
  define b where "b = unat (bottom - 1)"
  have ub: "unat bottom = Suc b"
  proof -
    have pos: "0 < unat bottom"
      using assms(1) by (simp add: word_less_nat_alt)
    then have "1 \<le> bottom"
      by (simp add: word_le_nat_alt)
    then have "unat (bottom - 1) = unat bottom - 1"
      by (subst unat_sub) simp_all
    with pos show ?thesis
      by (simp add: b_def)
  qed
  have fb: "unat first \<le> b" "b < 25"
    using assms(1,2) ub by (simp_all add: word_less_nat_alt)
  have "unat (w * of_nat 80) = 80 * b" if "unat w = b" for w :: u32
    using fb(2) that by (simp add: unat_word_ariths)
  then have row: "unat ((bottom - 1) * of_nat 80) = 80 * b"
    using b_def by blast
  have last: "80 * b \<le> i \<and> i < 80 * b + unat width \<longleftrightarrow> i div 80 = b \<and> i mod 80 < unat width"
  proof -
    have "i = 80 * (i div 80) + i mod 80" and "i mod 80 < 80"
      by simp_all
    then show ?thesis
      using assms(3) by (cases "i div 80" b rule: linorder_cases) linarith+
  qed
  define F where "F = (\<lambda>m y. foldl (\<lambda>m x.
    st16 m (cell_addr (y * 80 + x)) (ld16 m (cell_addr ((y + 1) * 80 + x)))) m [0..<unat width])"
  let ?blank = "0x20 OR push_bit 8 (ucast (ucast (vfg d) :: u8) OR ucast (ucast (push_bit 4 (vbg d)) :: u8)) :: u16"
  have "mem (vmem_scroll_up d first bottom width s) =
      foldl (\<lambda>m x. st16 m (cell_addr (80 * b + x)) ?blank) (foldl F (mem s) [unat first..<b]) [0..<unat width]"
    unfolding vmem_scroll_up_def Let_def VMEM_MAX_COLS_def b_def [symmetric] row F_def by simp
  moreover have "cell (foldl F (mem s) [unat first..<b]) i =
      (if unat first \<le> i div 80 \<and> i div 80 < b \<and> i mod 80 < unat width then cell (mem s) (i + 80)
       else cell (mem s) i)"
    unfolding F_def using fb assms(3,4) by (intro scroll_rows) simp_all
  ultimately have "cell (mem (vmem_scroll_up d first bottom width s)) i =
      (if 80 * b \<le> i \<and> i < 80 * b + unat width then ?blank
       else if unat first \<le> i div 80 \<and> i div 80 < b \<and> i mod 80 < unat width then cell (mem s) (i + 80)
       else cell (mem s) i)"
    using fb assms(3,4) by (simp add: fill_row)
  then show ?thesis
    unfolding last ub by auto
qed

section \<open>The screen as a character device\<close>

text \<open>
  The text of the current line, up to the cursor; and a screen that takes \<open>n\<close> more characters on
  this line, with the copy to the serial port able to work when it is on.
\<close>

definition line_text :: "vmem_design \<times> 'a mach_scheme \<Rightarrow> string" where
  "line_text = (\<lambda>(d, s). map (\<lambda>i. char_of (unat (ucast (cell (mem s) (80 * unat (vy d) + i)) :: u8)))
     [0..<unat (vx d)])"

definition screen_ready :: "device \<Rightarrow> (lock_id \<Rightarrow> bool) \<Rightarrow> nat \<Rightarrow> vmem_design \<times> 'a mach_scheme \<Rightarrow> bool" where
  "screen_ready dev L n = (\<lambda>(d, s). unat (vy d) < 25 \<and> unat (vx d) + n \<le> 80 \<and> locks s = L
     \<and> \<not> L Vmemc_lock \<and> \<not> L Vmem_cur_lock
     \<and> (serial_out d = 1 \<longrightarrow> uart_ok dev \<and> \<not> L Serialc_lock))"

lemma cursor_ok:
  assumes "\<not> locks s Vmem_cur_lock"
  shows "\<exists>h. vmem_set_cursor x y s = Some ((), s\<lparr>io := h\<rparr>)"
  using assms
  by (cases s) (auto simp: vmem_set_cursor_def locked_free outb_def event_def taken_def cli_def
      fun_upd_idem Let_def)

lemma mirror_ok:
  assumes "b \<longrightarrow> uart_ok dev \<and> \<not> locks s Serialc_lock"
  shows "\<exists>h. (if b then serial_printc dev c s else Some ((), s)) = Some ((), s\<lparr>io := h\<rparr>)"
proof (cases b)
  case True
  then show ?thesis
    using serial_printc_sends [of dev s c] assms by auto
next
  case False
  then show ?thesis
    by (cases s) auto
qed

lemma low_byte: "(ucast (push_bit 8 a OR scast b :: u16) :: u8) = b"
  by (intro bit_word_eqI) (auto simp: bit_simps)

lemma vmem_printc_ok:
  assumes r: "screen_ready dev L (Suc n) (d, s)" and c: "c \<noteq> CHR 0x0A"
  shows "\<exists>h. vmem_printc dev c (d, s) = Some ((), (d\<lparr>vx := vx d + 1\<rparr>,
    s\<lparr>mem := st16 (mem s) (cell_addr (80 * unat (vy d) + unat (vx d)))
        (push_bit 8 (design_attr d) OR scast (of_char c :: u8)), io := h\<rparr>))"
proof -
  let ?i = "80 * unat (vy d) + unat (vx d)"
  let ?v = "push_bit 8 (design_attr d) OR scast (of_char c :: u8)"
  have b: "unat (vy d) < 25" "unat (vx d) < 80" "\<not> locks s Vmemc_lock" "\<not> locks s Vmem_cur_lock"
    using r by (auto simp: screen_ready_def)
  have "of_nat ?i = vy d * of_nat VMEM_MAX_COLS + vx d"
    by (simp add: VMEM_MAX_COLS_def)
  moreover have "put_cell (of_nat ?i) ?v u = u\<lparr>mem := st16 (mem u) (cell_addr ?i) ?v\<rparr>" for u :: "'a mach_scheme"
    using b(1,2) by (intro put_cell_addr) simp
  ultimately have put: "put_cell (vy d * of_nat VMEM_MAX_COLS + vx d) ?v u =
      u\<lparr>mem := st16 (mem u) (cell_addr ?i) ?v\<rparr>" for u :: "'a mach_scheme"
    by metis
  have x1: "(ucast (ucast (vx d + 1) :: u16) :: u32) = vx d + 1"
  proof -
    have "unat (vx d + 1) = Suc (unat (vx d))"
      using b(2) by (subst unat_plus_less) simp_all
    then show ?thesis
      using b(2) by (simp add: word_unat_eq_iff unsigned_ucast_eq unsigned_take_bit_eq take_bit_nat_eq_self)
  qed
  let ?d = "d\<lparr>vx := vx d + 1\<rparr>" and ?s = "s\<lparr>mem := st16 (mem s) (cell_addr ?i) ?v\<rparr>"
  have first: "locked_design Vmemc_lock (\<lambda>(d, s).
       if c = CHR 0x0A
       then Some ((), (d\<lparr>vx := 0, vy := ucast (ucast (vy d + 1) :: u16)\<rparr>, s))
       else Some ((), (d\<lparr>vx := ucast (ucast (vx d + 1) :: u16)\<rparr>,
              put_cell (vy d * of_nat VMEM_MAX_COLS + vx d)
                (push_bit 8 (design_attr d) OR scast (of_char c :: u8)) s))) (d, s) = Some ((), (?d, ?s))"
    using b(3) c put x1
    by (cases s) (simp add: locked_design_def spin_lock_irqsave_def spin_lock_def cli_def
        spin_unlock_irqrestore_def spin_unlock_def fun_upd_idem)
  obtain h where cur: "vmem_set_cursor (ucast (vx ?d)) (ucast (vy ?d)) ?s = Some ((), ?s\<lparr>io := h\<rparr>)"
    using cursor_ok [of ?s] b(4) by auto
  have "serial_out d = 1 \<longrightarrow> uart_ok dev \<and> \<not> locks (?s\<lparr>io := h\<rparr>) Serialc_lock"
    using r by (auto simp: screen_ready_def)
  from mirror_ok [OF this] obtain h' where
    "(if serial_out d = 1 then serial_printc dev c (?s\<lparr>io := h\<rparr>) else Some ((), ?s\<lparr>io := h\<rparr>))
      = Some ((), ?s\<lparr>io := h'\<rparr>)"
    by auto
  then show ?thesis
    using first cur by (intro exI [of _ h']) (simp add: vmem_printc_def)
qed

interpretation screen: char_sink "vmem_printc dev" "screen_ready dev L" line_text "\<lambda>c. c \<noteq> CHR 0x0A"
  for dev L
proof unfold_locales
  fix n c and ds :: "vmem_design \<times> 'a mach_scheme"
  assume r: "screen_ready dev L (Suc n) ds" and c: "c \<noteq> CHR 0x0A"
  obtain d s where ds: "ds = (d, s)"
    by (cases ds)
  let ?i = "80 * unat (vy d) + unat (vx d)"
  let ?v = "push_bit 8 (design_attr d) OR scast (of_char c :: u8)"
  from vmem_printc_ok [OF r [unfolded ds] c] obtain h where
    h: "vmem_printc dev c ds = Some ((), (d\<lparr>vx := vx d + 1\<rparr>,
      s\<lparr>mem := st16 (mem s) (cell_addr ?i) ?v, io := h\<rparr>))"
    unfolding ds by blast
  let ?t = "(d\<lparr>vx := vx d + 1\<rparr>, s\<lparr>mem := st16 (mem s) (cell_addr ?i) ?v, io := h\<rparr>)"
  have b: "unat (vy d) < 25" "unat (vx d) < 80"
    using r by (auto simp: screen_ready_def ds)
  then have x1: "unat (vx d + 1) = Suc (unat (vx d))"
    by (subst unat_plus_less) simp_all
  have "screen_ready dev L n ?t"
    using r x1 by (auto simp: screen_ready_def ds)
  moreover have "line_text ?t = line_text ds @ [c]"
    using b x1 by (simp add: line_text_def ds cell_write low_byte of_char_byte)
  ultimately show "\<exists>t. vmem_printc dev c ds = Some ((), t) \<and> screen_ready dev L n t
      \<and> line_text t = line_text ds @ [c]"
    using h by blast
qed (auto simp: screen_ready_def number_chars_def)

section \<open>Properties\<close>

lemma locked_design_free:
  "\<not> locks s l \<Longrightarrow> locked_design l body (d, s) =
     map_option (\<lambda>(r, (d, t)). (r, (d, t\<lparr>locks := (locks t)(l := False), rflags := rflags s\<rparr>)))
       (body (d, taken l s))"
  by (cases "body (d, taken l s)")
     (auto simp: locked_design_def spin_lock_irqsave_def spin_lock_def cli_def taken_def
        spin_unlock_irqrestore_def spin_unlock_def)

text \<open>
  C22. On a line with room \<open>vmem_print\<close> returns, the line reads as before followed by the string,
  and the cursor column is advanced by its length; the lock is free again.
\<close>

theorem vmem_print_extends_line:
  assumes "screen_ready dev L (length str + n) (d, s)" and "\<not> L Vmem_lock"
    and "CHR 0x0A \<notin> set str"
  shows "\<exists>e t. vmem_print dev str (d, s) = Some ((), (e, t)) \<and> screen_ready dev L n (e, t)
    \<and> line_text (e, t) = line_text (d, s) @ str"
proof -
  let ?L = "L(Vmem_lock := True)" and ?s = "taken Vmem_lock s"
  have L: "locks s = L"
    using assms(1) by (simp add: screen_ready_def)
  have "screen_ready dev ?L (length str + n) (d, ?s)"
    using assms(1) by (simp add: screen_ready_def)
  moreover have "\<forall>c \<in> set str. c \<noteq> CHR 0x0A"
    using assms(3) by metis
  ultimately obtain e u where u: "put_all (vmem_printc dev) str (d, ?s) = Some ((), (e, u))"
      "screen_ready dev ?L n (e, u)" "line_text (e, u) = line_text (d, ?s) @ str"
    using screen.put_all_shown [of dev ?L str n "(d, ?s)"] by auto
  let ?t = "u\<lparr>locks := (locks u)(Vmem_lock := False), rflags := rflags s\<rparr>"
  have "vmem_print dev str (d, s) = Some ((), (e, ?t))"
    using assms(2) u(1) by (simp add: vmem_print_def locked_design_free L)
  moreover have "(locks u)(Vmem_lock := False) = L"
    using u(2) assms(2) by (simp add: screen_ready_def fun_upd_idem)
  then have "screen_ready dev L n (e, ?t)"
    using u(2) by (simp add: screen_ready_def)
  moreover have "line_text (e, ?t) = line_text (d, s) @ str"
    using u(3) by (simp add: line_text_def)
  ultimately show ?thesis
    by blast
qed

theorem vmem_print_extends_line_witness:
  "\<exists>e t. vmem_print ready_uart ''PFI'' (\<lparr>vx = 0, vy = 3, vfg = 15, vbg = 1, serial_out = 1\<rparr>, idle_mach)
     = Some ((), (e, t)) \<and> line_text (e, t) = ''PFI''"
proof -
  have "screen_ready ready_uart (\<lambda>_. False) (length ''PFI'' + 0)
      (\<lparr>vx = 0, vy = 3, vfg = 15, vbg = 1, serial_out = 1\<rparr>, idle_mach)"
    by (simp add: screen_ready_def ready_uart_ok)
  from vmem_print_extends_line [OF this] show ?thesis
    by (auto simp: line_text_def)
qed

text \<open>
  C23. Scrolling a window of the screen: every cell between the first and the last row of the window
  takes the content of the cell below, the last row becomes blanks in the design's colours, and no
  cell outside the window changes.
\<close>

theorem vmem_scroll_up_moves_rows:
  assumes "first < bottom" and "unat bottom \<le> 25" and "unat width \<le> 80" and "i < 2000"
  shows "cell (mem (vmem_scroll_up d first bottom width s)) i =
    (if i mod 80 < unat width \<and> unat first \<le> i div 80 \<and> Suc (i div 80) < unat bottom
     then cell (mem s) (i + 80)
     else if i mod 80 < unat width \<and> Suc (i div 80) = unat bottom
     then 0x20 OR push_bit 8 (ucast (ucast (vfg d) :: u8) OR ucast (ucast (push_bit 4 (vbg d)) :: u8))
     else cell (mem s) i)"
  using vmem_scroll_up_cells [OF assms] .

theorem vmem_scroll_up_moves_rows_witness:
  "cell (mem (vmem_scroll_up \<lparr>vx = 0, vy = 24, vfg = 7, vbg = 0, serial_out = 0\<rparr> 2 25 80 idle_mach)) 1999
     = 0x0720
   \<and> (\<forall>s :: mach. cell (mem (vmem_scroll_up \<lparr>vx = 0, vy = 24, vfg = 7, vbg = 0, serial_out = 0\<rparr> 2 25 80 s)) 165
     = cell (mem s) 245)"
  by (simp add: vmem_scroll_up_moves_rows)

end
