(* ===== verification/Spinlock.thy ===== *)
theory Spinlock
  imports Prelude
begin

text \<open>
  The spin lock of core.c under several cores: \<open>spin_lock_irqsave\<close> and
  \<open>spin_unlock_irqrestore\<close> as a step relation whose steps are the atomic actions of one core, in
  any interleaving. The sequential model of the other theories is what one core sees of this when
  no other core holds its locks.
\<close>

section \<open>The step relation\<close>

text \<open>
  Where a core is: outside the two functions, before \<open>__sync_lock_test_and_set\<close>, in the inner
  \<open>while (*lock)\<close>, between the two functions, and between the release of the lock and \<open>popfq\<close>.
\<close>

datatype lock_pc = Outside | Trying | Waiting | Holding | Released

record lock_core =
  lpc :: lock_pc
  irq_on :: bool
  irq_saved :: bool

record lock_system =
  lock_word :: bool
  lock_cores :: "nat \<Rightarrow> lock_core"

definition set_core :: "nat \<Rightarrow> lock_core \<Rightarrow> lock_system \<Rightarrow> lock_system" where
  "set_core c k s = s\<lparr>lock_cores := (lock_cores s)(c := k)\<rparr>"

text \<open>Core \<open>c\<close> of \<open>n\<close> makes one step.\<close>

inductive lock_step :: "nat \<Rightarrow> nat \<Rightarrow> lock_system \<Rightarrow> lock_system \<Rightarrow> bool" for n :: nat where
  save: "c < n \<Longrightarrow> k = lock_cores s c \<Longrightarrow> lpc k = Outside \<Longrightarrow>
    lock_step n c s (set_core c (k\<lparr>lpc := Trying, irq_saved := irq_on k, irq_on := False\<rparr>) s)"
| take: "c < n \<Longrightarrow> k = lock_cores s c \<Longrightarrow> lpc k = Trying \<Longrightarrow> \<not> lock_word s \<Longrightarrow>
    lock_step n c s (set_core c (k\<lparr>lpc := Holding\<rparr>) (s\<lparr>lock_word := True\<rparr>))"
| busy: "c < n \<Longrightarrow> k = lock_cores s c \<Longrightarrow> lpc k = Trying \<Longrightarrow> lock_word s \<Longrightarrow>
    lock_step n c s (set_core c (k\<lparr>lpc := Waiting\<rparr>) (s\<lparr>lock_word := True\<rparr>))"
| again: "c < n \<Longrightarrow> lpc (lock_cores s c) = Waiting \<Longrightarrow> lock_word s \<Longrightarrow> lock_step n c s s"
| seen: "c < n \<Longrightarrow> k = lock_cores s c \<Longrightarrow> lpc k = Waiting \<Longrightarrow> \<not> lock_word s \<Longrightarrow>
    lock_step n c s (set_core c (k\<lparr>lpc := Trying\<rparr>) s)"
| release: "c < n \<Longrightarrow> k = lock_cores s c \<Longrightarrow> lpc k = Holding \<Longrightarrow>
    lock_step n c s (set_core c (k\<lparr>lpc := Released\<rparr>) (s\<lparr>lock_word := False\<rparr>))"
| restore: "c < n \<Longrightarrow> k = lock_cores s c \<Longrightarrow> lpc k = Released \<Longrightarrow>
    lock_step n c s (set_core c (k\<lparr>lpc := Outside, irq_on := irq_saved k\<rparr>) s)"

inductive_cases lock_stepE: "lock_step n c s t"

text \<open>The free lock, every core outside with its own interrupt flag.\<close>

definition lock_start :: "(nat \<Rightarrow> bool) \<Rightarrow> lock_system" where
  "lock_start irq = \<lparr>lock_word = False,
     lock_cores = (\<lambda>c. \<lparr>lpc = Outside, irq_on = irq c, irq_saved = False\<rparr>)\<rparr>"

definition one_step :: "nat \<Rightarrow> lock_system \<Rightarrow> lock_system \<Rightarrow> bool" where
  "one_step n s t \<longleftrightarrow> (\<exists>c. lock_step n c s t)"

definition lock_reach :: "nat \<Rightarrow> (nat \<Rightarrow> bool) \<Rightarrow> lock_system \<Rightarrow> bool" where
  "lock_reach n irq s \<longleftrightarrow> (one_step n)\<^sup>*\<^sup>* (lock_start irq) s"

section \<open>The invariant\<close>

definition core_inv :: "bool \<Rightarrow> lock_core \<Rightarrow> bool" where
  "core_inv i k \<longleftrightarrow> (if lpc k = Outside then irq_on k = i else \<not> irq_on k \<and> irq_saved k = i)"

definition lock_inv :: "(nat \<Rightarrow> bool) \<Rightarrow> lock_system \<Rightarrow> bool" where
  "lock_inv irq s \<longleftrightarrow> (\<forall>c. core_inv (irq c) (lock_cores s c))
     \<and> (\<exists>h. \<forall>c. lpc (lock_cores s c) = Holding \<longleftrightarrow> lock_word s \<and> c = h)"

lemma set_core_fields [simp]:
  "lock_cores (set_core c k s) d = (if d = c then k else lock_cores s d)"
  "lock_word (set_core c k s) = lock_word s"
  by (simp_all add: set_core_def)

lemma lock_inv_start: "lock_inv irq (lock_start irq)"
  by (simp add: lock_inv_def core_inv_def lock_start_def)

text \<open>A step of core \<open>c\<close> that neither takes nor releases the lock, one that takes it, one that releases it.\<close>

lemma lock_inv_keep:
  assumes "lock_inv irq s" and "core_inv (irq c) k"
    and "lpc k = Holding \<longleftrightarrow> lpc (lock_cores s c) = Holding"
  shows "lock_inv irq (set_core c k s)"
proof -
  obtain h where "\<forall>c. lpc (lock_cores s c) = Holding \<longleftrightarrow> lock_word s \<and> c = h"
    using assms(1) by (auto simp: lock_inv_def)
  then have "\<forall>d. lpc (lock_cores (set_core c k s) d) = Holding \<longleftrightarrow> lock_word s \<and> d = h"
    using assms(3) by simp
  then show ?thesis
    using assms(1,2) by (auto simp: lock_inv_def)
qed

lemma lock_inv_take:
  assumes "lock_inv irq s" and "core_inv (irq c) k" and "lpc k = Holding" and "\<not> lock_word s"
  shows "lock_inv irq (set_core c k (s\<lparr>lock_word := True\<rparr>))"
proof -
  have "\<forall>d. lpc (lock_cores (set_core c k (s\<lparr>lock_word := True\<rparr>)) d) = Holding \<longleftrightarrow> True \<and> d = c"
    using assms(1,3,4) by (auto simp: lock_inv_def)
  then have "\<exists>h. \<forall>d. lpc (lock_cores (set_core c k (s\<lparr>lock_word := True\<rparr>)) d) = Holding \<longleftrightarrow> True \<and> d = h"
    by blast
  then show ?thesis
    using assms(1,2) by (simp add: lock_inv_def)
qed

lemma lock_inv_release:
  assumes "lock_inv irq s" and "core_inv (irq c) k" and "lpc k \<noteq> Holding"
    and "lpc (lock_cores s c) = Holding"
  shows "lock_inv irq (set_core c k (s\<lparr>lock_word := False\<rparr>))"
proof -
  obtain h where "\<forall>c. lpc (lock_cores s c) = Holding \<longleftrightarrow> lock_word s \<and> c = h"
    using assms(1) by (auto simp: lock_inv_def)
  then have "\<forall>d. lpc (lock_cores (set_core c k (s\<lparr>lock_word := False\<rparr>)) d) = Holding \<longleftrightarrow> False \<and> d = h"
    using assms(3,4) by (metis set_core_fields(1) lock_system.select_convs(2) lock_system.surjective lock_system.update_convs(1))
  then have "\<exists>h. \<forall>d. lpc (lock_cores (set_core c k (s\<lparr>lock_word := False\<rparr>)) d) = Holding \<longleftrightarrow> False \<and> d = h"
    by blast
  then show ?thesis
    using assms(1,2) by (simp add: lock_inv_def)
qed

lemma lock_inv_core: "lock_inv irq s \<Longrightarrow> core_inv (irq c) (lock_cores s c)"
  by (simp add: lock_inv_def)

lemma lock_inv_step: "lock_step n c s t \<Longrightarrow> lock_inv irq s \<Longrightarrow> lock_inv irq t"
proof (induction rule: lock_step.induct)
  case (save c k s)
  then show ?case
    using lock_inv_core [OF save.prems, of c] by (intro lock_inv_keep) (auto simp: core_inv_def)
next
  case (take c k s)
  then show ?case
    using lock_inv_core [OF take.prems, of c] by (intro lock_inv_take) (auto simp: core_inv_def)
next
  case (busy c k s)
  then have "lock_inv irq (set_core c (k\<lparr>lpc := Waiting\<rparr>) s)" and "s\<lparr>lock_word := True\<rparr> = s"
    using lock_inv_core [OF busy.prems, of c] by (auto intro!: lock_inv_keep simp: core_inv_def)
  then show ?case
    by simp
next
  case (again c s)
  then show ?case
    by simp
next
  case (seen c k s)
  then show ?case
    using lock_inv_core [OF seen.prems, of c] by (intro lock_inv_keep) (auto simp: core_inv_def)
next
  case (release c k s)
  then show ?case
    using lock_inv_core [OF release.prems, of c] by (intro lock_inv_release) (auto simp: core_inv_def)
next
  case (restore c k s)
  then show ?case
    using lock_inv_core [OF restore.prems, of c] by (intro lock_inv_keep) (auto simp: core_inv_def)
qed

lemma lock_inv_reach: "lock_reach n irq s \<Longrightarrow> lock_inv irq s"
  unfolding lock_reach_def
  by (induction rule: rtranclp_induct) (auto simp: lock_inv_start one_step_def intro: lock_inv_step)

lemma reach_range:
  "lock_reach n irq s \<Longrightarrow> lpc (lock_cores s c) \<noteq> Outside \<Longrightarrow> c < n"
  unfolding lock_reach_def
proof (induction arbitrary: c rule: rtranclp_induct)
  case base
  then show ?case
    by (simp add: lock_start_def)
next
  case (step s t)
  from step.hyps(2) obtain d where "lock_step n d s t"
    by (auto simp: one_step_def)
  then show ?case
    using step.IH step.prems by (elim lock_stepE) (auto split: if_splits)
qed

section \<open>Progress\<close>

text \<open>From a state in which nobody holds the lock a core that waits for it can take it.\<close>

lemma free_progress:
  assumes "c < n" and "\<not> lock_word s" and "lpc (lock_cores s c) = Trying \<or> lpc (lock_cores s c) = Waiting"
  shows "\<exists>t. (one_step n)\<^sup>*\<^sup>* s t \<and> lpc (lock_cores t c) = Holding"
proof -
  have try_case: "\<exists>t. (one_step n)\<^sup>*\<^sup>* u t \<and> lpc (lock_cores t c) = Holding"
    if "\<not> lock_word u" "lpc (lock_cores u c) = Trying" for u
  proof -
    have "one_step n u (set_core c ((lock_cores u c)\<lparr>lpc := Holding\<rparr>) (u\<lparr>lock_word := True\<rparr>))"
      unfolding one_step_def using assms(1) that by (intro exI [of _ c] lock_step.take) simp_all
    then have "(one_step n)\<^sup>*\<^sup>* u (set_core c ((lock_cores u c)\<lparr>lpc := Holding\<rparr>) (u\<lparr>lock_word := True\<rparr>))"
      by (rule r_into_rtranclp)
    then show ?thesis
      by (intro exI [of _ "set_core c ((lock_cores u c)\<lparr>lpc := Holding\<rparr>) (u\<lparr>lock_word := True\<rparr>)"]) simp
  qed
  show ?thesis
  proof (cases "lpc (lock_cores s c) = Trying")
    case True
    then show ?thesis
      by (rule try_case [OF assms(2)])
  next
    case False
    let ?u = "set_core c ((lock_cores s c)\<lparr>lpc := Trying\<rparr>) s"
    have "one_step n s ?u"
      unfolding one_step_def using assms False by (intro exI [of _ c] lock_step.seen) auto
    moreover obtain t where "(one_step n)\<^sup>*\<^sup>* ?u t" "lpc (lock_cores t c) = Holding"
      using try_case [of ?u] assms(2) by auto
    ultimately show ?thesis
      by (blast intro: converse_rtranclp_into_rtranclp)
  qed
qed

lemma lock_progress:
  assumes r: "lock_reach n irq s" and w: "lpc (lock_cores s c) = Trying \<or> lpc (lock_cores s c) = Waiting"
  shows "\<exists>t. (one_step n)\<^sup>*\<^sup>* s t \<and> lpc (lock_cores t c) = Holding"
proof -
  have c: "c < n"
    using reach_range [OF r, of c] w by auto
  show ?thesis
  proof (cases "lock_word s")
    case False
    then show ?thesis
      by (rule free_progress [OF c _ w])
  next
    case True
    then obtain d where d: "lpc (lock_cores s d) = Holding"
      using lock_inv_reach [OF r] by (auto simp: lock_inv_def)
    let ?u = "set_core d ((lock_cores s d)\<lparr>lpc := Released\<rparr>) (s\<lparr>lock_word := False\<rparr>)"
    have "d < n"
      using reach_range [OF r, of d] d by simp
    then have u: "one_step n s ?u"
      unfolding one_step_def using d by (intro exI [of _ d] lock_step.release) simp_all
    have "c \<noteq> d"
      using w d by auto
    then obtain t where "(one_step n)\<^sup>*\<^sup>* ?u t" "lpc (lock_cores t c) = Holding"
      using free_progress [OF c, of ?u] w by auto
    with u show ?thesis
      by (blast intro: converse_rtranclp_into_rtranclp)
  qed
qed

section \<open>Properties\<close>

text \<open>
  C25. Mutual exclusion: in every interleaving of any number of cores at most one core is between
  \<open>spin_lock_irqsave\<close> and \<open>spin_unlock_irqrestore\<close>, and the lock word says whether one is.
\<close>

theorem spin_lock_mutual_exclusion:
  assumes "lock_reach n irq s"
  shows "(lock_word s \<longleftrightarrow> (\<exists>c < n. lpc (lock_cores s c) = Holding))
    \<and> (\<forall>c d. lpc (lock_cores s c) = Holding \<longrightarrow> lpc (lock_cores s d) = Holding \<longrightarrow> c = d)"
proof -
  obtain h where h: "\<forall>c. lpc (lock_cores s c) = Holding \<longleftrightarrow> lock_word s \<and> c = h"
    using lock_inv_reach [OF assms] by (auto simp: lock_inv_def)
  have "h < n" if "lock_word s"
  proof -
    have "lpc (lock_cores s h) = Holding"
      using h that by simp
    then show ?thesis
      using reach_range [OF assms, of h] by simp
  qed
  with h show ?thesis
    by auto
qed

text \<open>A run of two cores: the first holds the lock, the second has found it taken.\<close>

definition contended :: lock_system where
  "contended = \<lparr>lock_word = True, lock_cores = (\<lambda>c. \<lparr>lpc = Outside, irq_on = True, irq_saved = False\<rparr>)
     (0 := \<lparr>lpc = Holding, irq_on = False, irq_saved = True\<rparr>,
      1 := \<lparr>lpc = Waiting, irq_on = False, irq_saved = True\<rparr>)\<rparr>"

lemma contended_reach: "lock_reach 2 (\<lambda>_. True) contended"
proof -
  define k where "k = (\<lambda>p i j. \<lparr>lpc = p, irq_on = i, irq_saved = j\<rparr>)"
  define sys where "sys = (\<lambda>w a b. \<lparr>lock_word = w, lock_cores = (\<lambda>c. k Outside True False)(0 := a, 1 := b)\<rparr>)"
  note defs = k_def sys_def lock_start_def
  have "lock_step 2 0 (lock_start (\<lambda>_. True))
      (set_core 0 ((k Outside True False)\<lparr>lpc := Trying, irq_saved := irq_on (k Outside True False), irq_on := False\<rparr>) (lock_start (\<lambda>_. True)))"
    by (rule lock_step.save) (simp_all add: defs)
  moreover have "set_core 0 ((k Outside True False)\<lparr>lpc := Trying, irq_saved := irq_on (k Outside True False), irq_on := False\<rparr>) (lock_start (\<lambda>_. True)) = sys False (k Trying False True) (k Outside True False)"
    by (simp add: defs set_core_def fun_eq_iff)
  ultimately have 1: "one_step 2 (lock_start (\<lambda>_. True)) (sys False (k Trying False True) (k Outside True False))"
    unfolding one_step_def by metis
  have "lock_step 2 0 (sys False (k Trying False True) (k Outside True False))
      (set_core 0 ((k Trying False True)\<lparr>lpc := Holding\<rparr>) ((sys False (k Trying False True) (k Outside True False))\<lparr>lock_word := True\<rparr>))"
    by (rule lock_step.take) (simp_all add: defs)
  moreover have "set_core 0 ((k Trying False True)\<lparr>lpc := Holding\<rparr>) ((sys False (k Trying False True) (k Outside True False))\<lparr>lock_word := True\<rparr>) = sys True (k Holding False True) (k Outside True False)"
    by (simp add: defs set_core_def fun_eq_iff)
  ultimately have 2: "one_step 2 (sys False (k Trying False True) (k Outside True False)) (sys True (k Holding False True) (k Outside True False))"
    unfolding one_step_def by metis
  have "lock_step 2 1 (sys True (k Holding False True) (k Outside True False))
      (set_core 1 ((k Outside True False)\<lparr>lpc := Trying, irq_saved := irq_on (k Outside True False), irq_on := False\<rparr>) (sys True (k Holding False True) (k Outside True False)))"
    by (rule lock_step.save) (simp_all add: defs)
  moreover have "set_core 1 ((k Outside True False)\<lparr>lpc := Trying, irq_saved := irq_on (k Outside True False), irq_on := False\<rparr>) (sys True (k Holding False True) (k Outside True False)) = sys True (k Holding False True) (k Trying False True)"
    by (simp add: defs set_core_def fun_eq_iff)
  ultimately have 3: "one_step 2 (sys True (k Holding False True) (k Outside True False)) (sys True (k Holding False True) (k Trying False True))"
    unfolding one_step_def by metis
  have "lock_step 2 1 (sys True (k Holding False True) (k Trying False True))
      (set_core 1 ((k Trying False True)\<lparr>lpc := Waiting\<rparr>) ((sys True (k Holding False True) (k Trying False True))\<lparr>lock_word := True\<rparr>))"
    by (rule lock_step.busy) (simp_all add: defs)
  moreover have "set_core 1 ((k Trying False True)\<lparr>lpc := Waiting\<rparr>) ((sys True (k Holding False True) (k Trying False True))\<lparr>lock_word := True\<rparr>) = sys True (k Holding False True) (k Waiting False True)"
    by (simp add: defs set_core_def fun_eq_iff)
  ultimately have 4: "one_step 2 (sys True (k Holding False True) (k Trying False True)) (sys True (k Holding False True) (k Waiting False True))"
    unfolding one_step_def by metis
  have "contended = sys True (k Holding False True) (k Waiting False True)"
    by (simp add: contended_def sys_def k_def)
  then show ?thesis
    unfolding lock_reach_def
    using 1 2 3 4 by (metis rtranclp.rtrancl_into_rtrancl rtranclp.rtrancl_refl)
qed

theorem spin_lock_mutual_exclusion_witness:
  "(\<exists>c < 2. lpc (lock_cores contended c) = Holding) \<and> lpc (lock_cores contended 1) \<noteq> Holding"
proof -
  have "lock_word contended" "lpc (lock_cores contended 0) = Holding"
    by (simp_all add: contended_def)
  then show ?thesis
    using spin_lock_mutual_exclusion [OF contended_reach] by (metis zero_neq_one)
qed

text \<open>
  C26. Interrupts: from the moment a core enters \<open>spin_lock_irqsave\<close> until it leaves
  \<open>spin_unlock_irqrestore\<close> its interrupts are off, so no handler of this core can spin on the lock
  the core holds; outside they are as the core had them.
\<close>

theorem spin_lock_irq_flag:
  assumes "lock_reach n irq s"
  shows "irq_on (lock_cores s c) = (if lpc (lock_cores s c) = Outside then irq c else False)"
  using lock_inv_reach [OF assms] by (auto simp: lock_inv_def core_inv_def split: if_splits)

theorem spin_lock_irq_flag_witness:
  "\<not> irq_on (lock_cores contended 0) \<and> \<not> irq_on (lock_cores contended 1) \<and> irq_on (lock_cores contended 2)"
  using spin_lock_irq_flag [OF contended_reach, of 0] spin_lock_irq_flag [OF contended_reach, of 1]
    spin_lock_irq_flag [OF contended_reach, of 2]
  by (simp add: contended_def)

text \<open>
  C27. No deadlock: in every reachable state a core that tries to take the lock can still get it,
  whatever the other cores have done.
\<close>

theorem spin_lock_no_deadlock:
  assumes "lock_reach n irq s" and "lpc (lock_cores s c) = Trying \<or> lpc (lock_cores s c) = Waiting"
  shows "\<exists>t. (one_step n)\<^sup>*\<^sup>* s t \<and> lpc (lock_cores t c) = Holding"
  using lock_progress [OF assms] .

theorem spin_lock_no_deadlock_witness:
  "\<exists>t. (one_step 2)\<^sup>*\<^sup>* contended t \<and> lpc (lock_cores t 1) = Holding"
  by (rule spin_lock_no_deadlock [OF contended_reach]) (simp add: contended_def)

end
