(* ===== verification/Core.thy ===== *)
theory Core
  imports Printf
begin

text \<open>
  Parsing of numbers (\<open>str_to_uint\<close> of core.c), the inverse of the digit printer of the drivers.
\<close>

unbundle bit_operations_syntax

section \<open>The code\<close>

definition hex_digit :: "char \<Rightarrow> nat option" where
  "hex_digit c =
     (if CHR ''0'' \<le> c \<and> c \<le> CHR ''9'' then Some (of_char c - 48)
      else if CHR ''a'' \<le> c \<and> c \<le> CHR ''f'' then Some (of_char c - 97 + 10)
      else if CHR ''A'' \<le> c \<and> c \<le> CHR ''F'' then Some (of_char c - 65 + 10)
      else None)"

text \<open>The shift comes before the test of the character.\<close>

fun hex_loop :: "u32 \<Rightarrow> string \<Rightarrow> u32" where
  "hex_loop result [] = result"
| "hex_loop result (c # str) =
     (let result = push_bit 4 result in
      case hex_digit c of
        Some d \<Rightarrow> hex_loop (result + of_nat d) str
      | None \<Rightarrow> result)"

fun dec_loop :: "u32 \<Rightarrow> string \<Rightarrow> u32" where
  "dec_loop result [] = result"
| "dec_loop result (c # str) =
     (if CHR ''0'' \<le> c \<and> c \<le> CHR ''9''
      then dec_loop (result * 10 + (of_nat (of_char c) - 48)) str
      else result)"

definition str_to_uint :: "string option \<Rightarrow> u32" where
  "str_to_uint p =
     (case p of
        None \<Rightarrow> 0
      | Some (a # b # str) \<Rightarrow>
          (if a = CHR ''0'' \<and> (b = CHR ''x'' \<or> b = CHR ''X'') then hex_loop 0 str
           else dec_loop 0 (a # b # str))
      | Some str \<Rightarrow> dec_loop 0 str)"

section \<open>Digits\<close>

lemma digit_cases: "k < 16 \<Longrightarrow> hex_digit (digit_char k) = Some k"
proof -
  have "list_all (\<lambda>k. hex_digit (digit_char k) = Some k) [0..<16]"
    by code_simp
  then show "k < 16 \<Longrightarrow> hex_digit (digit_char k) = Some k"
    by (simp add: list_all_iff)
qed

lemma dec_digit:
  "k < 10 \<Longrightarrow> CHR ''0'' \<le> digit_char k \<and> digit_char k \<le> CHR ''9'' \<and> (of_char (digit_char k) :: nat) = 48 + k"
proof -
  have "list_all (\<lambda>k. CHR ''0'' \<le> digit_char k \<and> digit_char k \<le> CHR ''9''
      \<and> (of_char (digit_char k) :: nat) = 48 + k) [0..<10]"
    by code_simp
  then show "k < 10 \<Longrightarrow> CHR ''0'' \<le> digit_char k \<and> digit_char k \<le> CHR ''9''
      \<and> (of_char (digit_char k) :: nat) = 48 + k"
    by (simp add: list_all_iff)
qed

lemma of_nat_div_mod: "of_nat b * of_nat (n div b) + of_nat (n mod b) = (of_nat n :: u32)"
  by (simp only: of_nat_mult [symmetric] of_nat_add [symmetric] mult_div_mod_eq)

lemma hex_loop_text: "hex_loop r (num_text 16 n @ str) =
    hex_loop (r * 16 ^ length (num_text 16 n) + of_nat n) str"
proof (induction "16 :: nat" n arbitrary: str rule: num_text.induct)
  case (1 n)
  show ?case
  proof (cases "n < 16")
    case True
    then show ?thesis
      by (simp add: num_text.simps [of 16 n] digit_cases push_bit_eq_mult)
  next
    case False
    have "hex_loop r (num_text 16 n @ str) =
        hex_loop (r * 16 ^ length (num_text 16 (n div 16)) + of_nat (n div 16)) (digit_char (n mod 16) # str)"
      using False 1 [of "digit_char (n mod 16) # str"] by (simp add: num_text.simps [of 16 n])
    also have "\<dots> = hex_loop (16 * (r * 16 ^ length (num_text 16 (n div 16)) + of_nat (n div 16))
        + of_nat (n mod 16)) str"
      by (simp add: digit_cases push_bit_eq_mult mult.commute)
    also have "16 * (r * 16 ^ length (num_text 16 (n div 16)) + of_nat (n div 16)) + of_nat (n mod 16)
        = r * 16 ^ Suc (length (num_text 16 (n div 16))) + (of_nat n :: u32)"
      using of_nat_div_mod [of 16 n] by (simp add: algebra_simps)
    finally show ?thesis
      using False by (simp add: num_text.simps [of 16 n])
  qed
qed

lemma dec_loop_text: "dec_loop r (num_text 10 n @ str) =
    dec_loop (r * 10 ^ length (num_text 10 n) + of_nat n) str"
proof (induction "10 :: nat" n arbitrary: str rule: num_text.induct)
  case (1 n)
  show ?case
  proof (cases "n < 10")
    case True
    then show ?thesis
      by (simp add: num_text.simps [of 10 n] dec_digit)
  next
    case False
    have "dec_loop r (num_text 10 n @ str) =
        dec_loop (r * 10 ^ length (num_text 10 (n div 10)) + of_nat (n div 10)) (digit_char (n mod 10) # str)"
      using False 1 [of "digit_char (n mod 10) # str"] by (simp add: num_text.simps [of 10 n])
    also have "\<dots> = dec_loop (10 * (r * 10 ^ length (num_text 10 (n div 10)) + of_nat (n div 10))
        + of_nat (n mod 10)) str"
      by (simp add: dec_digit mult.commute)
    also have "10 * (r * 10 ^ length (num_text 10 (n div 10)) + of_nat (n div 10)) + of_nat (n mod 10)
        = r * 10 ^ Suc (length (num_text 10 (n div 10))) + (of_nat n :: u32)"
      using of_nat_div_mod [of 10 n] by (simp add: algebra_simps)
    finally show ?thesis
      using False by (simp add: num_text.simps [of 10 n])
  qed
qed

text \<open>A printed decimal number does not look like a hexadecimal prefix.\<close>

lemma dec_no_x: "CHR ''x'' \<notin> set (num_text 10 n) \<and> CHR ''X'' \<notin> set (num_text 10 n)"
proof (induction "10 :: nat" n rule: num_text.induct)
  case (1 n)
  have d: "CHR ''x'' \<noteq> digit_char k \<and> CHR ''X'' \<noteq> digit_char k" if "k < 10" for k
  proof -
    have "list_all (\<lambda>k. CHR ''x'' \<noteq> digit_char k \<and> CHR ''X'' \<noteq> digit_char k) [0..<10]"
      by code_simp
    then show ?thesis
      using that by (simp add: list_all_iff)
  qed
  show ?case
    using 1 d [of n] d [of "n mod 10"] by (subst (1 2) num_text.simps) auto
qed

section \<open>Properties\<close>

text \<open>
  C28. Round trip: \<open>str_to_uint\<close> reads back what the digit printer writes, in decimal and, behind
  a prefix, in hexadecimal; numbers of more than 32 bits come back modulo 2^32.
\<close>

theorem str_to_uint_reads_digits:
  "str_to_uint (Some (num_text 10 n)) = of_nat n
   \<and> str_to_uint (Some (''0x'' @ num_text 16 n)) = of_nat n"
proof
  have "str_to_uint (Some (num_text 10 n)) = dec_loop 0 (num_text 10 n)"
    using dec_no_x [of n] by (auto simp: str_to_uint_def split: list.splits)
  then show "str_to_uint (Some (num_text 10 n)) = of_nat n"
    using dec_loop_text [of 0 n "[]"] by simp
  show "str_to_uint (Some (''0x'' @ num_text 16 n)) = of_nat n"
    using hex_loop_text [of 0 n "[]"] by (simp add: str_to_uint_def)
qed

text \<open>
  Where a number ends: a decimal number ends at the first character that is no digit, and the
  rest is ignored; a hexadecimal number that is followed by anything comes back multiplied by 16,
  because the shift is made before the character is looked at.
\<close>

theorem str_to_uint_stops:
  assumes "hex_digit c = None"
  shows "str_to_uint (Some (num_text 10 (Suc n) @ ''.'' @ str)) = of_nat (Suc n)
    \<and> str_to_uint (Some (''0x'' @ num_text 16 n @ [c] @ str)) = 16 * of_nat n"
proof
  obtain a b where ab: "num_text 10 (Suc n) = a # b"
    using num_text_nonempty [of 10 "Suc n"] by (cases "num_text 10 (Suc n)") auto
  have "str_to_uint (Some (num_text 10 (Suc n) @ ''.'' @ str)) = dec_loop 0 (num_text 10 (Suc n) @ ''.'' @ str)"
    using dec_no_x [of "Suc n"] unfolding ab
    by (cases b) (auto simp: str_to_uint_def)
  also have "\<dots> = of_nat (Suc n)"
    using dec_loop_text [of 0 "Suc n" "''.'' @ str"] by (simp add: less_eq_char_def)
  finally show "str_to_uint (Some (num_text 10 (Suc n) @ ''.'' @ str)) = of_nat (Suc n)" .
  show "str_to_uint (Some (''0x'' @ num_text 16 n @ [c] @ str)) = 16 * of_nat n"
    using hex_loop_text [of 0 n "c # str"] assms by (simp add: str_to_uint_def push_bit_eq_mult mult.commute)
qed

theorem str_to_uint_stops_witness:
  "str_to_uint (Some ''0x1g'') = 16 \<and> str_to_uint (Some ''7.5'') = 7"
proof -
  have n: "num_text 16 1 = ''1''" "num_text 10 7 = ''7''"
    by (simp_all add: num_text.simps digit_char_def)
  have "hex_digit (CHR ''g'') = None"
    by (simp add: hex_digit_def less_eq_char_def)
  from str_to_uint_stops [OF this, of 6 "''5''"] str_to_uint_stops [OF this, of 1 "[]"] show ?thesis
    by (simp add: n [simplified])
qed

end
