(* ===== verification/Idt.thy ===== *)
theory Idt
  imports Avmf
begin

text \<open>
  The interrupt descriptor table of idt.c. A table is a typed object at the address \<open>idt\<close> holds:
  the static one of the image, or one \<open>avmf_alloc\<close> returned. The addresses the linker gives to the
  static objects and to the assembly entry points are a parameter.
\<close>

unbundle bit_operations_syntax

section \<open>Data and state\<close>

definition IDT_SIZE :: nat where "IDT_SIZE = 256"

record idt_entry =
  offset_low :: u16
  selector :: u16
  ist :: u8
  type_attr :: u8
  offset_mid :: u16
  offset_high :: u32
  zero :: u32

record idt_ptr_t =
  ilimit :: u16
  ibase :: u64

record idt_state =
  idt :: u64
  idt_ptr :: u64
  idt_tables :: "u64 \<Rightarrow> nat \<Rightarrow> idt_entry"
  idt_ptrs :: "u64 \<Rightarrow> idt_ptr_t"

text \<open>Link addresses: \<open>idt_local\<close>, \<open>idt_ptr_local\<close> and the entry points.\<close>

record image =
  idt_local :: u64
  idt_ptr_local :: u64
  exception_asm :: "nat \<Rightarrow> u64"
  int_smp_timer :: u64
  int_smp_ipi :: u64

definition PAGE_GLOBAL :: u64 where "PAGE_GLOBAL = 0x100"

definition sti :: "'a mach_scheme \<Rightarrow> 'a mach_scheme" where
  "sti s = event Sti (s\<lparr>rflags := rflags s OR push_bit 9 1\<rparr>)"

section \<open>Operations\<close>

definition gate :: "u64 \<Rightarrow> u16 \<Rightarrow> u8 \<Rightarrow> idt_entry" where
  "gate offset sel ty = \<lparr>offset_low = ucast (offset AND 0xFFFF), selector = sel, ist = 0,
     type_attr = ty, offset_mid = ucast (drop_bit 16 offset AND 0xFFFF),
     offset_high = ucast (drop_bit 32 offset AND 0xFFFFFFFF), zero = 0\<rparr>"

text \<open>\<open>None\<close>: the table does not exist or has no such entry.\<close>

definition set_idt_entry :: "nat \<Rightarrow> u64 \<Rightarrow> u16 \<Rightarrow> u8 \<Rightarrow> idt_state \<Rightarrow> idt_state option" where
  "set_idt_entry num offset sel ty i =
     (if idt i = 0 \<or> IDT_SIZE \<le> num then None
      else Some (i\<lparr>idt_tables := (idt_tables i)(idt i := (idt_tables i (idt i))(num := gate offset sel ty))\<rparr>))"

text \<open>The entries \<open>idt_exinit\<close> sets one after the other.\<close>

definition idt_vectors :: "image \<Rightarrow> (nat \<times> u64) list" where
  "idt_vectors img = map (\<lambda>n. (n, exception_asm img n)) [0..<32]
     @ [(0x30, int_smp_timer img), (0x40, int_smp_ipi img)]"

fun set_idt_entries :: "(nat \<times> u64) list \<Rightarrow> idt_state \<Rightarrow> idt_state option" where
  "set_idt_entries [] i = Some i"
| "set_idt_entries ((num, offset) # vs) i = do {
     i \<leftarrow> set_idt_entry num offset 0x08 0x8E i;
     set_idt_entries vs i }"

text \<open>What both cases of \<open>idt_exinit\<close> share: the pointer, the entries, \<open>lidt\<close> and \<open>sti\<close>.\<close>

definition idt_fill :: "image \<Rightarrow> (idt_state \<times> 'a pager_scheme, unit) op" where
  "idt_fill img = (\<lambda>(i, s). do {
     let i = i\<lparr>idt_ptrs := (idt_ptrs i)(idt_ptr i := \<lparr>ilimit = of_nat (16 * IDT_SIZE - 1), ibase = idt i\<rparr>)\<rparr>;
     i \<leftarrow> set_idt_entries (idt_vectors img) i;
     Some ((), (i, sti (event (Lidt (idt_ptr i)) s))) })"

definition idt_exinit :: "image \<Rightarrow> bool \<Rightarrow> (idt_state \<times> 'a pager_scheme, unit) op" where
  "idt_exinit img local = (\<lambda>(i, s).
     if \<not> local then do {
       ((virt, _), s) \<leftarrow> avmf_alloc (of_nat (16 * IDT_SIZE)) MALLOC_TYPE_SENSITIVE
          (ucast (PAGE_PRESENT OR PAGE_RW OR PAGE_GLOBAL)) s;
       let i = i\<lparr>idt := virt\<rparr>;
       if virt = 0
       then Some ((), (i, diag ''[IDT] Failed to allocate memory for idt!'' [] s))
       else do {
         ((virt, _), s) \<leftarrow> avmf_alloc 10 MALLOC_TYPE_SENSITIVE
            (ucast (PAGE_PRESENT OR PAGE_RW OR PAGE_GLOBAL)) s;
         let i = i\<lparr>idt_ptr := virt\<rparr>;
         if virt = 0
         then Some ((), (i, diag ''[IDT] Failed to allocate memory for idt_ptr!'' [] s))
         else idt_fill img (i, s) } }
     else idt_fill img (i\<lparr>idt := idt_local img, idt_ptr := idt_ptr_local img\<rparr>, s))"

definition idt_load_local :: "(idt_state \<times> 'a mach_scheme, unit) op" where
  "idt_load_local = (\<lambda>(i, s).
     if idt i = 0 \<or> idt_ptr i = 0 then Some ((), (i, s))
     else Some ((), (i, event (Lidt (idt_ptr i)) s)))"

definition idt_global_init :: "image \<Rightarrow> (idt_state \<times> 'a pager_scheme, unit) op" where
  "idt_global_init img = idt_exinit img False"

definition idt_init :: "image \<Rightarrow> (idt_state \<times> 'a pager_scheme, unit) op" where
  "idt_init img = idt_exinit img True"

section \<open>What the processor reads\<close>

text \<open>The address of a gate, as the processor puts it together.\<close>

definition gate_target :: "idt_entry \<Rightarrow> u64" where
  "gate_target g = ucast (offset_low g) OR push_bit 16 (ucast (offset_mid g))
     OR push_bit 32 (ucast (offset_high g))"

lemma gate_target_gate: "gate_target (gate offset sel ty) = offset"
proof (rule bit_word_eqI)
  fix n
  assume n: "n < LENGTH(64)"
  have m: "(0xFFFF :: u64) = mask 16" "(0xFFFFFFFF :: u64) = mask 32"
    by (simp_all add: mask_eq_exp_minus_1)
  consider "n < 16" | "16 \<le> n" "n < 32" | "32 \<le> n"
    by linarith
  then show "bit (gate_target (gate offset sel ty)) n = bit offset n"
    using n unfolding gate_target_def gate_def m idt_entry.simps
    by cases (simp_all add: bit_simps, auto)
qed

lemma set_entries_result:
  "idt i \<noteq> 0 \<Longrightarrow> \<forall>(n, _) \<in> set vs. n < IDT_SIZE \<Longrightarrow> distinct (map fst vs) \<Longrightarrow>
   \<exists>j. set_idt_entries vs i = Some j \<and> idt j = idt i \<and> idt_ptr j = idt_ptr i \<and> idt_ptrs j = idt_ptrs i
     \<and> (\<forall>(n, a) \<in> set vs. idt_tables j (idt i) n = gate a 0x08 0x8E)
     \<and> (\<forall>n. n \<notin> fst ` set vs \<longrightarrow> idt_tables j (idt i) n = idt_tables i (idt i) n)"
proof (induction vs arbitrary: i)
  case Nil
  then show ?case
    by simp
next
  case (Cons v vs)
  obtain n a where v: "v = (n, a)"
    by (cases v)
  obtain k where k: "set_idt_entry n a 0x08 0x8E i = Some k" "idt k = idt i" "idt_ptr k = idt_ptr i"
      "idt_ptrs k = idt_ptrs i" "idt_tables k (idt i) = (idt_tables i (idt i))(n := gate a 0x08 0x8E)"
    using Cons.prems by (simp add: v set_idt_entry_def not_le [symmetric])
  then obtain j where j: "set_idt_entries vs k = Some j" "idt j = idt i" "idt_ptr j = idt_ptr i"
      "idt_ptrs j = idt_ptrs i" "\<forall>(m, b) \<in> set vs. idt_tables j (idt i) m = gate b 0x08 0x8E"
      "\<forall>m. m \<notin> fst ` set vs \<longrightarrow> idt_tables j (idt i) m = idt_tables k (idt i) m"
    using Cons.IH [of k] Cons.prems by (auto simp: v)
  have "n \<notin> fst ` set vs"
    using Cons.prems(3) by (simp add: v)
  then show ?case
    using j k(1,5) by (intro exI [of _ j]) (simp add: v)
qed

lemma idt_vectors_ok: "\<forall>(n, _) \<in> set (idt_vectors img). n < IDT_SIZE" "distinct (map fst (idt_vectors img))"
proof -
  have f: "map fst (idt_vectors img) = [0..<32] @ [0x30, 0x40]"
    by (simp add: idt_vectors_def comp_def)
  show "distinct (map fst (idt_vectors img))"
    unfolding f by simp
  have "\<forall>n \<in> set (map fst (idt_vectors img)). n < IDT_SIZE"
    unfolding f by (auto simp: IDT_SIZE_def)
  then show "\<forall>(n, _) \<in> set (idt_vectors img). n < IDT_SIZE"
    by auto
qed

lemma idt_vectors_in:
  "n < 32 \<Longrightarrow> (n, exception_asm img n) \<in> set (idt_vectors img)"
  "(0x30, int_smp_timer img) \<in> set (idt_vectors img)"
  "(0x40, int_smp_ipi img) \<in> set (idt_vectors img)"
  by (auto simp: idt_vectors_def)

lemma idt_fill_result:
  assumes "idt i \<noteq> 0"
  shows "\<exists>j. idt_fill img (i, s) = Some ((), (j, sti (event (Lidt (idt_ptr i)) s)))
    \<and> idt j = idt i \<and> idt_ptr j = idt_ptr i
    \<and> idt_ptrs j (idt_ptr i) = \<lparr>ilimit = 4095, ibase = idt i\<rparr>
    \<and> (\<forall>(n, a) \<in> set (idt_vectors img). idt_tables j (idt i) n = gate a 0x08 0x8E)"
proof -
  let ?i = "i\<lparr>idt_ptrs := (idt_ptrs i)(idt_ptr i := \<lparr>ilimit = of_nat (16 * IDT_SIZE - 1), ibase = idt i\<rparr>)\<rparr>"
  have nz: "idt ?i \<noteq> 0"
    using assms by simp
  from set_entries_result [OF nz idt_vectors_ok [of img]] obtain j where
    "set_idt_entries (idt_vectors img) ?i = Some j" "idt j = idt i" "idt_ptr j = idt_ptr i"
      "idt_ptrs j = idt_ptrs ?i"
      "\<forall>(n, a) \<in> set (idt_vectors img). idt_tables j (idt i) n = gate a 0x08 0x8E"
    by auto
  then show ?thesis
    by (intro exI [of _ j]) (simp add: idt_fill_def IDT_SIZE_def)
qed

section \<open>Properties\<close>

text \<open>
  C29. \<open>idt_init\<close> returns with interrupts on and a loaded table in which each of the 32 exceptions
  and the two interrupts of the multiprocessor code leads to its entry point through a present
  64-bit interrupt gate of the code segment; the limit covers exactly the 256 entries.
\<close>

theorem idt_init_installs_handlers:
  assumes "idt_local img \<noteq> 0"
  shows "\<exists>i' s'. idt_init img (i, s) = Some ((), (i', s'))
    \<and> idt i' = idt_local img \<and> idt_ptrs i' (idt_ptr i') = \<lparr>ilimit = 4095, ibase = idt_local img\<rparr>
    \<and> (\<forall>(n, a) \<in> set (idt_vectors img). let g = idt_tables i' (idt i') n in
         gate_target g = a \<and> selector g = 0x08 \<and> type_attr g = 0x8E \<and> ist g = 0)
    \<and> io s' = [Sti, Lidt (idt_ptr_local img)] @ io s \<and> bit (rflags s') 9"
proof -
  let ?i = "i\<lparr>idt := idt_local img, idt_ptr := idt_ptr_local img\<rparr>"
  obtain j where j: "idt_fill img (?i, s) = Some ((), (j, sti (event (Lidt (idt_ptr_local img)) s)))"
      "idt j = idt_local img" "idt_ptr j = idt_ptr_local img"
      "idt_ptrs j (idt_ptr_local img) = \<lparr>ilimit = 4095, ibase = idt_local img\<rparr>"
      "\<forall>(n, a) \<in> set (idt_vectors img). idt_tables j (idt_local img) n = gate a 0x08 0x8E"
    using idt_fill_result [of ?i img s] assms by auto
  have "gate_target (gate a 0x08 0x8E) = a \<and> selector (gate a 0x08 0x8E) = 0x08
      \<and> type_attr (gate a 0x08 0x8E) = 0x8E \<and> ist (gate a 0x08 0x8E) = 0" for a
    unfolding gate_target_gate by (simp add: gate_def)
  then have "\<forall>(n, a) \<in> set (idt_vectors img). let g = idt_tables j (idt j) n in
      gate_target g = a \<and> selector g = 0x08 \<and> type_attr g = 0x8E \<and> ist g = 0"
    using j(2,5) by (auto simp: Let_def)
  moreover have "bit (rflags (sti (event (Lidt (idt_ptr_local img)) s))) 9"
    by (simp add: sti_def bit_simps)
  moreover have "io (sti (event (Lidt (idt_ptr_local img)) s)) = [Sti, Lidt (idt_ptr_local img)] @ io s"
    by (simp add: sti_def)
  moreover have "idt_init img (i, s) = Some ((), (j, sti (event (Lidt (idt_ptr_local img)) s)))"
    using j(1) by (simp add: idt_init_def idt_exinit_def)
  ultimately show ?thesis
    using j(2-4) by (intro exI [of _ j] exI [of _ "sti (event (Lidt (idt_ptr_local img)) s)"]) simp
qed

definition small_image :: image where
  "small_image = \<lparr>idt_local = 0x110000, idt_ptr_local = 0x111000, exception_asm = (\<lambda>n. 0xFF000000 + of_nat n * 16),
     int_smp_timer = 0xFF001000, int_smp_ipi = 0xFF001010\<rparr>"

theorem idt_init_installs_handlers_witness:
  "\<forall>s :: pager. \<exists>i' s'. idt_init small_image (\<lparr>idt = 0, idt_ptr = 0, idt_tables = (\<lambda>_ _. gate 0 0 0),
       idt_ptrs = (\<lambda>_. \<lparr>ilimit = 0, ibase = 0\<rparr>)\<rparr>, s) = Some ((), (i', s'))
    \<and> gate_target (idt_tables i' (idt i') 14) = 0xFF0000E0 \<and> gate_target (idt_tables i' (idt i') 0x40) = 0xFF001010"
proof
  fix s :: pager
  let ?i = "\<lparr>idt = 0, idt_ptr = 0, idt_tables = (\<lambda>_ _. gate 0 0 0),
    idt_ptrs = (\<lambda>_. \<lparr>ilimit = 0, ibase = 0\<rparr>)\<rparr>"
  have "idt_local small_image \<noteq> 0"
    by (simp add: small_image_def)
  from idt_init_installs_handlers [OF this, of ?i s] obtain i' s' where
    i': "idt_init small_image (?i, s) = Some ((), (i', s'))"
      "\<forall>(n, a) \<in> set (idt_vectors small_image). let g = idt_tables i' (idt i') n in
         gate_target g = a \<and> selector g = 0x08 \<and> type_attr g = 0x8E \<and> ist g = 0"
    by blast
  have "gate_target (idt_tables i' (idt i') 14) = exception_asm small_image 14"
    using bspec [OF i'(2) idt_vectors_in(1) [of 14]] by (simp add: Let_def)
  moreover have "gate_target (idt_tables i' (idt i') 0x40) = int_smp_ipi small_image"
    using bspec [OF i'(2) idt_vectors_in(3)] by (simp add: Let_def)
  ultimately show "\<exists>i' s'. idt_init small_image (?i, s) = Some ((), (i', s'))
    \<and> gate_target (idt_tables i' (idt i') 14) = 0xFF0000E0 \<and> gate_target (idt_tables i' (idt i') 0x40) = 0xFF001010"
    using i'(1) by (auto simp: small_image_def)
qed

end
