(* ===== verification/Fexceptions.thy ===== *)
theory Fexceptions
  imports Serial
begin

text \<open>
  The exception handler of fexceptions.c: what it prints for a trap frame before it halts the
  core. It never returns; the model gives the state in which the core halts. A message is a format
  with its arguments, without its final newline, as \<open>diag\<close> takes it.
\<close>

unbundle bit_operations_syntax

section \<open>The code\<close>

record reg_trap_frame =
  r15 :: u64  r14 :: u64  r13 :: u64  r12 :: u64  r11 :: u64  r10 :: u64  r9 :: u64  r8 :: u64
  rdi :: u64  rsi :: u64  rbp :: u64  rbx :: u64  rdx :: u64  rcx :: u64  rax :: u64
  int_no :: u64  err_code :: u64
  rip :: u64  cs :: u64  frflags :: u64  rsp :: u64  ss :: u64

definition exception_names :: "string list" where
  "exception_names = [
     ''Divide-by-Zero (#DE)'',
     ''Debug (#DB)'',
     ''Non-Maskable Interrupt (#NMI)'',
     ''Breakpoint (#BP)'',
     ''Overflow (#OF)'',
     ''Bound Range Exceeded (#BR)'',
     ''Invalid Opcode (#UD)'',
     ''Device Not Available (#NM)'',
     ''Double Fault (#DF)'',
     ''Coprocessor Segment Overrun'',
     ''Invalid TSS (#TS)'',
     ''Segment Not Present (#NP)'',
     ''Stack-Segment Fault (#SS)'',
     ''General Protection Fault (#GP)'',
     ''Page Fault (#PF)'',
     ''Reserved'',
     ''x87 Floating-Point Exception (#MF)'',
     ''Alignment Check (#AC)'',
     ''Machine Check (#MC)'',
     ''SIMD Floating-Point Exception (#XM)'',
     ''Virtualization Exception (#VE)'',
     ''Control Protection Exception (#CP)'',
     ''Reserved'',
     ''Reserved'',
     ''Reserved'',
     ''Reserved'',
     ''Reserved'',
     ''Reserved'',
     ''Reserved'',
     ''Reserved'',
     ''Reserved'',
     ''Reserved'']"

definition exception_name :: "u64 \<Rightarrow> string" where
  "exception_name num = (if num < 32 then exception_names ! unat num else ''Unknown Exception'')"

text \<open>The lines every exception prints.\<close>

definition newline :: string where "newline = [CHR 0x0A]"

definition exception_header :: "reg_trap_frame \<Rightarrow> (string \<times> parg list) list" where
  "exception_header r = [
     (newline @ ''=================================================='', []),
     (''           AOS: CPU EXCEPTION OCCURRED!           '', []),
     (''=================================================='', []),
     (''Exception: %s (#%llu)'', [Str (Some (exception_name (int_no r))), Num (int_no r)]),
     (''Error Code: 0x%llx'' @ newline, [Num (err_code r)]),
     (''RIP: %016llx  CS:  %04llx  RFLAGS: %016llx'', [Num (rip r), Num (cs r), Num (frflags r)]),
     (''RSP: %016llx  SS:  %04llx  RBP:    %016llx'', [Num (rsp r), Num (ss r), Num (rbp r)]),
     (''RAX: %016llx  RBX: %016llx  RCX:    %016llx'', [Num (rax r), Num (rbx r), Num (rcx r)]),
     (''RDX: %016llx  RSI: %016llx  RDI:    %016llx'', [Num (rdx r), Num (rsi r), Num (rdi r)]),
     (''R8:  %016llx  R9:  %016llx  R10:    %016llx'', [Num (r8 r), Num (r9 r), Num (r10 r)]),
     (''R11: %016llx  R12: %016llx  R13:    %016llx'', [Num (r11 r), Num (r12 r), Num (r13 r)]),
     (''R14: %016llx  R15: %016llx'', [Num (r14 r), Num (r15 r)]),
     (newline @ ''--- Decoding Details ---'', [])]"

definition text_arg :: "bool \<Rightarrow> string \<Rightarrow> string \<Rightarrow> parg" where
  "text_arg b x y = Str (Some (if b then x else y))"

text \<open>The decoding of single exceptions; \<open>cr2\<close> is the register of that name.\<close>

definition exception_details :: "reg_trap_frame \<Rightarrow> u64 \<Rightarrow> (string \<times> parg list) list" where
  "exception_details r cr2 =
     (let num = int_no r; err = err_code r in
      if num = 14 then
        [(''Faulting Address (CR2): 0x%016llx'', [Num cr2]),
         (''Reason: %s, %s, %s%s%s'',
           [text_arg (err AND 0x01 \<noteq> 0) ''Protection violation'' ''Non-present page'',
            text_arg (err AND 0x02 \<noteq> 0) ''Write'' ''Read'',
            text_arg (err AND 0x04 \<noteq> 0) ''User-mode'' ''Kernel-mode'',
            text_arg (err AND 0x08 \<noteq> 0) '', Reserved bit set'' [],
            text_arg (err AND 0x10 \<noteq> 0) '', Instruction fetch'' []])]
      else if num = 13 \<or> num = 10 \<or> num = 11 \<or> num = 12 then
        (if err = 0 then [(''Reason: General violation (No selector involved).'', [])]
         else
           [(''Reason: Selector Error Index: 0x%llx, Table: %s, %s'',
             [Num (drop_bit 3 err AND 0x1FFF),
              text_arg (err AND 0x04 \<noteq> 0) ''LDT'' (if err AND 0x02 \<noteq> 0 then ''IDT'' else ''GDT''),
              text_arg (err AND 0x01 \<noteq> 0) ''External to CPU'' ''Internal''])])
      else if num = 6 then
        [(''Reason: The CPU tried to execute an undefined instruction.'', []),
         (''Common causes: Jumping to data/stack, or SSE/AVX used without being enabled.'', [])]
      else if num = 8 then
        [(''CRITICAL: Double Fault. The CPU failed to invoke an earlier exception handler.'', []),
         (''Usually caused by a kernel stack overflow or a fault inside the Page Fault handler.'', [])]
      else [])"

definition exception_report :: "reg_trap_frame \<Rightarrow> u64 \<Rightarrow> (string \<times> parg list) list" where
  "exception_report r cr2 =
     exception_header r @ exception_details r cr2 @ [(newline @ ''SYSTEM HALTED'', [])]"

text \<open>The state of the halted core: \<open>for (;;) { cli; hlt }\<close>.\<close>

definition aos_system_exception :: "reg_trap_frame \<Rightarrow> u64 \<Rightarrow> 'a mach_scheme \<Rightarrow> 'a mach_scheme" where
  "aos_system_exception r cr2 s =
     event Hlt (cli (foldl (\<lambda>s (fmt, args). diag fmt args s) s (exception_report r cr2)))"

section \<open>Formats and arguments\<close>

definition prints :: "string \<times> parg list \<Rightarrow> bool" where
  "prints = (\<lambda>(fmt, args). format_text crlf ''0x'' fmt args \<noteq> None)"

lemma format_cons: "c \<noteq> CHR ''%'' \<Longrightarrow> prints (c # fmt, args) \<longleftrightarrow> prints (fmt, args)"
  by (simp add: prints_def)

lemma format_nil: "prints ([], args)"
  by (simp add: prints_def)

lemma format_str: "prints (CHR ''%'' # CHR ''s'' # fmt, Str t # args) \<longleftrightarrow> prints (fmt, args)"
  by (simp add: prints_def parse_spec_def convert_text_def Let_def less_eq_char_def split: Option.bind_split)

lemma format_num:
  "prints (CHR ''%'' # CHR ''0'' # CHR ''1'' # CHR ''6'' # CHR ''l'' # CHR ''l'' # CHR ''x'' # fmt, Num n # args)
     \<longleftrightarrow> prints (fmt, args)"
  "prints (CHR ''%'' # CHR ''0'' # CHR ''4'' # CHR ''l'' # CHR ''l'' # CHR ''x'' # fmt, Num n # args)
     \<longleftrightarrow> prints (fmt, args)"
  "prints (CHR ''%'' # CHR ''l'' # CHR ''l'' # CHR ''x'' # fmt, Num n # args) \<longleftrightarrow> prints (fmt, args)"
  "prints (CHR ''%'' # CHR ''l'' # CHR ''l'' # CHR ''u'' # fmt, Num n # args) \<longleftrightarrow> prints (fmt, args)"
  by (simp_all add: prints_def parse_spec_def convert_text_def Let_def less_eq_char_def split: Option.bind_split)

lemmas format_simps = format_cons format_nil format_str format_num

lemma header_prints: "list_all prints (exception_header r)"
  unfolding exception_header_def newline_def by (simp add: format_simps)

lemma details_print: "list_all prints (exception_details r cr2)"
  unfolding exception_details_def text_arg_def Let_def by (simp add: format_simps)

section \<open>Properties\<close>

text \<open>
  C30. Every format the exception handler uses gets an argument of the right kind for each of its
  conversions, for every trap frame: no \<open>va_arg\<close> of the report is undefined, and the handler
  ends with interrupts off.
\<close>

theorem exception_report_prints:
  "list_all prints (exception_report r cr2) \<and> \<not> bit (rflags (aos_system_exception r cr2 s)) 9"
proof
  show "list_all prints (exception_report r cr2)"
    using header_prints details_print by (simp add: exception_report_def newline_def format_simps)
  show "\<not> bit (rflags (aos_system_exception r cr2 s)) 9"
    by (simp add: aos_system_exception_def cli_def bit_simps)
qed

text \<open>
  The line that explains a page fault says of the error code what the processor defines: bit 0
  a protection violation, bit 1 a write, bit 2 user mode, bit 3 a reserved bit, bit 4 an
  instruction fetch.
\<close>

theorem page_fault_reason:
  assumes "int_no r = 14"
  shows "exception_details r cr2 ! 1 = (''Reason: %s, %s, %s%s%s'', snd (exception_details r cr2 ! 1))
    \<and> format_text crlf ''0x'' ''Reason: %s, %s, %s%s%s'' (snd (exception_details r cr2 ! 1)) =
      Some (''Reason: '' @ (if bit (err_code r) 0 then ''Protection violation'' else ''Non-present page'')
        @ '', '' @ (if bit (err_code r) 1 then ''Write'' else ''Read'')
        @ '', '' @ (if bit (err_code r) 2 then ''User-mode'' else ''Kernel-mode'')
        @ (if bit (err_code r) 3 then '', Reserved bit set'' else [])
        @ (if bit (err_code r) 4 then '', Instruction fetch'' else []))"
proof -
  have b: "(e AND 0x01 \<noteq> 0) = bit e 0" "(e AND 0x02 \<noteq> 0) = bit e 1" "(e AND 0x04 \<noteq> 0) = bit e 2"
    "(e AND 0x08 \<noteq> 0) = bit e 3" "(e AND 0x10 \<noteq> 0) = bit e 4" for e :: u64
    using and_exp_eq_0_iff_not_bit [of e 0] and_exp_eq_0_iff_not_bit [of e 1]
      and_exp_eq_0_iff_not_bit [of e 2] and_exp_eq_0_iff_not_bit [of e 3]
      and_exp_eq_0_iff_not_bit [of e 4] by simp_all
  have s: "format_text crlf ''0x'' (CHR ''%'' # CHR ''s'' # fmt) (text_arg c x y # args) =
      map_option ((@) (crlf (if c then x else y))) (format_text crlf ''0x'' fmt args)" for c x y fmt args
    by (cases "format_text crlf ''0x'' fmt args")
       (simp_all add: text_arg_def parse_spec_def convert_text_def Let_def less_eq_char_def)
  have c: "format_text crlf ''0x'' (c # fmt) args = map_option (Cons c) (format_text crlf ''0x'' fmt args)"
    if "c \<noteq> CHR ''%''" for c fmt args
    using that by simp
  show ?thesis
    unfolding exception_details_def Let_def using assms
    by (simp add: b s c del: format_text.simps(2))
qed

definition user_write_fault :: reg_trap_frame where
  "user_write_fault = \<lparr>r15 = 0, r14 = 0, r13 = 0, r12 = 0, r11 = 0, r10 = 0, r9 = 0, r8 = 0,
     rdi = 0, rsi = 0, rbp = 0, rbx = 0, rdx = 0, rcx = 0, rax = 0, int_no = 14, err_code = 7,
     rip = 0x400000, cs = 0x23, frflags = 0x202, rsp = 0, ss = 0x1B\<rparr>"

theorem page_fault_reason_witness:
  "format_text crlf ''0x'' ''Reason: %s, %s, %s%s%s'' (snd (exception_details user_write_fault 0x1000 ! 1)) =
     Some ''Reason: Protection violation, Write, User-mode''"
  using page_fault_reason [of user_write_fault "0x1000"]
  by (simp add: user_write_fault_def)

end
