(* ===== verification/Heap.thy ===== *)
theory Heap
  imports Avmf
begin

text \<open>
  The firmware heap of core.c on top of \<open>avmf_alloc\<close>: blocks with a packed header of 34 bytes
  (signature, size, two links), read and written at virtual addresses through the page tables,
  with the memory routines of builtints.S.
\<close>

unbundle bit_operations_syntax

section \<open>Memory at virtual addresses\<close>

text \<open>\<open>None\<close>: a page fault.\<close>

fun vst :: "u64 \<Rightarrow> u8 list \<Rightarrow> 'a pager_scheme \<Rightarrow> 'a pager_scheme option" where
  "vst v [] s = Some s"
| "vst v (b # bs) s =
     (case tr s v of
        None \<Rightarrow> None
      | Some (p, _) \<Rightarrow> vst (v + 1) bs (s\<lparr>mem := (mem s)(p := b)\<rparr>))"

fun vld :: "u64 \<Rightarrow> nat \<Rightarrow> 'a pager_scheme \<Rightarrow> u8 list option" where
  "vld v 0 s = Some []"
| "vld v (Suc n) s =
     (case tr s v of
        None \<Rightarrow> None
      | Some (p, _) \<Rightarrow> map_option (Cons (mem s p)) (vld (v + 1) n s))"

text \<open>\<open>rep movsb\<close>, one byte after the other.\<close>

fun memcpy :: "u64 \<Rightarrow> u64 \<Rightarrow> nat \<Rightarrow> 'a pager_scheme \<Rightarrow> 'a pager_scheme option" where
  "memcpy d src 0 s = Some s"
| "memcpy d src (Suc n) s = do {
     bs \<leftarrow> vld src 1 s;
     s \<leftarrow> vst d bs s;
     memcpy (d + 1) (src + 1) n s }"

text \<open>
  \<open>memset\<close> of builtints.S. The fill pattern, and not the number of quadwords, is in the count
  register when \<open>rep stosq\<close> runs: a zero byte writes nothing, any other byte writes at least
  0x0101010101010101 quadwords, which no address space holds (\<open>None\<close>).
\<close>

definition memset :: "u64 \<Rightarrow> u8 \<Rightarrow> nat \<Rightarrow> 'a pager_scheme \<Rightarrow> 'a pager_scheme option" where
  "memset d c n s = (if n = 0 \<or> c = 0 then Some s else None)"

section \<open>Blocks\<close>

definition ALLOC_HDR_SIG :: "u8 list" where
  "ALLOC_HDR_SIG = [0x50, 0x46, 0x49, 0x5F, 0x41, 0x4C, 0x4C, 0x4F, 0x43, 0x00]"

definition ALLOC_HDR_SIG_LEN :: nat where "ALLOC_HDR_SIG_LEN = 10"

text \<open>Offsets and size of the packed \<open>struct alloc_hdr\<close>.\<close>

definition hdr_size_off :: u64 where "hdr_size_off = 10"
definition hdr_nxt_off :: u64 where "hdr_nxt_off = 18"
definition hdr_prev_off :: u64 where "hdr_prev_off = 26"
definition alloc_hdr_size :: u64 where "alloc_hdr_size = 34"

lemmas hdr_defs = hdr_size_off_def hdr_nxt_off_def hdr_prev_off_def alloc_hdr_size_def

definition fmalloc :: "u64 \<Rightarrow> ('a pager_scheme, u64) op" where
  "fmalloc nbytes s = do {
     ((out, _), s) \<leftarrow> avmf_alloc (nbytes + alloc_hdr_size) MALLOC_TYPE_USER (ucast (PAGE_PRESENT OR PAGE_RW)) s;
     if out = 0 then Some (out, s)
     else do {
       s \<leftarrow> vst out ALLOC_HDR_SIG s;
       s \<leftarrow> vst (out + hdr_size_off) (le_bytes 8 nbytes) s;
       s \<leftarrow> vst (out + hdr_nxt_off) (le_bytes 8 (0 :: u64)) s;
       s \<leftarrow> vst (out + hdr_prev_off) (le_bytes 8 (0 :: u64)) s;
       Some (out + alloc_hdr_size, s) } }"

definition flink :: "u64 \<Rightarrow> u64 \<Rightarrow> ('a pager_scheme, unit) op" where
  "flink ptr1 ptr2 s = do {
     let hdr1 = ptr1 - alloc_hdr_size;
     let hdr2 = ptr2 - alloc_hdr_size;
     s \<leftarrow> vst (hdr1 + hdr_nxt_off) (le_bytes 8 hdr2) s;
     s \<leftarrow> vst (hdr2 + hdr_prev_off) (le_bytes 8 hdr1) s;
     Some ((), s) }"

partial_function (option) ffree_from :: "u64 \<Rightarrow> 'a pager_scheme \<Rightarrow> (unit \<times> 'a pager_scheme) option" where
  "ffree_from hdr s =
     (if hdr = 0 then Some ((), s)
      else Option.bind (vld hdr ALLOC_HDR_SIG_LEN s) (\<lambda>sig.
        if sig \<noteq> ALLOC_HDR_SIG then Some ((), s)
        else Option.bind (vld (hdr + hdr_nxt_off) 8 s) (\<lambda>nxt.
          Option.bind (avmf_free hdr s) (\<lambda>(_, s). ffree_from (le_word nxt) s))))"

definition ffree :: "u64 \<Rightarrow> ('a pager_scheme, unit) op" where
  "ffree ptr = ffree_from (ptr - alloc_hdr_size)"

definition fcalloc :: "u64 \<Rightarrow> u64 \<Rightarrow> ('a pager_scheme, u64) op" where
  "fcalloc nmemb nbytes s = do {
     (out, s) \<leftarrow> fmalloc (nmemb * nbytes) s;
     if out = 0 then Some (out, s)
     else do {
       s \<leftarrow> memset out 0 (unat (nbytes * nmemb)) s;
       Some (out, s) } }"

definition frealloc :: "u64 \<Rightarrow> u64 \<Rightarrow> ('a pager_scheme, u64) op" where
  "frealloc ptr new_size s = do {
     let hdr = ptr - alloc_hdr_size;
     sig \<leftarrow> vld hdr ALLOC_HDR_SIG_LEN s;
     if sig \<noteq> ALLOC_HDR_SIG then Some (0, s)
     else do {
       (out, s) \<leftarrow> fmalloc new_size s;
       if out = 0 then Some (out, s)
       else do {
         old \<leftarrow> vld (hdr + hdr_size_off) 8 s;
         s \<leftarrow> memcpy out ptr (unat (le_word old :: u64)) s;
         (_, s) \<leftarrow> ffree ptr s;
         Some (out, s) } } }"

section \<open>Writing to data pages\<close>

text \<open>Memory that agrees on the tables has the same translation and is as well-formed.\<close>

lemma same_tables:
  assumes "\<forall>u \<in> tables m rt. \<forall>k < 512. ent m' u k = ent m u k"
  shows "path is \<Longrightarrow> length is \<le> 3 \<Longrightarrow> reach m' rt is = reach m rt is"
    and "translate m' rt v = translate m rt v"
proof -
  show "path is \<Longrightarrow> length is \<le> 3 \<Longrightarrow> reach m' rt is = reach m rt is" for "is"
  proof (induction "is" rule: rev_induct)
    case Nil
    then show ?case by simp
  next
    case (snoc k "is")
    then have IH: "reach m' rt is = reach m rt is"
      by auto
    show ?case
    proof (cases "reach m rt is")
      case None
      then show ?thesis
        using IH by (simp add: reach_append)
    next
      case (Some u)
      then have "u \<in> tables m rt"
        using snoc.prems by (intro tablesI) auto
      then show ?thesis
        using IH Some assms snoc.prems by (simp add: reach_append Let_def)
    qed
  qed
  have "leaf m' rt (vpath v) = leaf m rt (vpath v)"
  proof (rule leaf_cong)
    fix n u
    assume n: "n < length (vpath v)" and u: "reach m rt (take n (vpath v)) = Some u"
    have "path (take n (vpath v))" "length (take n (vpath v)) \<le> 3"
      using n by (simp_all add: path_take)
    moreover have "vpath v ! n < 512"
      using n vpath_path [of v] unfolding path_def by (metis nth_mem)
    ultimately show "ent m' u (vpath v ! n) = ent m u (vpath v ! n)"
      using assms tablesI [OF _ _ u] by blast
  qed
  then show "translate m' rt v = translate m rt v"
    by (simp add: translate_def)
qed

lemma same_tables_tree:
  assumes same: "\<forall>u \<in> tables m rt. \<forall>k < 512. ent m' u k = ent m u k" and tree: "tree m rt"
  shows "tables m' rt = tables m rt" and "tree m' rt"
proof -
  note r = same_tables(1) [OF same]
  show t: "tables m' rt = tables m rt"
    unfolding tables_def by (auto simp: r)
  have e: "ent m' u k = ent m u k" if "reach m rt is = Some u" "path is" "length is \<le> 2" "k < 512" for u k "is"
    using same that tablesI [of "is" m rt u] by simp
  show "tree m' rt"
    unfolding tree_def
  proof (intro conjI allI impI, goal_cases)
    case (1 "is" js t)
    then have "reach m rt is = Some t" "reach m rt js = Some t"
      using r [of "is"] r [of js] by auto
    then show ?case
      using 1 tree_unique [OF tree, of "is" js t] by blast
  next
    case (2 "is" i t)
    then have "reach m rt is = Some t"
      using r [of "is"] by auto
    moreover from this 2 have "ent m' t i = ent m t i"
      using e [of "is" t i] by simp
    ultimately have "reach m rt is = Some t" "ent m' t i = ent m t i"
      by simp_all
    then show ?case
      using 2 tree_entry(1) [OF tree, of "is" i t] by simp
  next
    case (3 "is" i t)
    then have "reach m rt is = Some t"
      using r [of "is"] by auto
    moreover from this 3 have "ent m' t i = ent m t i"
      using e [of "is" t i] by simp
    ultimately have "reach m rt is = Some t" "ent m' t i = ent m t i"
      by simp_all
    then show ?case
      using 3 tree_entry(2) [OF tree, of "is" i t] by simp
  qed
qed

lemma unat_in_page:
  assumes "p < BITMAP_SIZE" and "k < 4096"
  shows "unat (frame p + of_nat k) = p * 4096 + k"
  using assms by (subst unat_plus_less) (simp_all add: unat_frame unat_of_nat_small BITMAP_SIZE_def)

lemma data_write:
  assumes ok: "pager_ok s" and p: "data_page p s" and k: "k < 4096"
    and t: "t = s\<lparr>mem := (mem s)(frame p + of_nat k := b)\<rparr>"
  shows "pager_ok t" and "tr t = tr s" and "data_page p t"
    and "tables (mem t) (root t) = tables (mem s) (root s)"
proof -
  have r: "root t = root s"
    by (simp add: t root_def)
  have pB: "p < BITMAP_SIZE"
    using p by (simp add: data_page_def)
  have same: "\<forall>u \<in> tables (mem s) (root s). \<forall>j < 512. ent (mem t) u j = ent (mem s) u j"
  proof (intro ballI allI impI)
    fix u j
    assume u: "u \<in> tables (mem s) (root s)" and j: "j < (512 :: nat)"
    then obtain q where q: "u = frame q" "q < BITMAP_SIZE" "q \<noteq> p"
      using ok p used_bound [of s] unfolding pager_ok_def data_page_def by blast
    have "mem t (frame q + 8 * of_nat j + of_nat i) = mem s (frame q + 8 * of_nat j + of_nat i)" if i: "i < 8" for i
    proof -
      have "frame q + 8 * of_nat j + of_nat i = (frame q + of_nat (8 * j + i) :: u64)"
        by simp
      moreover have "unat (frame q + of_nat (8 * j + i)) \<noteq> unat (frame p + of_nat k)"
        using unat_in_page [OF q(2), of "8 * j + i"] unat_in_page [OF pB k] i j k q(3)
        by (cases p q rule: linorder_cases) linarith+
      ultimately have "frame q + 8 * of_nat j + of_nat i \<noteq> frame p + of_nat k"
        by metis
      then show ?thesis
        by (simp add: t)
    qed
    then show "ent (mem t) u j = ent (mem s) u j"
      unfolding q(1) ent_def by (rule ld64_cong)
  qed
  have tree: "tree (mem s) (root s)"
    using ok by (simp add: pager_ok_def)
  note st = same_tables_tree [OF same tree]
  show "tr t = tr s"
    using same_tables(2) [OF same] by (simp add: fun_eq_iff tr_def r)
  show "data_page p t" and "tables (mem t) (root t) = tables (mem s) (root s)"
    using p st by (simp_all add: data_page_def r)
  have "used t = used s" "phys_ok t = phys_ok s" "pager_ready t = pager_ready s"
    by (simp_all add: t used_def phys_ok_def)
  then show "pager_ok t"
    using ok st by (simp add: pager_ok_def r)
qed

lemma vst_page:
  "pager_ok s \<Longrightarrow> data_page p s \<Longrightarrow> o1 + length bs \<le> 4096 \<Longrightarrow>
   (\<And>k. k < length bs \<Longrightarrow> \<exists>f. tr s (v + of_nat k) = Some (frame p + of_nat (o1 + k), f)) \<Longrightarrow>
   \<exists>t. vst v bs s = Some t \<and> t = s\<lparr>mem := st_bytes (mem s) (frame p + of_nat o1) bs\<rparr>
     \<and> pager_ok t \<and> data_page p t \<and> tr t = tr s"
proof (induction bs arbitrary: s v o1)
  case Nil
  then show ?case
    by simp
next
  case (Cons b bs)
  let ?s = "s\<lparr>mem := (mem s)(frame p + of_nat o1 := b)\<rparr>"
  have o1: "o1 < 4096"
    using Cons.prems(3) by simp
  note w = data_write [OF Cons.prems(1,2) o1 refl, of b]
  obtain f where f: "tr s v = Some (frame p + of_nat o1, f)"
    using Cons.prems(4) [of 0] by auto
  have "\<exists>f. tr ?s (v + 1 + of_nat k) = Some (frame p + of_nat (Suc o1 + k), f)" if "k < length bs" for k
    using Cons.prems(4) [of "Suc k"] that w(2) by (simp add: add.assoc)
  moreover have "Suc o1 + length bs \<le> 4096"
    using Cons.prems(3) by simp
  ultimately obtain t where
    t: "vst (v + 1) bs ?s = Some t" "t = ?s\<lparr>mem := st_bytes (mem ?s) (frame p + of_nat (Suc o1)) bs\<rparr>"
      "pager_ok t" "data_page p t" "tr t = tr ?s"
    using Cons.IH [OF w(1,3), of "Suc o1" "v + 1"] by blast
  then have "t = s\<lparr>mem := st_bytes (mem s) (frame p + of_nat o1) (b # bs)\<rparr>"
    by (simp add: ac_simps)
  then show ?case
    using t f w(2) by (intro exI [of _ t]) simp
qed

lemma vld_page:
  "(\<And>k. k < n \<Longrightarrow> \<exists>f. tr s (v + of_nat k) = Some (frame p + of_nat (o1 + k), f)) \<Longrightarrow>
   vld v n s = Some (ld_bytes (mem s) (frame p + of_nat o1) n)"
proof (induction n arbitrary: v o1)
  case 0
  then show ?case by simp
next
  case (Suc n)
  obtain f where f: "tr s v = Some (frame p + of_nat o1, f)"
    using Suc.prems [of 0] by auto
  have "\<exists>f. tr s (v + 1 + of_nat k) = Some (frame p + of_nat (Suc o1 + k), f)" if "k < n" for k
    using Suc.prems [of "Suc k"] that by (simp add: add.assoc)
  from Suc.IH [OF this] show ?case
    using f by (simp add: ac_simps)
qed

section \<open>Properties\<close>

text \<open>
  \<open>fcalloc\<close> does not clear its block: it is \<open>fmalloc\<close> of the product, on every state, because
  the \<open>memset\<close> it calls writes nothing when the byte is zero.
\<close>

theorem fcalloc_is_fmalloc: "fcalloc nmemb nbytes s = fmalloc (nmemb * nbytes) s"
  by (cases "fmalloc (nmemb * nbytes) s") (auto simp: fcalloc_def memset_def)

text \<open>Bytes of one page.\<close>

lemma page_far:
  assumes p: "p < BITMAP_SIZE" and sep: "i + length bs \<le> j \<or> j + n \<le> i"
    and small: "i + length bs \<le> 64" "j + n \<le> 64"
  shows "ld_bytes (st_bytes m (frame p + of_nat i) bs) (frame p + of_nat j) n = ld_bytes m (frame p + of_nat j) n"
proof (rule ld_st_bytes_other)
  show "length bs < 2 ^ 64"
    using small(1) by simp
  fix k
  assume k: "k < n"
  have x: "unat (frame p + of_nat (j + k)) = p * 4096 + (j + k)" "unat (frame p + of_nat i) = p * 4096 + i"
    using small k by (intro unat_in_page [OF p]; simp)+
  have "p * 4096 + 4096 < 2 ^ 63"
    using p by (simp add: BITMAP_SIZE_def)
  then have "length bs \<le> unat (frame p + of_nat (j + k) - (frame p + of_nat i))"
    unfolding unat_sub_if' x using sep small k by auto
  then show "length bs \<le> unat (frame p + of_nat j + of_nat k - (frame p + of_nat i))"
    by (simp add: add.assoc)
qed

text \<open>The header \<open>fmalloc\<close> writes into a page that \<open>avmf_alloc\<close> mapped.\<close>

lemma fmalloc_header:
  assumes alloc: "avmf_alloc (nbytes + alloc_hdr_size) MALLOC_TYPE_USER (ucast (PAGE_PRESENT OR PAGE_RW)) s
      = Some ((v, ph), u)" and v: "v \<noteq> 0"
    and ok: "pager_ok u" and page: "data_page p u"
    and maps: "\<And>k. k < 34 \<Longrightarrow> tr u (v + of_nat k) = Some (frame p + of_nat k, a)"
  shows "\<exists>t. fmalloc nbytes s = Some (v + alloc_hdr_size, t) \<and> pager_ok t \<and> tr t = tr u
    \<and> vld v ALLOC_HDR_SIG_LEN t = Some ALLOC_HDR_SIG
    \<and> vld (v + hdr_size_off) 8 t = Some (le_bytes 8 nbytes)
    \<and> vld (v + hdr_nxt_off) 8 t = Some (le_bytes 8 (0 :: u64))"
proof -
  have maps': "\<exists>f. tr w (v + of_nat j + of_nat k) = Some (frame p + of_nat (j + k), f)"
    if "k < n" "j + n \<le> 34" "tr w = tr u" for j k n and w :: "'a pager_scheme"
    using maps [of "j + k"] that by (simp add: add.assoc)
  have len: "length ALLOC_HDR_SIG = 10"
    by (simp add: ALLOC_HDR_SIG_def)
  obtain t1 where t1: "vst v ALLOC_HDR_SIG u = Some t1"
      "t1 = u\<lparr>mem := st_bytes (mem u) (frame p + of_nat 0) ALLOC_HDR_SIG\<rparr>"
      "pager_ok t1" "data_page p t1" "tr t1 = tr u"
    using vst_page [OF ok page, of 0 ALLOC_HDR_SIG v] maps' [of _ 10 0 u] by (auto simp: len)
  obtain t2 where t2: "vst (v + hdr_size_off) (le_bytes 8 nbytes) t1 = Some t2"
      "t2 = t1\<lparr>mem := st_bytes (mem t1) (frame p + of_nat 10) (le_bytes 8 nbytes)\<rparr>"
      "pager_ok t2" "data_page p t2" "tr t2 = tr t1"
    using vst_page [OF t1(3,4), of 10 "le_bytes 8 nbytes" "v + 10"] maps' [of _ 8 10 t1] t1(5)
    by (auto simp: hdr_size_off_def)
  obtain t3 where t3: "vst (v + hdr_nxt_off) (le_bytes 8 (0 :: u64)) t2 = Some t3"
      "t3 = t2\<lparr>mem := st_bytes (mem t2) (frame p + of_nat 18) (le_bytes 8 (0 :: u64))\<rparr>"
      "pager_ok t3" "data_page p t3" "tr t3 = tr t2"
    using vst_page [OF t2(3,4), of 18 "le_bytes 8 (0 :: u64)" "v + 18"] maps' [of _ 8 18 t2] t1(5) t2(5)
    by (auto simp: hdr_nxt_off_def)
  obtain t4 where t4: "vst (v + hdr_prev_off) (le_bytes 8 (0 :: u64)) t3 = Some t4"
      "t4 = t3\<lparr>mem := st_bytes (mem t3) (frame p + of_nat 26) (le_bytes 8 (0 :: u64))\<rparr>"
      "pager_ok t4" "data_page p t4" "tr t4 = tr t3"
    using vst_page [OF t3(3,4), of 26 "le_bytes 8 (0 :: u64)" "v + 26"] maps' [of _ 8 26 t3] t1(5) t2(5) t3(5)
    by (auto simp: hdr_prev_off_def)
  have tr4: "tr t4 = tr u"
    using t1(5) t2(5) t3(5) t4(5) by simp
  have far: "ld_bytes (st_bytes m (frame p + of_nat i) bs) (frame p + of_nat j) n = ld_bytes m (frame p + of_nat j) n"
    if "i + length bs \<le> j \<or> j + n \<le> i" "i + length bs \<le> 64" "j + n \<le> 64" for m i j n bs
    using page that by (intro page_far) (simp_all add: data_page_def)
  have rd: "vld (v + of_nat j) n t4 = Some (ld_bytes (mem t4) (frame p + of_nat j) n)" if "j + n \<le> 34" for j n
    using vld_page [of n t4 "v + of_nat j" p j] maps' [of _ n j t4] tr4 that by blast
  have same: "ld_bytes (st_bytes m (frame p + of_nat i) bs) (frame p + of_nat i) (length bs) = bs"
    if "length bs \<le> 64" for m i bs
    using that by (intro ld_st_bytes_same) simp
  let ?z = "le_bytes 8 (0 :: u64)"
  have m4: "mem t4 = st_bytes (st_bytes (st_bytes (st_bytes (mem u) (frame p + of_nat 0) ALLOC_HDR_SIG)
      (frame p + of_nat 10) (le_bytes 8 nbytes)) (frame p + of_nat 18) ?z) (frame p + of_nat 26) ?z"
    by (simp only: t4(2) t3(2) t2(2) t1(2)) simp
  have "ld_bytes (mem t4) (frame p + of_nat 0) 10 = ALLOC_HDR_SIG"
    unfolding m4 using same [of ALLOC_HDR_SIG _ 0]
    by (simp add: far [where j = 0, simplified] len del: of_nat_numeral)
  then have sig: "vld v ALLOC_HDR_SIG_LEN t4 = Some ALLOC_HDR_SIG"
    using rd [of 0 10] by (simp add: ALLOC_HDR_SIG_LEN_def)
  have "ld_bytes (mem t4) (frame p + of_nat 10) 8 = le_bytes 8 nbytes"
    unfolding m4 using same [of "le_bytes 8 nbytes" _ 10]
    by (simp add: far len del: of_nat_0 of_nat_numeral)
  then have sz: "vld (v + hdr_size_off) 8 t4 = Some (le_bytes 8 nbytes)"
    using rd [of 10 8] by (simp add: hdr_size_off_def)
  have "ld_bytes (mem t4) (frame p + of_nat 18) 8 = ?z"
    unfolding m4 using same [of ?z _ 18]
    by (simp add: far len del: of_nat_0 of_nat_numeral)
  then have nx: "vld (v + hdr_nxt_off) 8 t4 = Some ?z"
    using rd [of 18 8] by (simp add: hdr_nxt_off_def)
  have "fmalloc nbytes s = Some (v + alloc_hdr_size, t4)"
    using alloc v t1(1) t2(1) t3(1) t4(1) by (simp add: fmalloc_def)
  then show ?thesis
    using t4(3) tr4 sig sz nx by blast
qed

end
