(* ===== verification/Acpi.thy ===== *)
theory Acpi
  imports Heap
begin

text \<open>
  The ACPI tables of acpi.c: finding the root pointer in low memory, walking the root table, and
  what is kept of the tables it names. Tables are read where they are, through the direct map and
  the page tables, so a table outside the mapped memory is a page fault (\<open>None\<close>). The packed
  structures of acpi.h are lists of fields with their sizes.
\<close>

unbundle bit_operations_syntax

section \<open>Packed structures\<close>

type_synonym layout = "(string \<times> nat) list"

fun offset_of :: "string \<Rightarrow> layout \<Rightarrow> nat" where
  "offset_of f [] = 0"
| "offset_of f ((g, n) # l) = (if f = g then 0 else n + offset_of f l)"

definition sizeof :: "layout \<Rightarrow> nat" where
  "sizeof l = sum_list (map snd l)"

definition acpi_rsdp_descriptor :: layout where
  "acpi_rsdp_descriptor = [(''signature'', 8), (''checksum'', 1), (''oem_id'', 6), (''revision'', 1),
     (''rsdt_address'', 4)]"

definition acpi_rsdp_descriptor_v2 :: layout where
  "acpi_rsdp_descriptor_v2 = acpi_rsdp_descriptor
     @ [(''length'', 4), (''xsdt_address'', 8), (''extended_checksum'', 1), (''reserved'', 3)]"

definition acpi_sdt_header :: layout where
  "acpi_sdt_header = [(''signature'', 4), (''length'', 4), (''revision'', 1), (''checksum'', 1),
     (''oem_id'', 6), (''oem_table_id'', 8), (''oem_revision'', 4), (''creator_id'', 4),
     (''creator_revision'', 4)]"

definition acpi_generic_address_structure :: layout where
  "acpi_generic_address_structure = [(''address_space'', 1), (''bit_width'', 1), (''bit_offset'', 1),
     (''access_size'', 1), (''address'', 8)]"

definition acpi_fadt :: layout where
  "acpi_fadt = acpi_sdt_header @ [(''firmware_ctrl'', 4), (''dsdt'', 4), (''reserved'', 1),
     (''preferred_pm_profile'', 1), (''sci_int'', 2), (''smi_cmd'', 4), (''acpi_enable'', 1),
     (''acpi_disable'', 1), (''s4bios_req'', 1), (''pstate_control'', 1), (''pm1a_evt_blk'', 4),
     (''pm1b_evt_blk'', 4), (''pm1a_cnt_blk'', 4), (''pm1b_cnt_blk'', 4), (''pm2_cnt_blk'', 4),
     (''pm_tmr_blk'', 4), (''gpe0_blk'', 4), (''gpe1_blk'', 4), (''pm1_evt_len'', 1),
     (''pm1_cnt_len'', 1), (''pm2_cnt_len'', 1), (''pm_tmr_len'', 1), (''gpe0_len'', 1),
     (''gpe1_len'', 1), (''gpe1_base'', 1), (''c_state_cnt'', 1), (''worst_c2_latency'', 2),
     (''worst_c3_latency'', 2), (''flush_sz'', 2), (''flush_stride'', 2), (''duty_offset'', 1),
     (''duty_width'', 1), (''day_alarm'', 1), (''month_alarm'', 1), (''century'', 1),
     (''boot_arch_flags'', 2), (''reserved2'', 1), (''flags'', 4),
     (''reset_reg'', sizeof acpi_generic_address_structure), (''reset_val'', 1), (''reserved3'', 3),
     (''x_firmware_cnt'', 8), (''x_dsdt'', 8),
     (''x_pm1a_evt_blk'', sizeof acpi_generic_address_structure),
     (''x_pm1b_evt_blk'', sizeof acpi_generic_address_structure),
     (''x_pm1a_cnt_blk'', sizeof acpi_generic_address_structure),
     (''x_pm1b_cnt_blk'', sizeof acpi_generic_address_structure),
     (''x_pm2_cnt_blk'', sizeof acpi_generic_address_structure),
     (''x_pm_tmr_blk'', sizeof acpi_generic_address_structure),
     (''x_gpe0_blk'', sizeof acpi_generic_address_structure),
     (''x_gpe1_blk'', sizeof acpi_generic_address_structure)]"

definition acpi_mcfg_entry :: layout where
  "acpi_mcfg_entry = [(''base_addr'', 8), (''pcie_segment'', 2), (''start_bus'', 1), (''end_bus'', 1),
     (''reserved'', 4)]"

definition acpi_mcfg :: layout where
  "acpi_mcfg = acpi_sdt_header @ [(''reserved'', 8)]"

definition acpi_madt :: layout where
  "acpi_madt = acpi_sdt_header @ [(''lapic_addr'', 4), (''flags'', 4)]"

definition acpi_madt_lapic_entry :: layout where
  "acpi_madt_lapic_entry = [(''type'', 1), (''length'', 1), (''acpi_processor_id'', 1), (''apic_id'', 1),
     (''flags'', 4)]"

text \<open>The address of a field.\<close>

definition fld :: "u64 \<Rightarrow> layout \<Rightarrow> string \<Rightarrow> u64" where
  "fld p l f = p + of_nat (offset_of f l)"

lemmas layout_defs = acpi_rsdp_descriptor_def acpi_rsdp_descriptor_v2_def acpi_sdt_header_def
  acpi_generic_address_structure_def acpi_fadt_def acpi_mcfg_entry_def acpi_mcfg_def acpi_madt_def
  acpi_madt_lapic_entry_def

lemma layout_sizes [simp]:
  "sizeof acpi_rsdp_descriptor = 20" "sizeof acpi_rsdp_descriptor_v2 = 36" "sizeof acpi_sdt_header = 36"
  "sizeof acpi_mcfg_entry = 16" "sizeof acpi_mcfg = 44" "sizeof acpi_madt = 44"
  "sizeof acpi_madt_lapic_entry = 8" "sizeof acpi_fadt = 244"
  by code_simp+

lemma layout_fields [simp]:
  "fld p acpi_rsdp_descriptor ''revision'' = p + 15" "fld p acpi_rsdp_descriptor ''rsdt_address'' = p + 16"
  "fld p acpi_rsdp_descriptor_v2 ''xsdt_address'' = p + 24"
  "fld p acpi_sdt_header ''signature'' = p" "fld p acpi_sdt_header ''length'' = p + 4"
  "fld p acpi_fadt ''pm_tmr_blk'' = p + 76" "fld p acpi_fadt ''flags'' = p + 112"
  "fld p acpi_fadt ''reset_reg'' = p + 116" "fld p acpi_fadt ''reset_val'' = p + 128"
  "fld p acpi_madt ''lapic_addr'' = p + 36"
  "fld p acpi_madt_lapic_entry ''apic_id'' = p + 3" "fld p acpi_madt_lapic_entry ''flags'' = p + 4"
  "fld p acpi_mcfg_entry ''base_addr'' = p" "fld p acpi_mcfg_entry ''pcie_segment'' = p + 8"
  "fld p acpi_mcfg_entry ''start_bus'' = p + 10" "fld p acpi_mcfg_entry ''end_bus'' = p + 11"
  by (simp_all add: fld_def layout_defs sizeof_def)

section \<open>Reading memory\<close>

definition vrd8 :: "u64 \<Rightarrow> 'a pager_scheme \<Rightarrow> u8 option" where
  "vrd8 v s = map_option le_word (vld v 1 s)"

definition vrd16 :: "u64 \<Rightarrow> 'a pager_scheme \<Rightarrow> u16 option" where
  "vrd16 v s = map_option le_word (vld v 2 s)"

definition vrd32 :: "u64 \<Rightarrow> 'a pager_scheme \<Rightarrow> u32 option" where
  "vrd32 v s = map_option le_word (vld v 4 s)"

definition vrd64 :: "u64 \<Rightarrow> 'a pager_scheme \<Rightarrow> u64 option" where
  "vrd64 v s = map_option le_word (vld v 8 s)"

text \<open>\<open>memcmp\<close> of builtints.S with a constant, which stops at the first difference.\<close>

fun veq :: "u64 \<Rightarrow> u8 list \<Rightarrow> 'a pager_scheme \<Rightarrow> bool option" where
  "veq v [] s = Some True"
| "veq v (b # bs) s =
     (case tr s v of
        None \<Rightarrow> None
      | Some (p, _) \<Rightarrow> if mem s p = b then veq (v + 1) bs s else Some False)"

definition ascii :: "string \<Rightarrow> u8 list" where
  "ascii str = map of_char str"

section \<open>State\<close>

record acpi_state =
  mcfg_table :: u64
  madt_table :: u64
  fadt_table :: u64
  apic_ids :: "u8 list"
  apic_id_count :: u64
  pm_timer_port :: u32
  pm_timer_24bit :: bool

text \<open>The static variables before \<open>acpi_init\<close>.\<close>

definition acpi_zero :: acpi_state where
  "acpi_zero = \<lparr>mcfg_table = 0, madt_table = 0, fadt_table = 0, apic_ids = replicate 256 0,
     apic_id_count = 0, pm_timer_port = 0, pm_timer_24bit = True\<rparr>"

text \<open>A function that holds a lock, on a component's state beside the machine's.\<close>

definition holding :: "lock_id \<Rightarrow> ('x \<times> 'a mach_scheme, 'r) op \<Rightarrow> ('x \<times> 'a mach_scheme, 'r) op" where
  "holding l body = (\<lambda>(x, s). do {
     (flags, s) \<leftarrow> spin_lock_irqsave l s;
     (r, (x, s)) \<leftarrow> body (x, s);
     Some (r, (x, spin_unlock_irqrestore l flags s)) })"

lemma holding_free:
  "\<not> locks s l \<Longrightarrow> holding l body (x, s) =
     map_option (\<lambda>(r, y, t). (r, y, t\<lparr>locks := (locks t)(l := False), rflags := rflags s\<rparr>))
       (body (x, taken l s))"
  by (cases "body (x, taken l s)")
     (auto simp: holding_def spin_lock_irqsave_def spin_lock_def cli_def taken_def
        spin_unlock_irqrestore_def spin_unlock_def)

lemma holding_held: "locks s l \<Longrightarrow> holding l body (x, s) = None"
  by (simp add: holding_def spin_lock_irqsave_def spin_lock_def cli_def)

section \<open>Reading the state\<close>

definition acpi_get_mcfg :: "(acpi_state \<times> 'a mach_scheme, u64) op" where
  "acpi_get_mcfg = holding Acpi_lock (\<lambda>(a, s). Some (mcfg_table a, (a, s)))"

definition acpi_get_madt :: "(acpi_state \<times> 'a mach_scheme, u64) op" where
  "acpi_get_madt = holding Acpi_lock (\<lambda>(a, s). Some (madt_table a, (a, s)))"

text \<open>The table pointer is followed without a test.\<close>

definition acpi_get_lapic_base :: "(acpi_state \<times> 'a pager_scheme, u64) op" where
  "acpi_get_lapic_base = holding Acpi_lock (\<lambda>(a, s). do {
     addr \<leftarrow> vrd32 (fld (madt_table a) acpi_madt ''lapic_addr'') s;
     Some (ucast addr, (a, s)) })"

text \<open>The identifiers copied to the caller's array, and how many.\<close>

definition acpi_get_apic_info :: "(acpi_state \<times> 'a mach_scheme, u8 list \<times> u64) op" where
  "acpi_get_apic_info = holding Acpi_lock (\<lambda>(a, s).
     if length (apic_ids a) < unat (apic_id_count a) then None
     else Some ((take (unat (apic_id_count a)) (apic_ids a), apic_id_count a), (a, s)))"

section \<open>The root pointer\<close>

definition acpi_checksum :: "u64 \<Rightarrow> u32 \<Rightarrow> 'a pager_scheme \<Rightarrow> u8 option" where
  "acpi_checksum table len s = map_option (foldl (+) 0) (vld table (unat len) s)"

text \<open>
  The body of the search loops: \<open>None\<close> inside stands for going on, a value for the pointer that
  \<open>acpi_find_rsdp\<close> returns.
\<close>

definition rsdp_at :: "u64 \<Rightarrow> 'a pager_scheme \<Rightarrow> u64 option option" where
  "rsdp_at addr s = do {
     eq \<leftarrow> veq addr (ascii ''RSD PTR '') s;
     if \<not> eq then Some None
     else do {
       sum \<leftarrow> acpi_checksum addr 20 s;
       if sum \<noteq> 0 then Some None
       else do {
         rev \<leftarrow> vrd8 (fld addr acpi_rsdp_descriptor ''revision'') s;
         if 2 \<le> rev then do {
           sum \<leftarrow> acpi_checksum addr (of_nat (sizeof acpi_rsdp_descriptor_v2)) s;
           Some (Some (if sum \<noteq> 0 then 0 else addr)) }
         else Some (Some addr) } } }"

fun rsdp_scan :: "u64 list \<Rightarrow> 'a pager_scheme \<Rightarrow> u64 option option" where
  "rsdp_scan [] s = Some None"
| "rsdp_scan (addr # addrs) s = do {
     r \<leftarrow> rsdp_at addr s;
     case r of None \<Rightarrow> rsdp_scan addrs s | Some p \<Rightarrow> Some (Some p) }"

text \<open>The addresses of a loop that steps by 16.\<close>

definition every16 :: "u64 \<Rightarrow> nat \<Rightarrow> u64 list" where
  "every16 start n = map (\<lambda>i. start + 16 * of_nat i) [0..<n div 16]"

definition acpi_find_rsdp :: "'a pager_scheme \<Rightarrow> u64 option" where
  "acpi_find_rsdp s = do {
     ebda_seg \<leftarrow> vrd16 (0x40E + AOS_DIRECT_MAP_BASE) s;
     let ebda = push_bit 4 (ucast ebda_seg :: u32);
     r \<leftarrow> rsdp_scan (every16 (ucast ebda + AOS_DIRECT_MAP_BASE) 1024) s;
     case r of
       Some p \<Rightarrow> Some p
     | None \<Rightarrow> do {
         r \<leftarrow> rsdp_scan (every16 (0xE0000 + AOS_DIRECT_MAP_BASE) 0x20000) s;
         Some (case r of Some p \<Rightarrow> p | None \<Rightarrow> 0) } }"

section \<open>The tables\<close>

text \<open>
  \<open>None\<close>: a page fault, a store behind \<open>apic_ids\<close>, or an entry of length 0, at which the loop
  stays for ever.
\<close>

partial_function (option) madt_loop ::
  "u64 \<Rightarrow> u64 \<Rightarrow> acpi_state \<times> 'a pager_scheme \<Rightarrow> (unit \<times> acpi_state \<times> 'a pager_scheme) option" where
  "madt_loop ptr end_ptr as =
     (if ptr < end_ptr then
        Option.bind (vrd8 ptr (snd as)) (\<lambda>type.
        Option.bind (vrd8 (ptr + 1) (snd as)) (\<lambda>len.
        Option.bind
          (if type = 0 then do {
             fl \<leftarrow> vrd32 (fld ptr acpi_madt_lapic_entry ''flags'') (snd as);
             if fl AND 1 \<noteq> 0 then do {
               apic_id \<leftarrow> vrd8 (fld ptr acpi_madt_lapic_entry ''apic_id'') (snd as);
               if length (apic_ids (fst as)) \<le> unat (apic_id_count (fst as)) then None
               else Some ((fst as)\<lparr>apic_ids := (apic_ids (fst as))[unat (apic_id_count (fst as)) := apic_id],
                        apic_id_count := apic_id_count (fst as) + 1\<rparr>,
                      diag ''[ACPI : SMP] Core Found: APIC ID %d'' [Num (ucast apic_id)] (snd as)) }
             else Some as }
           else Some as)
          (\<lambda>as. madt_loop (ptr + ucast len) end_ptr as)))
      else Some ((), as))"

definition acpi_parse_madt :: "u64 \<Rightarrow> (acpi_state \<times> 'a pager_scheme, unit) op" where
  "acpi_parse_madt madt = (\<lambda>(a, s). do {
     len \<leftarrow> vrd32 (fld madt acpi_sdt_header ''length'') s;
     (_, (a, s)) \<leftarrow> madt_loop (madt + of_nat (sizeof acpi_madt)) (madt + ucast len) (a, s);
     Some ((), (a, diag ''[ACPI : SMP] Total APIC IDs: %d'' [Num (apic_id_count a)] s)) })"

definition acpi_timer_init :: "u64 \<Rightarrow> (acpi_state \<times> 'a pager_scheme, unit) op" where
  "acpi_timer_init fadt = (\<lambda>(a, s). do {
     port \<leftarrow> vrd32 (fld fadt acpi_fadt ''pm_tmr_blk'') s;
     let a = a\<lparr>pm_timer_port := port\<rparr>;
     fl \<leftarrow> vrd32 (fld fadt acpi_fadt ''flags'') s;
     let a = (if fl AND push_bit 8 1 \<noteq> 0 then a\<lparr>pm_timer_24bit := False\<rparr> else a);
     Some ((), (a, diag ''[ACPI] PM Timer initialized on port 0x%x'' [Num (ucast port)] s)) })"

definition acpi_parse_fadt :: "u64 \<Rightarrow> (acpi_state \<times> 'a pager_scheme, unit) op" where
  "acpi_parse_fadt fadt = acpi_timer_init fadt"

definition parsing_note :: string where
  "parsing_note = [CHR 0x0A, CHR 0x09] @ ''Parsing...''"

text \<open>What both loops of \<open>acpi_parse_rsdt\<close> do with the table at a virtual address.\<close>

definition acpi_table :: "nat \<Rightarrow> u64 \<Rightarrow> (acpi_state \<times> 'a pager_scheme, unit) op" where
  "acpi_table i sdt_hdr = (\<lambda>(a, s). do {
     c0 \<leftarrow> vrd8 sdt_hdr s;
     c1 \<leftarrow> vrd8 (sdt_hdr + 1) s;
     c2 \<leftarrow> vrd8 (sdt_hdr + 2) s;
     c3 \<leftarrow> vrd8 (sdt_hdr + 3) s;
     let s = diag ''[ACPI] Table %d has signature %c%c%c%c'' [Num (of_nat i), Num (scast c0),
       Num (scast c1), Num (scast c2), Num (scast c3)] s;
     mcfg \<leftarrow> veq sdt_hdr (ascii ''MCFG'') s;
     if mcfg then
       Some ((), (a\<lparr>mcfg_table := sdt_hdr\<rparr>, diag ''[ACPI] Found MCFG at %p'' [Num sdt_hdr] s))
     else do {
       madt \<leftarrow> veq sdt_hdr (ascii ''APIC'') s;
       if madt then
         acpi_parse_madt sdt_hdr
           (a\<lparr>madt_table := sdt_hdr\<rparr>, diag (''[ACPI] Found MADT at %p'' @ parsing_note) [Num sdt_hdr] s)
       else do {
         fadt \<leftarrow> veq sdt_hdr (ascii ''FACP'') s;
         if fadt then
           acpi_parse_fadt sdt_hdr
             (a\<lparr>fadt_table := sdt_hdr\<rparr>, diag (''[ACPI] Found FADT at %p'' @ parsing_note) [Num sdt_hdr] s)
         else Some ((), (a, s)) } } })"

text \<open>The loops themselves; \<open>entry i\<close> reads the \<open>i\<close>-th entry of the root table.\<close>

fun acpi_tables :: "(nat \<Rightarrow> 'a pager_scheme \<Rightarrow> u64 option) \<Rightarrow> nat list \<Rightarrow> (acpi_state \<times> 'a pager_scheme, unit) op" where
  "acpi_tables entry [] as = Some ((), as)"
| "acpi_tables entry (i # is) as = do {
     e \<leftarrow> entry i (snd as);
     (_, as) \<leftarrow> acpi_table i (e + AOS_DIRECT_MAP_BASE) as;
     acpi_tables entry is as }"

text \<open>\<open>int entries = (length - sizeof header) / width\<close>: the quotient is cut to 32 bits and signed.\<close>

definition root_entries :: "u32 \<Rightarrow> u64 \<Rightarrow> nat" where
  "root_entries len width = nat (sint (ucast ((ucast len - of_nat (sizeof acpi_sdt_header)) div width) :: u32))"

definition acpi_parse_rsdt :: "u64 \<Rightarrow> (acpi_state \<times> 'a pager_scheme, unit) op" where
  "acpi_parse_rsdt rsdp = (\<lambda>(a, s). do {
     rev \<leftarrow> vrd8 (fld rsdp acpi_rsdp_descriptor ''revision'') s;
     let s = diag ''[ACPI] RSDP Revision - %d'' [Num (ucast rev)] s;
     if 2 \<le> rev then do {
       xsdt_address \<leftarrow> vrd64 (fld rsdp acpi_rsdp_descriptor_v2 ''xsdt_address'') s;
       let xsdt = xsdt_address + AOS_DIRECT_MAP_BASE;
       len \<leftarrow> vrd32 (fld xsdt acpi_sdt_header ''length'') s;
       sum \<leftarrow> acpi_checksum xsdt len s;
       if sum \<noteq> 0 then Some ((), (a, diag ''[ACPI] Invalid XSDT checksum!'' [] s))
       else
         acpi_tables (\<lambda>i. vrd64 (xsdt + of_nat (sizeof acpi_sdt_header) + 8 * of_nat i))
           [0..<root_entries len 8]
           (a, diag ''[ACPI] Found %d XSDT tables'' [Num (of_nat (root_entries len 8))] s) }
     else do {
       rsdt_address \<leftarrow> vrd32 (fld rsdp acpi_rsdp_descriptor ''rsdt_address'') s;
       let rsdt = ucast rsdt_address + AOS_DIRECT_MAP_BASE;
       len \<leftarrow> vrd32 (fld rsdt acpi_sdt_header ''length'') s;
       sum \<leftarrow> acpi_checksum rsdt len s;
       if sum \<noteq> 0 then Some ((), (a, diag ''[ACPI] Invalid RSDT checksum!'' [] s))
       else
         acpi_tables (\<lambda>i s. map_option ucast (vrd32 (rsdt + of_nat (sizeof acpi_sdt_header) + 4 * of_nat i) s))
           [0..<root_entries len 4]
           (a, diag ''[ACPI] Found %d RSDT tables'' [Num (of_nat (root_entries len 4))] s) } })"

text \<open>The return without a root pointer leaves the lock taken and the interrupts off.\<close>

definition acpi_init :: "(acpi_state \<times> 'a pager_scheme, unit) op" where
  "acpi_init = (\<lambda>(a, s). do {
     (flags, s) \<leftarrow> spin_lock_irqsave Acpi_lock s;
     rsdp \<leftarrow> acpi_find_rsdp s;
     if rsdp = 0 then Some ((), (a, diag ''[ACPI] RSDP Descriptor Not Found!'' [] s))
     else do {
       let s = diag ''[ACPI] RSDP Descriptor found at %p'' [Num rsdp] s;
       (_, (a, s)) \<leftarrow> acpi_parse_rsdt rsdp (a, s);
       Some ((), (a, spin_unlock_irqrestore Acpi_lock flags s)) } })"

end
