(* ===== verification/Acpi_Timer.thy ===== *)
theory Acpi_Timer
  imports Acpi
begin

text \<open>
  Waiting: \<open>acpi_mdelay\<close> on the power management timer (acpi.c), which counts 24 or 32 bits wide and
  wraps around, and the time stamp counter routines of core.c that are calibrated with it.
\<close>

unbundle bit_operations_syntax

section \<open>The power management timer\<close>

definition acpi_timer_read :: "device \<Rightarrow> acpi_state \<Rightarrow> 'a mach_scheme \<Rightarrow> u32 \<times> 'a mach_scheme" where
  "acpi_timer_read dev a s = (if pm_timer_port a = 0 then (0, s) else inl dev (ucast (pm_timer_port a)) s)"

definition acpi_read_timer :: "device \<Rightarrow> (acpi_state \<times> 'a mach_scheme, u32) op" where
  "acpi_read_timer dev = holding Acpi_lock (\<lambda>(a, s).
     if pm_timer_port a = 0 then Some (0, (a, s))
     else (let (out, s) = inl dev (ucast (pm_timer_port a)) s in Some (out, (a, s))))"

text \<open>The ticks between two readings, as the loop computes them.\<close>

definition timer_delta :: "bool \<Rightarrow> u32 \<Rightarrow> u32 \<Rightarrow> u64" where
  "timer_delta b24 prev current =
     (if current < prev then
        (if b24 then ucast (current + 0x1000000 - prev)
         else ucast current + 0x100000000 - ucast prev)
      else ucast (current - prev))"

text \<open>\<open>None\<close>: the loop does not end.\<close>

partial_function (option) mdelay_loop ::
  "device \<Rightarrow> acpi_state \<Rightarrow> u64 \<Rightarrow> u64 \<Rightarrow> u32 \<Rightarrow> 'a mach_scheme \<Rightarrow> (unit \<times> 'a mach_scheme) option" where
  "mdelay_loop dev a ticks_needed elapsed prev s =
     (if elapsed < ticks_needed then
        mdelay_loop dev a ticks_needed
          (elapsed + timer_delta (pm_timer_24bit a) prev (fst (acpi_timer_read dev a s)))
          (fst (acpi_timer_read dev a s)) (snd (acpi_timer_read dev a s))
      else Some ((), s))"

definition acpi_mdelay :: "device \<Rightarrow> u64 \<Rightarrow> (acpi_state \<times> 'a mach_scheme, unit) op" where
  "acpi_mdelay dev ms = holding Acpi_lock (\<lambda>(a, s). do {
     let (start, s) = acpi_timer_read dev a s;
     (_, s) \<leftarrow> mdelay_loop dev a (ms * 3580) 0 start s;
     Some ((), (a, s)) })"

section \<open>The time stamp counter\<close>

record ftimer_state =
  tsc_ticks_per_ms :: u64
  rdtscp_supported :: bool

text \<open>Both instruction sequences read the counter; \<open>cpuid\<close> only serialises them.\<close>

definition ftimer_read_tsc :: "device \<Rightarrow> 'a mach_scheme \<Rightarrow> u64 \<times> 'a mach_scheme" where
  "ftimer_read_tsc dev s = (dev_tsc dev (io s), event Tsc s)"

definition ftimer_calibrate :: "device \<Rightarrow> (ftimer_state \<times> acpi_state \<times> 'a mach_scheme, unit) op" where
  "ftimer_calibrate dev = (\<lambda>(f, a, s). do {
     let (eax, ebx, ecx, edx) = dev_cpuid dev 0x80000001;
     let f = f\<lparr>rdtscp_supported := (edx AND push_bit 27 1 \<noteq> 0)\<rparr>;
     let (start, s) = ftimer_read_tsc dev s;
     (_, (a, s)) \<leftarrow> acpi_mdelay dev 10 (a, s);
     let (end, s) = ftimer_read_tsc dev s;
     let cycles_per_10ms = end - start;
     Some ((), (f\<lparr>tsc_ticks_per_ms := cycles_per_10ms div 10\<rparr>, a, s)) })"

partial_function (option) fdelay_loop ::
  "device \<Rightarrow> u64 \<Rightarrow> u64 \<Rightarrow> 'a mach_scheme \<Rightarrow> (unit \<times> 'a mach_scheme) option" where
  "fdelay_loop dev start ticks_needed s =
     (if fst (ftimer_read_tsc dev s) - start < ticks_needed
      then fdelay_loop dev start ticks_needed (snd (ftimer_read_tsc dev s))
      else Some ((), snd (ftimer_read_tsc dev s)))"

definition fdelay :: "device \<Rightarrow> u32 \<Rightarrow> (ftimer_state \<times> 'a mach_scheme, unit) op" where
  "fdelay dev ms = (\<lambda>(f, s).
     if tsc_ticks_per_ms f = 0 then Some ((), (f, s))
     else do {
       let (start, s) = ftimer_read_tsc dev s;
       (_, s) \<leftarrow> fdelay_loop dev start (ucast ms * tsc_ticks_per_ms f) s;
       Some ((), (f, s)) })"

section \<open>Counting across the wrap-around\<close>

lemma mod_advance:
  fixes x d m :: nat
  assumes "0 < d" and "d < m"
  shows "d = (if (x + d) mod m < x mod m then (x + d) mod m + m - x mod m else (x + d) mod m - x mod m)"
proof -
  have r: "x mod m < m"
    using assms by simp
  have e: "(x + d) mod m = (x mod m + d) mod m"
    by (simp add: mod_add_left_eq)
  show ?thesis
  proof (cases "x mod m + d < m")
    case True
    then show ?thesis
      unfolding e by simp
  next
    case False
    then have "(x mod m + d) mod m = (x mod m + d - m) mod m"
      by (intro le_mod_geq) simp
    also have "\<dots> = x mod m + d - m"
      by (rule mod_less) (use r assms in linarith)
    finally have "(x mod m + d) mod m = x mod m + d - m" .
    then show ?thesis
      unfolding e using r assms False by simp
  qed
qed

definition timer_width :: "acpi_state \<Rightarrow> nat" where
  "timer_width a = (if pm_timer_24bit a then 24 else 32)"

lemma timer_delta_ticks:
  assumes d: "x < y" "y < x + 2 ^ (if b24 then 24 else 32)"
  shows "timer_delta b24 (of_nat (x mod 2 ^ (if b24 then 24 else 32))) (of_nat (y mod 2 ^ (if b24 then 24 else 32)))
    = of_nat (y - x)"
proof -
  define m :: nat where "m = 2 ^ (if b24 then 24 else 32)"
  define l c where "l = x mod m" and "c = y mod m"
  have m: "m \<le> 2 ^ 32" "0 < m"
    by (auto simp: m_def)
  then have lc: "l < m" "c < m"
    by (simp_all add: l_def c_def)
  have s: "y - x = (if c < l then c + m - l else c - l)"
  proof -
    have "0 < y - x" "y - x < m" "x + (y - x) = y"
      using d by (auto simp: m_def [symmetric])
    then show ?thesis
      using mod_advance [of "y - x" m x] by (simp only: l_def c_def)
  qed
  have u: "unat (of_nat l :: u32) = l" "unat (of_nat c :: u32) = c"
    using lc m by (simp_all add: unat_of_nat_small)
  have less: "(of_nat c :: u32) < of_nat l \<longleftrightarrow> c < l"
    by (simp add: word_less_nat_alt u)
  have "unat (timer_delta b24 (of_nat l) (of_nat c)) = y - x"
  proof (cases "c < l")
    case False
    then have "unat (of_nat c - of_nat l :: u32) = c - l"
      by (simp add: unat_sub_if' u)
    then show ?thesis
      using False s lc m by (simp add: timer_delta_def less unsigned_ucast_eq take_bit_nat_eq_self)
  next
    case True
    show ?thesis
    proof (cases b24)
      case True
      then have M: "m = 0x1000000"
        by (simp add: m_def)
      have "unat (of_nat c + 0x1000000 :: u32) = c + 0x1000000"
        using lc u M by (subst unat_plus_less) simp_all
      then have "unat (of_nat c + 0x1000000 - of_nat l :: u32) = c + 0x1000000 - l"
        using lc M u by (simp add: unat_sub_if')
      then show ?thesis
        using True \<open>c < l\<close> s lc M by (simp add: timer_delta_def less unsigned_ucast_eq take_bit_nat_eq_self)
    next
      case False
      then have M: "m = 0x100000000"
        by (simp add: m_def)
      have v: "unat (ucast (of_nat l :: u32) :: u64) = l" "unat (ucast (of_nat c :: u32) :: u64) = c"
        using u lc M by (simp_all add: unsigned_ucast_eq take_bit_nat_eq_self)
      have "unat (ucast (of_nat c :: u32) + 0x100000000 :: u64) = c + 0x100000000"
        using lc v M by (subst unat_plus_less) simp_all
      then have "unat (ucast (of_nat c :: u32) + 0x100000000 - ucast (of_nat l :: u32) :: u64) = c + 0x100000000 - l"
        using lc M v by (simp add: unat_sub_if')
      then show ?thesis
        using False \<open>c < l\<close> s M by (simp add: timer_delta_def less)
    qed
  qed
  moreover have "y - x < 2 ^ 64"
    using s lc m by (auto split: if_splits)
  moreover from this have "unat (of_nat (y - x) :: u64) = y - x"
    by (intro unat_of_nat_small) simp
  ultimately have "timer_delta b24 (of_nat l) (of_nat c) = of_nat (y - x)"
    by (simp only: word_unat_eq_iff)
  then show ?thesis
    by (simp only: l_def c_def m_def)
qed

section \<open>The loop\<close>

text \<open>
  What is assumed of the timer: it counts \<open>ticks\<close> modulo its width, and between two readings it
  advances, by less than a full period.
\<close>

definition pm_timer :: "device \<Rightarrow> acpi_state \<Rightarrow> (io_event list \<Rightarrow> nat) \<Rightarrow> bool" where
  "pm_timer dev a ticks \<longleftrightarrow> pm_timer_port a \<noteq> 0
     \<and> (\<forall>h. dev_in32 dev h (ucast (pm_timer_port a)) = of_nat (ticks h mod 2 ^ timer_width a))
     \<and> (\<forall>h. ticks h < ticks (In32 (ucast (pm_timer_port a)) # h)
           \<and> ticks (In32 (ucast (pm_timer_port a)) # h) < ticks h + 2 ^ timer_width a)"

text \<open>The history after \<open>k\<close> readings.\<close>

definition readings :: "acpi_state \<Rightarrow> nat \<Rightarrow> io_event list \<Rightarrow> io_event list" where
  "readings a k h = replicate k (In32 (ucast (pm_timer_port a))) @ h"

lemma readings_simps [simp]:
  "readings a 0 h = h" "readings a (Suc k) h = In32 (ucast (pm_timer_port a)) # readings a k h"
  by (simp_all add: readings_def)

lemma ticks_mono:
  assumes "pm_timer dev a ticks"
  shows "ticks (readings a k h) + j \<le> ticks (readings a (k + j) h)"
proof (induction j)
  case (Suc j)
  have "ticks (readings a (k + j) h) < ticks (readings a (k + Suc j) h)"
    using assms by (simp add: pm_timer_def)
  with Suc show ?case
    by simp
qed simp

lemma mdelay_loop_ends:
  assumes timer: "pm_timer dev a ticks" and fits: "unat needed + 2 ^ 32 < 2 ^ 64"
    and now: "mach.io s = readings a (Suc k) h"
    and elapsed: "unat elapsed = ticks (readings a k h) - ticks h" "elapsed = of_nat (ticks (readings a k h) - ticks h)"
    and prev: "prev = of_nat (ticks (readings a k h) mod 2 ^ timer_width a)"
  shows "\<exists>n \<ge> k. mdelay_loop dev a needed elapsed prev s = Some ((), s\<lparr>io := readings a (Suc n) h\<rparr>)
    \<and> unat needed \<le> ticks (readings a n h) - ticks h
    \<and> (\<forall>j. k \<le> j \<and> j < n \<longrightarrow> ticks (readings a j h) - ticks h < unat needed)"
  using now elapsed prev
proof (induction "unat needed - unat elapsed" arbitrary: k elapsed prev s rule: less_induct)
  case less
  let ?T = "\<lambda>k. ticks (readings a k h)"
  show ?case
  proof (cases "elapsed < needed")
    case False
    then have "mdelay_loop dev a needed elapsed prev s = Some ((), s)"
      by (subst mdelay_loop.simps) simp
    moreover have "s = s\<lparr>io := readings a (Suc k) h\<rparr>"
      using less.prems(1) by simp
    moreover have "unat needed \<le> ?T k - ticks h"
      using False less.prems(2) by (simp add: word_less_nat_alt)
    ultimately show ?thesis
      by (metis le_refl not_le)
  next
    case True
    then have lt: "unat elapsed < unat needed"
      by (simp add: word_less_nat_alt)
    have adv: "?T k < ?T (Suc k)" "?T (Suc k) < ?T k + 2 ^ timer_width a"
      using timer by (simp_all add: pm_timer_def)
    have ge: "ticks h \<le> ?T k"
      using ticks_mono [OF timer, of 0 h k] by simp
    let ?s = "event (In32 (ucast (pm_timer_port a))) s"
    have rd: "acpi_timer_read dev a s = (of_nat (?T (Suc k) mod 2 ^ timer_width a), ?s)"
      using timer less.prems(1) by (simp add: acpi_timer_read_def inl_def pm_timer_def)
    have delta: "timer_delta (pm_timer_24bit a) prev (of_nat (?T (Suc k) mod 2 ^ timer_width a))
        = of_nat (?T (Suc k) - ?T k)"
      using timer_delta_ticks [of "?T k" "?T (Suc k)" "pm_timer_24bit a"] adv
      unfolding less.prems(4) timer_width_def by simp
    let ?e = "of_nat (?T (Suc k) - ticks h) :: u64"
    have e: "elapsed + of_nat (?T (Suc k) - ?T k) = ?e"
      unfolding less.prems(3) using adv(1) ge by (simp flip: of_nat_add)
    have w: "(2 :: nat) ^ timer_width a \<le> 2 ^ 32"
      by (simp add: timer_width_def)
    have "?T (Suc k) - ticks h < 2 ^ 64"
      using adv ge w lt less.prems(2) fits by linarith
    then have ue: "unat ?e = ?T (Suc k) - ticks h"
      by (intro unat_of_nat_small) simp
    have smaller: "unat needed - unat ?e < unat needed - unat elapsed"
      using lt ue less.prems(2) adv(1) ge by linarith
    have io: "mach.io ?s = readings a (Suc (Suc k)) h"
      using less.prems(1) by simp
    obtain n where n: "Suc k \<le> n"
        "mdelay_loop dev a needed ?e (of_nat (?T (Suc k) mod 2 ^ timer_width a)) ?s = Some ((), ?s\<lparr>io := readings a (Suc n) h\<rparr>)"
        "unat needed \<le> ?T n - ticks h" "\<forall>j. Suc k \<le> j \<and> j < n \<longrightarrow> ?T j - ticks h < unat needed"
      using less.hyps [OF smaller io ue refl refl] by blast
    have "mdelay_loop dev a needed elapsed prev s
        = mdelay_loop dev a needed ?e (of_nat (?T (Suc k) mod 2 ^ timer_width a)) ?s"
      by (subst mdelay_loop.simps) (simp only: True if_True rd fst_conv snd_conv delta e)
    also have "\<dots> = Some ((), s\<lparr>io := readings a (Suc n) h\<rparr>)"
      using n(2) by (simp add: event_def)
    finally have "mdelay_loop dev a needed elapsed prev s = Some ((), s\<lparr>io := readings a (Suc n) h\<rparr>)" .
    moreover have "?T j - ticks h < unat needed" if "k \<le> j" "j < n" for j
      using that n(4) lt less.prems(2) by (cases "j = k") auto
    ultimately show ?thesis
      using n(1,3) by (intro exI [of _ n]) auto
  qed
qed

lemma mdelay_stuck:
  "mdelay_loop dev a needed elapsed prev s = Some r \<Longrightarrow>
   pm_timer_port a = 0 \<longrightarrow> prev = 0 \<longrightarrow> \<not> elapsed < needed"
proof (induction dev a needed elapsed prev s r rule: mdelay_loop.raw_induct [rotated, consumes 1, case_names step])
  case (step rec dev a needed elapsed prev s r)
  have "timer_delta b 0 0 = 0" for b
    by (simp add: timer_delta_def)
  then show ?case
    using step by (cases r) (fastforce simp: acpi_timer_read_def split: if_splits)
qed

section \<open>Properties\<close>

text \<open>
  C35. \<open>acpi_mdelay\<close> returns, at the first reading at which at least \<open>3580 * ms\<close> ticks have passed
  since its first reading, however often the timer wraps around in between, for both widths of the
  timer; it does nothing else than read the port. (A timer that does not advance between two
  readings, or advances by a full period, is excluded; the product does not overflow.)
\<close>

theorem acpi_mdelay_waits:
  assumes timer: "pm_timer dev a ticks" and free: "\<not> locks s Acpi_lock"
    and fits: "unat ms * 3580 + 2 ^ 32 < 2 ^ 64"
  shows "\<exists>n. acpi_mdelay dev ms (a, s) = Some ((), (a, s\<lparr>io := readings a (Suc n) (io s)\<rparr>))
    \<and> unat ms * 3580 \<le> ticks (readings a n (io s)) - ticks (io s)
    \<and> (\<forall>j < n. ticks (readings a j (io s)) - ticks (io s) < unat ms * 3580)"
proof -
  let ?p = "ucast (pm_timer_port a) :: u16" and ?s = "taken Acpi_lock s"
  have needed: "unat (ms * 3580) = unat ms * 3580"
    using fits by (simp add: unat_word_ariths)
  let ?start = "of_nat (ticks (io s) mod 2 ^ timer_width a) :: u32"
  have rd: "acpi_timer_read dev a ?s = (?start, event (In32 ?p) ?s)"
    using timer by (simp add: acpi_timer_read_def inl_def pm_timer_def)
  obtain n where n: "mdelay_loop dev a (ms * 3580) 0 ?start (event (In32 ?p) ?s)
        = Some ((), (event (In32 ?p) ?s)\<lparr>io := readings a (Suc n) (io s)\<rparr>)"
      "unat ms * 3580 \<le> ticks (readings a n (io s)) - ticks (io s)"
      "\<forall>j < n. ticks (readings a j (io s)) - ticks (io s) < unat ms * 3580"
    using mdelay_loop_ends [OF timer, of "ms * 3580" "event (In32 ?p) ?s" 0 "io s" 0 ?start] fits
    unfolding needed by auto
  have "acpi_mdelay dev ms (a, s) = Some ((), (a, s\<lparr>io := readings a (Suc n) (io s)\<rparr>))"
    using free n(1) by (simp add: acpi_mdelay_def holding_free rd) (simp add: taken_def cli_def event_def fun_upd_idem)
  then show ?thesis
    using n(2,3) by blast
qed

text \<open>A 24-bit timer on port 0x608 that advances by 1000 ticks and is about to wrap around.\<close>

definition thousand_ticks :: "io_event list \<Rightarrow> nat" where
  "thousand_ticks h = 0xFFFF00 + 1000 * length h"

definition timer_device :: device where
  "timer_device = \<lparr>dev_in8 = (\<lambda>_ _. 0), dev_in16 = (\<lambda>_ _. 0),
     dev_in32 = (\<lambda>h _. of_nat (thousand_ticks h mod 2 ^ 24)), dev_mmio = (\<lambda>_ _. 0), dev_tsc = (\<lambda>_. 0),
     dev_cpuid = (\<lambda>_. (0, 0, 0, 0))\<rparr>"

definition timer_608 :: acpi_state where
  "timer_608 = acpi_zero\<lparr>pm_timer_port := 0x608\<rparr>"

definition idle_core :: mach where
  "idle_core = \<lparr>mem = (\<lambda>_. 0), io = [], klog = [], locks = (\<lambda>_. False), rflags = 0x202\<rparr>"

theorem acpi_mdelay_waits_witness:
  "acpi_mdelay timer_device 1 (timer_608, idle_core) = Some ((), (timer_608, idle_core\<lparr>io := replicate 5 (In32 0x608)\<rparr>))"
proof -
  have t: "pm_timer timer_device timer_608 thousand_ticks"
    by (simp add: pm_timer_def timer_width_def timer_608_def acpi_zero_def timer_device_def thousand_ticks_def)
  have l: "\<not> locks idle_core Acpi_lock"
    by (simp add: idle_core_def)
  obtain n where n: "acpi_mdelay timer_device 1 (timer_608, idle_core)
        = Some ((), (timer_608, idle_core\<lparr>io := readings timer_608 (Suc n) (io idle_core)\<rparr>))"
      "3580 \<le> thousand_ticks (readings timer_608 n (io idle_core)) - thousand_ticks (io idle_core)"
      "\<forall>j < n. thousand_ticks (readings timer_608 j (io idle_core)) - thousand_ticks (io idle_core) < 3580"
    using acpi_mdelay_waits [OF t l, of 1] by auto
  have k: "thousand_ticks (readings timer_608 j (io idle_core)) - thousand_ticks (io idle_core) = 1000 * j" for j
    by (simp add: thousand_ticks_def readings_def idle_core_def)
  have "4 \<le> n" "\<not> 4 < n"
    using n(2,3) unfolding k by auto
  then have "n = 4"
    by simp
  then show ?thesis
    using n(1) by (simp add: readings_def timer_608_def acpi_zero_def idle_core_def)
qed

text \<open>
  C33. Before \<open>acpi_init\<close> has found a timer, or on a board whose tables name none, \<open>acpi_mdelay\<close>
  never returns for any delay, with its lock held.
\<close>

theorem acpi_mdelay_hangs_without_timer:
  assumes "pm_timer_port a = 0" and "ms * 3580 \<noteq> 0"
  shows "acpi_mdelay dev ms (a, s) = None"
proof (cases "locks s Acpi_lock")
  case True
  then show ?thesis
    by (simp add: acpi_mdelay_def holding_held)
next
  case False
  have "mdelay_loop dev a (ms * 3580) 0 0 (taken Acpi_lock s) = None"
    using mdelay_stuck [of dev a "ms * 3580" 0 0 "taken Acpi_lock s"] assms
    by (cases "mdelay_loop dev a (ms * 3580) 0 0 (taken Acpi_lock s)") (auto simp: word_gt_0)
  then show ?thesis
    using False assms by (simp add: acpi_mdelay_def holding_free acpi_timer_read_def)
qed

theorem acpi_mdelay_hangs_without_timer_witness:
  "\<forall>s. acpi_mdelay timer_device 10 (acpi_zero, s) = None"
  by (intro allI acpi_mdelay_hangs_without_timer) (simp_all add: acpi_zero_def)

end
