(* ===== verification/Acpi_Tables.thy ===== *)
theory Acpi_Tables
  imports Acpi Memory_Manager
begin

text \<open>
  What the table code of acpi.c does with tables in physical memory: which root pointer it finds,
  which identifiers it collects from a MADT, where it never returns, and what it leaves behind when
  there is no root pointer.
\<close>

unbundle bit_operations_syntax

section \<open>Memory seen through the direct map\<close>

text \<open>The first \<open>n\<close> bytes of physical memory are mapped at the direct map.\<close>

definition direct :: "nat \<Rightarrow> 'a pager_scheme \<Rightarrow> bool" where
  "direct n s \<longleftrightarrow> (\<forall>p. unat p < n \<longrightarrow> (\<exists>f. tr s (p + AOS_DIRECT_MAP_BASE) = Some (p, f)))"

lemma unat_step:
  "unat (p :: u64) + Suc k < 2 ^ 64 \<Longrightarrow> unat (p + 1) = Suc (unat p)"
  by (subst unat_plus_less) simp_all

lemma vld_direct:
  "direct n s \<Longrightarrow> unat p + k \<le> n \<Longrightarrow> n < 2 ^ 64 \<Longrightarrow>
   vld (p + AOS_DIRECT_MAP_BASE) k s = Some (ld_bytes (mem s) p k)"
proof (induction k arbitrary: p)
  case 0
  then show ?case by simp
next
  case (Suc k)
  obtain f where f: "tr s (p + AOS_DIRECT_MAP_BASE) = Some (p, f)"
    using Suc.prems unfolding direct_def by fastforce
  have "unat (p + 1) = Suc (unat p)"
    using Suc.prems by (intro unat_step [of p k]) simp
  then have "vld (p + 1 + AOS_DIRECT_MAP_BASE) k s = Some (ld_bytes (mem s) (p + 1) k)"
    using Suc by simp
  then show ?case
    using f by (simp add: algebra_simps)
qed

lemma veq_direct:
  "direct n s \<Longrightarrow> unat p + length bs \<le> n \<Longrightarrow> n < 2 ^ 64 \<Longrightarrow>
   veq (p + AOS_DIRECT_MAP_BASE) bs s = Some (ld_bytes (mem s) p (length bs) = bs)"
proof (induction bs arbitrary: p)
  case Nil
  then show ?case by simp
next
  case (Cons b bs)
  obtain f where f: "tr s (p + AOS_DIRECT_MAP_BASE) = Some (p, f)"
    using Cons.prems unfolding direct_def by fastforce
  have "unat (p + 1) = Suc (unat p)"
    using Cons.prems by (intro unat_step [of p "length bs"]) simp
  then have "veq (p + 1 + AOS_DIRECT_MAP_BASE) bs s = Some (ld_bytes (mem s) (p + 1) (length bs) = bs)"
    using Cons by simp
  then show ?case
    using f by (simp add: algebra_simps)
qed

text \<open>Taking a lock changes neither memory nor tables.\<close>

lemma taken_tr [simp]: "tr (taken l s) = tr s" "root (taken l s) = root s"
  for s :: "'a pager_scheme"
  by (simp_all add: fun_eq_iff tr_def root_def taken_def cli_def)

lemma direct_taken [simp]: "direct n (taken l s) = direct n s"
  by (simp add: direct_def)

text \<open>The root pointer over physical memory.\<close>

definition rsdp_valid :: "memory \<Rightarrow> u64 \<Rightarrow> bool" where
  "rsdp_valid m p \<longleftrightarrow> ld_bytes m p 8 = ascii ''RSD PTR '' \<and> foldl (+) 0 (ld_bytes m p 20) = 0"

definition rsdp_result :: "memory \<Rightarrow> u64 \<Rightarrow> u64" where
  "rsdp_result m p = (if 2 \<le> m (p + 15) \<and> foldl (+) 0 (ld_bytes m p 36) \<noteq> 0 then 0
     else p + AOS_DIRECT_MAP_BASE)"

lemma rsdp_at_direct:
  assumes d: "direct n s" and p: "unat p + 36 \<le> n" "n < 2 ^ 64"
  shows "rsdp_at (p + AOS_DIRECT_MAP_BASE) s
    = Some (if rsdp_valid (mem s) p then Some (rsdp_result (mem s) p) else None)"
proof -
  have v: "vld (p + AOS_DIRECT_MAP_BASE) k s = Some (ld_bytes (mem s) p k)" if "k \<le> 36" for k
    using p that by (intro vld_direct [OF d]) auto
  have len: "length (ascii ''RSD PTR '') = 8"
    by (simp add: ascii_def)
  have e: "veq (p + AOS_DIRECT_MAP_BASE) (ascii ''RSD PTR '') s = Some (ld_bytes (mem s) p 8 = ascii ''RSD PTR '')"
    using veq_direct [OF d, of p "ascii ''RSD PTR ''"] p unfolding len by simp
  have "unat (p + 15) = unat p + 15"
    using p by (subst unat_plus_less) simp_all
  then have "vld (p + 15 + AOS_DIRECT_MAP_BASE) 1 s = Some (ld_bytes (mem s) (p + 15) 1)"
    using p by (intro vld_direct [OF d]) auto
  then have r: "vrd8 (p + AOS_DIRECT_MAP_BASE + 15) s = Some (mem s (p + 15))"
    by (simp add: vrd8_def ac_simps)
  show ?thesis
    by (simp add: rsdp_at_def e r acpi_checksum_def v rsdp_valid_def rsdp_result_def)
qed

lemma rsdp_scan_direct:
  assumes d: "direct n s" and n: "n < 2 ^ 64"
  shows "\<forall>p \<in> set ps. unat p + 36 \<le> n \<Longrightarrow>
    rsdp_scan (map (\<lambda>p. p + AOS_DIRECT_MAP_BASE) ps) s
      = Some (map_option (rsdp_result (mem s)) (find (rsdp_valid (mem s)) ps))"
  by (induction ps) (simp_all add: rsdp_at_direct [OF d _ n])

definition rsdp_places :: "memory \<Rightarrow> u64 list" where
  "rsdp_places m = every16 (ucast (push_bit 4 (ucast (ld16 m 0x40E)) :: u32)) 1024 @ every16 0xE0000 0x20000"

lemma every16_direct: "every16 (p + AOS_DIRECT_MAP_BASE) n = map (\<lambda>p. p + AOS_DIRECT_MAP_BASE) (every16 p n)"
  by (simp add: every16_def ac_simps)

lemma every16_bound:
  assumes "q \<in> set (every16 p n)" and "unat p + n < 2 ^ 64"
  shows "unat q < unat p + n"
proof -
  obtain i where i: "q = p + 16 * of_nat i" "i < n div 16"
    using assms(1) by (auto simp: every16_def)
  then have small: "16 * i < n"
    by linarith
  have "q = p + of_nat (16 * i)"
    using i by simp
  moreover have "unat (p + of_nat (16 * i)) = unat p + 16 * i"
  proof -
    have u: "unat (of_nat (16 * i) :: u64) = 16 * i"
      by (rule unat_of_nat_small) (use small assms(2) in simp)
    have "unat p + unat (of_nat (16 * i) :: u64) < 2 ^ LENGTH(64)"
      unfolding u using small assms(2) by simp
    from unat_plus_less [OF this] show ?thesis
      unfolding u .
  qed
  ultimately show ?thesis
    using small by simp
qed

lemma ebda_bound: "unat (ucast (push_bit 4 (ucast (seg :: u16)) :: u32) :: u64) \<le> 0xFFFF0"
proof -
  have "unat seg < 2 ^ 16"
    using unat_less_exp [of seg] by simp
  moreover from this have "unat (push_bit 4 (ucast seg) :: u32) = 16 * unat seg"
    by (simp add: push_bit_eq_mult unat_word_ariths unsigned_ucast_eq take_bit_nat_eq_self)
  ultimately show ?thesis
    by (simp add: unsigned_ucast_eq take_bit_nat_eq_self)
qed

lemma find_rsdp_direct:
  assumes d: "direct 0x110000 s"
  shows "acpi_find_rsdp s = Some (case find (rsdp_valid (mem s)) (rsdp_places (mem s)) of
     None \<Rightarrow> 0 | Some p \<Rightarrow> rsdp_result (mem s) p)"
proof -
  let ?e = "ucast (push_bit 4 (ucast (ld16 (mem s) 0x40E)) :: u32) :: u64"
  have "vld (0x40E + AOS_DIRECT_MAP_BASE) 2 s = Some (ld_bytes (mem s) 0x40E 2)"
    by (rule vld_direct [OF d]) simp_all
  then have seg: "vrd16 (0x40E + AOS_DIRECT_MAP_BASE) s = Some (ld16 (mem s) 0x40E)"
    by (simp add: vrd16_def ld16_def)
  have "\<forall>p \<in> set (every16 ?e 1024). unat p + 36 \<le> 0x110000"
    using every16_bound [of _ ?e 1024] ebda_bound [of "ld16 (mem s) 0x40E"] by fastforce
  moreover have "\<forall>p \<in> set (every16 0xE0000 0x20000). unat p + 36 \<le> 0x110000"
    using every16_bound [of _ "0xE0000" "0x20000"] by fastforce
  moreover have "find P (xs @ ys) = (case find P xs of None \<Rightarrow> find P ys | Some x \<Rightarrow> Some x)"
    for P and xs ys :: "u64 list"
    by (induction xs) auto
  ultimately show ?thesis
    by (simp add: acpi_find_rsdp_def seg every16_direct rsdp_scan_direct [OF d] rsdp_places_def
        split: option.split)
qed

section \<open>The interrupt controllers in the MADT\<close>

text \<open>An entry of the table is its type and what follows the length byte.\<close>

type_synonym madt_item = "u8 \<times> u8 list"

definition madt_bytes :: "madt_item list \<Rightarrow> u8 list" where
  "madt_bytes es = concat (map (\<lambda>(type, pl). type # of_nat (length pl + 2) # pl) es)"

definition madt_item_ok :: "madt_item \<Rightarrow> bool" where
  "madt_item_ok = (\<lambda>(type, pl). length pl + 2 < 256 \<and> (type = 0 \<longrightarrow> length pl = 6))"

text \<open>The identifiers of the enabled processors.\<close>

definition lapic_enabled :: "madt_item \<Rightarrow> bool" where
  "lapic_enabled = (\<lambda>(type, pl). type = 0 \<and> (le_word (drop 2 pl) :: u32) AND 1 \<noteq> 0)"

definition lapic_ids :: "madt_item list \<Rightarrow> u8 list" where
  "lapic_ids es = map (\<lambda>(_, pl). pl ! 1) (filter lapic_enabled es)"

definition core_found :: "u8 \<Rightarrow> string \<times> parg list" where
  "core_found i = (''[ACPI : SMP] Core Found: APIC ID %d'', [Num (ucast i)])"

text \<open>What the loop leaves: the identifiers behind the ones already known, a line for each.\<close>

definition with_ids :: "u8 list \<Rightarrow> acpi_state \<Rightarrow> acpi_state" where
  "with_ids ids a = a\<lparr>apic_ids := take (unat (apic_id_count a)) (apic_ids a) @ ids
       @ drop (unat (apic_id_count a) + length ids) (apic_ids a),
     apic_id_count := apic_id_count a + of_nat (length ids)\<rparr>"

definition with_lines :: "u8 list \<Rightarrow> 'a pager_scheme \<Rightarrow> 'a pager_scheme" where
  "with_lines ids s = s\<lparr>klog := rev (map core_found ids) @ klog s\<rparr>"

lemma vld_cong: "mem t = mem s \<Longrightarrow> tr t = tr s \<Longrightarrow> vld v n t = vld v n s"
  by (induction n arbitrary: v) (simp_all split: option.split)

lemma tr_lines [simp]: "tr (with_lines ids s) = tr s"
  by (rule ext) (simp add: tr_def root_def with_lines_def)

lemma mem_lines [simp]: "mem (with_lines ids s) = mem s"
  by (simp add: with_lines_def)

lemma vld_lines [simp]: "vld v n (with_lines ids s) = vld v n s"
  by (rule vld_cong) simp_all

lemma vld_append:
  "vld v (m + n) s = do { xs \<leftarrow> vld v m s; ys \<leftarrow> vld (v + of_nat m) n s; Some (xs @ ys) }"
proof (induction m arbitrary: v)
  case 0
  show ?case
    by (cases "vld v n s") simp_all
next
  case (Suc m)
  then show ?case
    by (auto split: option.split bind_split simp: algebra_simps)
qed

lemma vld_length: "vld v n s = Some bs \<Longrightarrow> length bs = n"
  by (induction n arbitrary: v bs) (auto split: option.splits)

lemma vld_part:
  assumes "vld v n s = Some bs" and "i + k \<le> n"
  shows "vld (v + of_nat i) k s = Some (take k (drop i bs))"
proof -
  obtain r where r: "n = i + (k + r)"
    using assms(2) by (metis le_iff_add add.assoc)
  then obtain xs ys zs where "vld v i s = Some xs" "vld (v + of_nat i) k s = Some ys" "bs = xs @ ys @ zs"
    using assms(1) unfolding r vld_append by (auto simp: vld_append)
  then show ?thesis
    using vld_length [of v i s xs] vld_length [of "v + of_nat i" k s ys] by simp
qed

lemma with_ids_Nil [simp]: "with_ids [] a = a"
  by (simp add: with_ids_def)

lemma with_lines_simps [simp]:
  "with_lines [] s = s" "with_lines ids (with_lines [i] s) = with_lines (i # ids) s"
  by (simp_all add: with_lines_def)

lemma with_ids_one:
  assumes "unat (apic_id_count a) < length (apic_ids a)"
  shows "a\<lparr>apic_ids := (apic_ids a)[unat (apic_id_count a) := i], apic_id_count := apic_id_count a + 1\<rparr> = with_ids [i] a"
  using assms by (simp add: with_ids_def upd_conv_take_nth_drop)

lemma with_ids_Cons:
  assumes "unat (apic_id_count a) + Suc (length ids) \<le> length (apic_ids a)" and "length (apic_ids a) < 2 ^ 64"
  shows "with_ids ids (with_ids [i] a) = with_ids (i # ids) a"
    and "unat (apic_id_count (with_ids [i] a)) = Suc (unat (apic_id_count a))"
    and "length (apic_ids (with_ids [i] a)) = length (apic_ids a)"
proof -
  show c: "unat (apic_id_count (with_ids [i] a)) = Suc (unat (apic_id_count a))"
    using assms by (simp add: with_ids_def unat_step [of _ "length ids"])
  show "length (apic_ids (with_ids [i] a)) = length (apic_ids a)"
    using assms by (simp add: with_ids_def)
  have "min (length (apic_ids a)) (unat (apic_id_count a)) = unat (apic_id_count a)"
    using assms by simp
  then show "with_ids ids (with_ids [i] a) = with_ids (i # ids) a"
    using c by (simp add: with_ids_def [of ids] with_ids_def [of "i # ids"])
      (simp add: with_ids_def add.commute)
qed

lemma take_drop_bytes:
  assumes "length pl = 6"
  shows "take 4 (drop 2 (pl @ r)) = drop 2 pl" and "take 1 (drop 1 (pl @ r)) = [pl ! 1]"
proof -
  obtain x0 x1 x2 x3 x4 x5 where "pl = [x0, x1, x2, x3, x4, x5]"
    using assms by (auto simp: length_Suc_conv numeral_eq_Suc)
  then show "take 4 (drop 2 (pl @ r)) = drop 2 pl" "take 1 (drop 1 (pl @ r)) = [pl ! 1]"
    by simp_all
qed

lemma ucast_byte: "k < 256 \<Longrightarrow> ucast (of_nat k :: u8) = (of_nat k :: u64)"
  by (simp add: unsigned_of_nat take_bit_nat_eq_self)

lemma ucast_half: "k < 2 ^ 32 \<Longrightarrow> ucast (of_nat k :: u32) = (of_nat k :: u64)"
  by (simp add: unsigned_of_nat take_bit_nat_eq_self)

text \<open>One entry.\<close>

lemma madt_step:
  assumes ok: "madt_item_ok (type, pl)"
    and rd: "vld ptr (length (type # of_nat (length pl + 2) # pl @ r)) s = Some (type # of_nat (length pl + 2) # pl @ r)"
    and ptr: "ptr < end_ptr"
    and room: "lapic_enabled (type, pl) \<Longrightarrow> unat (apic_id_count a) < length (apic_ids a)"
  shows "madt_loop ptr end_ptr (a, s) = madt_loop (ptr + of_nat (length pl + 2)) end_ptr
      (if lapic_enabled (type, pl) then (with_ids [pl ! 1] a, with_lines [pl ! 1] s) else (a, s))"
proof -
  note part = vld_part [OF rd]
  have t: "vrd8 ptr s = Some type"
    using part [of 0 1] by (simp add: vrd8_def)
  have l: "vrd8 (ptr + 1) s = Some (of_nat (length pl + 2))"
    using part [of 1 1] by (simp add: vrd8_def)
  have len: "ucast (of_nat (length pl + 2) :: u8) = (of_nat (length pl + 2) :: u64)"
    by (rule ucast_byte) (use ok in \<open>simp add: madt_item_ok_def\<close>)
  show ?thesis
  proof (cases "type = 0")
    case True
    then have p6: "length pl = 6"
      using ok by (simp add: madt_item_ok_def)
    have f: "vrd32 (ptr + 4) s = Some (le_word (drop 2 pl))"
      using part [of 4 4] p6 take_drop_bytes(1) [OF p6, of r] by (simp add: vrd32_def)
    have i: "vrd8 (ptr + 3) s = Some (pl ! 1)"
      using part [of 3 1] p6 take_drop_bytes(2) [OF p6, of r] by (simp add: vrd8_def)
    have d: "diag ''[ACPI : SMP] Core Found: APIC ID %d'' [Num (ucast (pl ! 1))] s = with_lines [pl ! 1] s"
      by (simp add: diag_def with_lines_def core_found_def)
    show ?thesis
      using ptr room True len by (subst madt_loop.simps) (auto simp: t l f i d [simplified] lapic_enabled_def with_ids_one not_le)
  next
    case False
    then show ?thesis
      using ptr len by (subst madt_loop.simps) (simp add: t l lapic_enabled_def)
  qed
qed

lemma madt_loop_items:
  "\<forall>e \<in> set es. madt_item_ok e \<Longrightarrow>
   vld ptr (length (madt_bytes es)) s = Some (madt_bytes es) \<Longrightarrow>
   unat ptr + length (madt_bytes es) < 2 ^ 64 \<Longrightarrow>
   unat (apic_id_count a) + length (lapic_ids es) \<le> length (apic_ids a) \<Longrightarrow>
   length (apic_ids a) < 2 ^ 64 \<Longrightarrow>
   madt_loop ptr (ptr + of_nat (length (madt_bytes es))) (a, s)
     = Some ((), with_ids (lapic_ids es) a, with_lines (lapic_ids es) s)"
proof (induction es arbitrary: ptr a s)
  case Nil
  then show ?case
    by (subst madt_loop.simps) (simp add: madt_bytes_def lapic_ids_def)
next
  case (Cons e es)
  obtain type pl where e: "e = (type, pl)"
    by fastforce
  let ?n = "length pl + 2" and ?rest = "length (madt_bytes es)"
  have b: "madt_bytes (e # es) = type # of_nat ?n # pl @ madt_bytes es"
    by (simp add: madt_bytes_def e)
  then have len: "length (madt_bytes (e # es)) = ?n + ?rest"
    by simp
  have n: "unat (of_nat ?n :: u64) = ?n"
    using Cons.prems(3) len by (intro unat_of_nat_small) simp
  have p: "unat (ptr + of_nat ?n) = unat ptr + ?n"
    using unat_plus_less [of ptr "of_nat ?n"] Cons.prems(3) unfolding n len by simp
  have "unat (of_nat (?n + ?rest) :: u64) = ?n + ?rest"
    using Cons.prems(3) len by (intro unat_of_nat_small) simp
  then have "unat (ptr + of_nat (?n + ?rest)) = unat ptr + (?n + ?rest)"
    using unat_plus_less [of ptr "of_nat (?n + ?rest)"] Cons.prems(3) len by simp
  then have less: "ptr < ptr + of_nat (?n + ?rest)"
    by (simp add: word_less_nat_alt)
  have rd: "vld (ptr + of_nat ?n) ?rest s = Some (madt_bytes es)"
    using vld_part [OF Cons.prems(2), of ?n ?rest] unfolding b by simp
  let ?as = "if lapic_enabled e then (with_ids [pl ! 1] a, with_lines [pl ! 1] s) else (a, s)"
  have ids: "lapic_ids (e # es) = (if lapic_enabled e then pl ! 1 # lapic_ids es else lapic_ids es)"
    by (simp add: lapic_ids_def e)
  have end_eq: "ptr + of_nat (length (madt_bytes (e # es))) = ptr + of_nat ?n + of_nat ?rest"
    by (simp only: len of_nat_add add.assoc)
  have "madt_loop ptr (ptr + of_nat (length (madt_bytes (e # es)))) (a, s)
      = madt_loop (ptr + of_nat ?n) (ptr + of_nat ?n + of_nat ?rest) ?as"
    unfolding end_eq unfolding e
    by (rule madt_step) (use Cons.prems(1,2,4) b ids e less in \<open>auto simp: add.assoc split: if_splits\<close>)
  also have "\<dots> = Some ((), with_ids (lapic_ids (e # es)) a, with_lines (lapic_ids (e # es)) s)"
  proof (cases "lapic_enabled e")
    case True
    then have room: "unat (apic_id_count a) + Suc (length (lapic_ids es)) \<le> length (apic_ids a)"
      using Cons.prems(4) ids by simp
    note w = with_ids_Cons [OF room Cons.prems(5), of "pl ! 1"]
    have "madt_loop (ptr + of_nat ?n) (ptr + of_nat ?n + of_nat ?rest) (with_ids [pl ! 1] a, with_lines [pl ! 1] s)
        = Some ((), with_ids (lapic_ids es) (with_ids [pl ! 1] a), with_lines (lapic_ids es) (with_lines [pl ! 1] s))"
      by (rule Cons.IH) (use Cons.prems rd p len room w in simp_all)
    then show ?thesis
      using True ids w(1) by simp
  next
    case False
    have "madt_loop (ptr + of_nat ?n) (ptr + of_nat ?n + of_nat ?rest) (a, s)
        = Some ((), with_ids (lapic_ids es) a, with_lines (lapic_ids es) s)"
      by (rule Cons.IH) (use Cons.prems rd p len ids False in simp_all)
    then show ?thesis
      using False ids by simp
  qed
  finally show ?case .
qed

section \<open>A machine with the first gigabyte in the direct map\<close>

text \<open>Two tables, at 0x300000 and 0x301000, map it as one large page; the rest of memory is \<open>m\<close>.\<close>

definition big_page :: "memory \<Rightarrow> pager" where
  "big_page m = fresh_pager\<lparr>mem := st64 (st64 m 0x300800 0x301003) 0x301000 0x83\<rparr>"

lemma unat_direct: "unat p < 2 ^ 30 \<Longrightarrow> unat (p + AOS_DIRECT_MAP_BASE) = unat p + 0xFFFF800000000000"
  by (subst unat_plus_less) (simp_all add: AOS_DIRECT_MAP_BASE_def)

lemma big_page_direct: "direct (2 ^ 30) (big_page m)"
  unfolding direct_def
proof (intro allI impI)
  fix p :: u64
  assume p: "unat p < 2 ^ 30"
  let ?v = "p + AOS_DIRECT_MAP_BASE" and ?m = "mem (big_page m)"
  note v = unat_direct [OF p]
  have i39: "idx 39 ?v = 256"
  proof -
    have "drop_bit 39 ?v = 0x1FFFF00"
      by (rule word_unat_eq_iff [THEN iffD2]) (use p in \<open>simp add: unat_drop v\<close>)
    then show ?thesis
      by (simp add: idx_def)
  qed
  have i30: "idx 30 ?v = 0"
  proof -
    have "drop_bit 30 ?v = 0x3FFFE0000"
      by (rule word_unat_eq_iff [THEN iffD2]) (use p in \<open>simp add: unat_drop v\<close>)
    then show ?thesis
      by (simp add: idx_def)
  qed
  have "canonical ?v"
    by (rule kernel_canonical) (use p in \<open>simp add: word_le_nat_alt v\<close>)
  moreover have "ent ?m 0x300000 256 = 0x301003" "ent ?m 0x301000 0 = 0x83"
    by (simp_all add: ent_def big_page_def ld64_st64_other aligned8_def)
  moreover have "root (big_page m) = 0x300000"
    by (simp add: root_def big_page_def frame_def window_def space_defs)
  moreover have "?v AND mask 30 = p"
    by (rule word_unat_eq_iff [THEN iffD2]) (use p mod_mult_self2 [of "unat p" "2 ^ 30" "0x3FFFE0000"] in \<open>simp add: unat_and_mask v\<close>)
  ultimately have "tr (big_page m) ?v = Some (p, 0x83 AND NOT 0x80 AND mask 12)"
    by (simp add: tr_def translate_def vpath_def i39 i30 Let_def present_def huge_def hw_addr_def page_of_def)
  then show "\<exists>f. tr (big_page m) ?v = Some (p, f)"
    by blast
qed

lemma big_page_mem: "unat p < 0x300000 \<Longrightarrow> mem (big_page m) p = m p"
  by (simp add: big_page_def st64_apply unat_sub_if')

lemma big_page_bytes: "unat p + k \<le> 0x300000 \<Longrightarrow> ld_bytes (mem (big_page m)) p k = ld_bytes m p k"
proof (induction k arbitrary: p)
  case (Suc k)
  then have "unat (p + 1) = Suc (unat p)"
    by (intro unat_step [of p k]) simp
  with Suc show ?case
    by (simp add: big_page_mem)
qed simp

lemma big_page_locks [simp]: "locks (big_page m) = (\<lambda>_. False)"
  by (simp add: big_page_def)

lemma direct_mono: "direct n s \<Longrightarrow> k \<le> n \<Longrightarrow> direct k s"
  by (simp add: direct_def)

section \<open>Properties\<close>

text \<open>
  C33. \<open>acpi_find_rsdp\<close> finds the first root pointer of the places the specification names: the
  first kilobyte of the extended BIOS data area and the 128 KiB below 1 MiB, every 16 bytes. It
  returns the null pointer when no place carries the signature with a correct checksum, and also
  when the first one that does has a wrong extended checksum. It needs the first 1088 KiB in the
  direct map.
\<close>

theorem acpi_find_rsdp_first:
  assumes "direct 0x110000 s"
  shows "acpi_find_rsdp s = Some (case find (rsdp_valid (mem s)) (rsdp_places (mem s)) of
     None \<Rightarrow> 0 | Some p \<Rightarrow> rsdp_result (mem s) p)"
  by (rule find_rsdp_direct [OF assms])

text \<open>A root pointer of revision 0 at 0xE0000.\<close>

definition rsdp_sample_bytes :: "u8 list" where
  "rsdp_sample_bytes = [0x52, 0x53, 0x44, 0x20, 0x50, 0x54, 0x52, 0x20, 193, 0, 0, 0, 0, 0, 0, 0, 0, 0x20, 0, 0]"

definition rsdp_sample :: memory where
  "rsdp_sample = st_bytes (\<lambda>_. 0) 0xE0000 rsdp_sample_bytes"

lemma rsdp_sample_low: "unat p < 0xE0000 \<Longrightarrow> rsdp_sample p = 0"
  unfolding rsdp_sample_def
  by (subst st_bytes_apply) (simp_all add: rsdp_sample_bytes_def unat_sub_if')

lemma not_rsdp_zero: "m p = 0 \<Longrightarrow> \<not> rsdp_valid m p"
proof -
  assume "m p = 0"
  then have "ld_bytes m p 8 ! 0 \<noteq> ascii ''RSD PTR '' ! 0"
    by (simp add: ascii_def nth_ld_bytes)
  then show ?thesis
    unfolding rsdp_valid_def by metis
qed

lemma ld_bytes_take: "k \<le> n \<Longrightarrow> ld_bytes m a k = take k (ld_bytes m a n)"
  by (rule nth_equalityI) (simp_all add: nth_ld_bytes)

lemma rsdp_sample_20: "ld_bytes rsdp_sample 0xE0000 20 = rsdp_sample_bytes"
proof -
  have len: "length rsdp_sample_bytes = 20"
    by (simp add: rsdp_sample_bytes_def)
  then show ?thesis
    using ld_st_bytes_same [of rsdp_sample_bytes "\<lambda>_. 0" "0xE0000"] unfolding rsdp_sample_def len by simp
qed

lemma rsdp_sample_valid: "rsdp_valid rsdp_sample 0xE0000"
  unfolding rsdp_valid_def ld_bytes_take [of 8 20, simplified] rsdp_sample_20
  by (simp add: rsdp_sample_bytes_def ascii_def)

theorem acpi_find_rsdp_first_witness:
  "acpi_find_rsdp (big_page rsdp_sample) = Some 0xFFFF8000000E0000"
proof -
  let ?s = "big_page rsdp_sample"
  have b: "ld_bytes (mem ?s) p k = ld_bytes rsdp_sample p k" if "unat p + k \<le> 0x300000" for p k
    using that by (rule big_page_bytes)
  have "ld_bytes (mem ?s) 0x40E (Suc (Suc 0)) = [0, 0]"
    by (simp add: big_page_mem rsdp_sample_low)
  then have "ld16 (mem ?s) 0x40E = 0"
    by (simp add: ld16_def eval_nat_numeral del: ld_bytes.simps)
  then have places: "rsdp_places (mem ?s) = every16 0 1024 @ every16 0xE0000 0x20000"
    by (simp add: rsdp_places_def)
  have low: "\<not> rsdp_valid (mem ?s) p" if "p \<in> set (every16 0 1024)" for p
  proof -
    have "unat p < 1024"
      using every16_bound [OF that] by simp
    then have "mem ?s p = 0"
      by (simp add: big_page_mem rsdp_sample_low)
    then show ?thesis
      by (rule not_rsdp_zero)
  qed
  have here: "rsdp_valid (mem ?s) 0xE0000"
    using rsdp_sample_valid by (simp add: rsdp_valid_def b)
  have "every16 0xE0000 0x20000 = 0xE0000 # map (\<lambda>i. 0xE0000 + 16 * of_nat i) [1..<0x2000]"
    unfolding every16_def by (subst upt_conv_Cons) simp_all
  moreover have "find P xs = None \<Longrightarrow> P y \<Longrightarrow> find P (xs @ y # zs) = Some y" for P xs zs and y :: u64
    by (induction xs) (auto split: if_splits)
  moreover have "find (rsdp_valid (mem ?s)) (every16 0 1024) = None"
    using low by (auto simp: find_None_iff)
  ultimately have f: "find (rsdp_valid (mem ?s)) (rsdp_places (mem ?s)) = Some 0xE0000"
    unfolding places using here by metis
  have "mem ?s 0xE000F = 0"
    using nth_ld_bytes [of 15 20 rsdp_sample "0xE0000"] unfolding rsdp_sample_20
    by (simp add: big_page_mem rsdp_sample_bytes_def)
  then have "rsdp_result (mem ?s) 0xE0000 = 0xFFFF8000000E0000"
    by (simp add: rsdp_result_def AOS_DIRECT_MAP_BASE_def)
  then show ?thesis
    using acpi_find_rsdp_first [OF direct_mono [OF big_page_direct]] f by simp
qed

text \<open>
  C34. \<open>acpi_parse_madt\<close> reads back what a firmware writes: for a table that holds any list of
  well-formed entries it appends the identifiers of the enabled local APICs, in their order, to
  \<open>apic_ids\<close>, skips every other entry, and touches no memory and no port.
\<close>

theorem acpi_parse_madt_collects:
  assumes "\<forall>e \<in> set es. madt_item_ok e"
    and tbl: "vld madt (44 + length (madt_bytes es)) s = Some (h @ madt_bytes es)" "length h = 44"
    and len: "(le_word (take 4 (drop 4 h)) :: u32) = of_nat (44 + length (madt_bytes es))"
      "44 + length (madt_bytes es) < 2 ^ 32"
    and fits: "unat madt + (44 + length (madt_bytes es)) < 2 ^ 64"
    and room: "unat (apic_id_count a) + length (lapic_ids es) \<le> length (apic_ids a)" "length (apic_ids a) = 256"
  shows "\<exists>t. acpi_parse_madt madt (a, s) = Some ((), (with_ids (lapic_ids es) a, t))
    \<and> mem t = mem s \<and> io t = io s \<and> locks t = locks s"
proof -
  let ?n = "length (madt_bytes es)"
  have l: "vrd32 (madt + 4) s = Some (of_nat (44 + ?n))"
    using vld_part [OF tbl(1), of 4 4] tbl(2) len(1) by (simp add: vrd32_def)
  have rest: "vld (madt + of_nat 44) ?n s = Some (madt_bytes es)"
    using vld_part [OF tbl(1), of 44 ?n] tbl(2) by simp
  have u: "unat (madt + of_nat 44) = unat madt + 44"
    using fits unat_plus_less [of madt "of_nat 44"] by simp
  have "ucast (of_nat (44 + ?n) :: u32) = (of_nat (44 + ?n) :: u64)"
    using len(2) by (rule ucast_half)
  then have e: "madt + ucast (of_nat (44 + ?n) :: u32) = madt + of_nat 44 + of_nat ?n"
    by (simp add: add.assoc)
  have "madt_loop (madt + of_nat 44) (madt + of_nat 44 + of_nat ?n) (a, s)
      = Some ((), with_ids (lapic_ids es) a, with_lines (lapic_ids es) s)"
    using assms(1) rest u fits room by (intro madt_loop_items) simp_all
  then show ?thesis
    by (simp add: acpi_parse_madt_def l e with_lines_def del: of_nat_add)
qed

text \<open>A table at 0x1000 with two enabled processors, a disabled one and an I/O APIC between them.\<close>

definition madt_sample :: "madt_item list" where
  "madt_sample = [(0, [0, 5, 1, 0, 0, 0]), (1, replicate 10 0), (0, [1, 7, 0, 0, 0, 0]), (0, [2, 9, 1, 0, 0, 0])]"

definition madt_header :: "u8 list" where
  "madt_header = ascii ''APIC'' @ [80, 0, 0, 0] @ replicate 36 0"

lemma madt_sample_length: "length (madt_bytes madt_sample) = 36" "length madt_header = 44"
  by (simp_all add: madt_bytes_def madt_sample_def madt_header_def ascii_def)

lemma madt_sample_ids: "lapic_ids madt_sample = [5, 9]"
  by (simp add: lapic_ids_def madt_sample_def lapic_enabled_def)

theorem acpi_parse_madt_collects_witness:
  "\<exists>a t. acpi_parse_madt 0xFFFF800000001000
      (acpi_zero, big_page (st_bytes (\<lambda>_. 0) 0x1000 (madt_header @ madt_bytes madt_sample))) = Some ((), (a, t))
    \<and> apic_id_count a = 2 \<and> take 2 (apic_ids a) = [5, 9]"
proof -
  let ?bs = "madt_header @ madt_bytes madt_sample" and ?m = "st_bytes (\<lambda>_. 0) 0x1000 (madt_header @ madt_bytes madt_sample)"
  have len: "length ?bs = 80"
    by (simp add: madt_sample_length)
  have "ld_bytes ?m 0x1000 80 = ?bs"
    using ld_st_bytes_same [of ?bs "\<lambda>_. 0" "0x1000"] unfolding len by simp
  then have "vld (0x1000 + AOS_DIRECT_MAP_BASE) 80 (big_page ?m) = Some ?bs"
    by (subst vld_direct [OF big_page_direct]) (simp_all add: big_page_bytes)
  then have v: "vld 0xFFFF800000001000 (44 + length (madt_bytes madt_sample)) (big_page ?m) = Some ?bs"
    by (simp add: madt_sample_length AOS_DIRECT_MAP_BASE_def)
  have "\<exists>t. acpi_parse_madt 0xFFFF800000001000 (acpi_zero, big_page ?m)
      = Some ((), (with_ids (lapic_ids madt_sample) acpi_zero, t))
    \<and> mem t = mem (big_page ?m) \<and> io t = io (big_page ?m) \<and> locks t = locks (big_page ?m)"
    by (rule acpi_parse_madt_collects [OF _ v])
       (simp_all add: madt_sample_length madt_sample_ids, simp_all add: madt_sample_def madt_item_ok_def
          madt_header_def ascii_def acpi_zero_def)
  then show ?thesis
    by (auto simp: madt_sample_ids with_ids_def acpi_zero_def)
qed

lemma vrd8_diag: "vrd8 p (diag f args s) = vrd8 p s" for s :: "'a pager_scheme"
proof -
  have "vld p 1 (diag f args s) = vld p 1 s"
    by (rule vld_cong) (rule diag_frame tr_diag)+
  then show ?thesis
    by (simp add: vrd8_def)
qed

lemma madt_stuck:
  "madt_loop ptr end_ptr as = Some r \<Longrightarrow>
   ptr < end_ptr \<longrightarrow> vrd8 (ptr + 1) (snd as) \<noteq> Some 0"
proof (induction ptr end_ptr as r rule: madt_loop.raw_induct [rotated, consumes 1, case_names step])
  case (step rec ptr end_ptr as r)
  show ?case
  proof (intro impI notI)
    assume less: "ptr < end_ptr" and zero: "vrd8 (ptr + 1) (snd as) = Some 0"
    obtain as' where as': "rec (ptr + ucast (0 :: u8)) end_ptr as' = Some r"
        "vrd8 (ptr + 1) (snd as') = vrd8 (ptr + 1) (snd as)"
      using step(2) less zero by (auto simp: vrd8_diag split: if_splits option.splits bind_splits)
    then show False
      using step(1) [OF as'(1)] as'(2) less zero by simp
  qed
qed

text \<open>
  An entry of length 0 in the MADT stops the boot: whatever the entry is and whatever follows
  it, the loop of \<open>acpi_parse_madt\<close> that arrives there never ends.
\<close>

theorem madt_zero_length_hangs:
  assumes "ptr < end_ptr" and "vrd8 (ptr + 1) s = Some 0"
  shows "madt_loop ptr end_ptr (a, s) = None"
proof (rule ccontr)
  assume "madt_loop ptr end_ptr (a, s) \<noteq> None"
  then obtain r where "madt_loop ptr end_ptr (a, s) = Some r"
    by blast
  from madt_stuck [OF this] show False
    using assms by simp
qed

theorem madt_zero_length_hangs_witness:
  "madt_loop 0xFFFF800000001000 0xFFFF800000001008 (acpi_zero, big_page (\<lambda>_. 0)) = None"
proof (rule madt_zero_length_hangs)
  have "vld (0x1001 + AOS_DIRECT_MAP_BASE) 1 (big_page (\<lambda>_. 0)) = Some (ld_bytes (mem (big_page (\<lambda>_. 0))) 0x1001 1)"
    by (rule vld_direct [OF big_page_direct]) simp_all
  then show "vrd8 (0xFFFF800000001000 + 1) (big_page (\<lambda>_. 0)) = Some 0"
    by (simp add: vrd8_def AOS_DIRECT_MAP_BASE_def big_page_mem)
qed simp

text \<open>
  When there is no root pointer, \<open>acpi_init\<close> returns with its lock taken and interrupts off:
  every later function of this file that takes the lock spins for ever, the query of the PCIe
  start-up among them.
\<close>

theorem acpi_init_without_rsdp_keeps_lock:
  assumes "direct 0x110000 s" and "find (rsdp_valid (mem s)) (rsdp_places (mem s)) = None"
    and "\<not> locks s Acpi_lock"
  shows "\<exists>t. acpi_init (a, s) = Some ((), (a, t)) \<and> \<not> bit (rflags t) 9
    \<and> acpi_get_mcfg (b, t) = None \<and> acpi_get_madt (b, t) = None \<and> acpi_get_apic_info (b, t) = None
    \<and> acpi_get_lapic_base (b, t) = None \<and> acpi_init (b, t) = None"
proof -
  let ?t = "diag ''[ACPI] RSDP Descriptor Not Found!'' [] (taken Acpi_lock s)"
  have "acpi_find_rsdp (taken Acpi_lock s) = Some 0"
    using find_rsdp_direct [of "taken Acpi_lock s"] assms by simp
  then have r: "acpi_init (a, s) = Some ((), (a, ?t))"
    using assms(3) by (simp add: acpi_init_def spin_lock_irqsave_def spin_lock_def taken_def cli_def)
  have "\<not> bit (rflags ?t) 9"
    by (simp add: taken_def cli_def bit_simps)
  moreover have "locks ?t Acpi_lock"
    by simp
  then have "spin_lock_irqsave Acpi_lock ?t = None"
    by (simp add: spin_lock_irqsave_def spin_lock_def cli_def)
  ultimately show ?thesis
    using r by (simp add: acpi_get_mcfg_def acpi_get_madt_def acpi_get_apic_info_def
        acpi_get_lapic_base_def acpi_init_def holding_def)
qed

theorem acpi_init_without_rsdp_keeps_lock_witness:
  "\<exists>t. acpi_init (acpi_zero, big_page (\<lambda>_. 0)) = Some ((), (acpi_zero, t)) \<and> acpi_get_mcfg (acpi_zero, t) = None"
proof -
  let ?s = "big_page (\<lambda>_. 0)"
  have z: "ld_bytes (mem ?s) 0x40E (Suc (Suc 0)) = [0, 0]"
    by (simp add: big_page_mem)
  then have "ld16 (mem ?s) 0x40E = 0"
    by (simp add: ld16_def eval_nat_numeral del: ld_bytes.simps)
  then have "rsdp_places (mem ?s) = every16 0 1024 @ every16 0xE0000 0x20000"
    by (simp add: rsdp_places_def)
  moreover have "mem ?s p = 0" if "p \<in> set (every16 0 1024 @ every16 0xE0000 0x20000)" for p
    using that every16_bound [of p 0 1024] every16_bound [of p "0xE0000" "0x20000"]
    by (intro big_page_mem) auto
  ultimately have f: "find (rsdp_valid (mem ?s)) (rsdp_places (mem ?s)) = None"
    unfolding find_None_iff using not_rsdp_zero [of "mem ?s"] by metis
  have l: "\<not> locks ?s Acpi_lock"
    by simp
  from acpi_init_without_rsdp_keeps_lock [OF direct_mono [OF big_page_direct] f l, of acpi_zero acpi_zero]
  show ?thesis
    by auto
qed

end
