(* ===== verification/Module.thy ===== *)
theory Module
  imports Memory_Manager
begin

text \<open>
  The module registry of module.c. \<open>modules\<close> is an array of module objects that \<open>avmf_alloc\<close>
  returned, \<open>registered_modules\<close> an array of pointers to modules that grows by 16. Both are typed
  objects at their addresses: the array of pointers at \<open>a\<close> is \<open>pointer_arrays a\<close>, the module at
  \<open>p\<close> is \<open>module_objs p\<close>.
\<close>

unbundle bit_operations_syntax

section \<open>Data and state\<close>

datatype AOS_ModuleTypes = MODULE_TYPE_DRIVER | MODULE_TYPE_EXECUTABLE_RUNTIME

datatype AOS_ModuleDriverTypes =
    MODULE_DRIVER_TYPE_SATA
  | MODULE_DRIVER_TYPE_HDD
  | MODULE_DRIVER_TYPE_NVMe
  | MODULE_DRIVER_TYPE_GPU
  | MODULE_DRIVER_TYPE_xHCI

record AOS_ModuleHeader =
  mname :: string
  mversion :: u32
  msignature :: u64
  mtype :: AOS_ModuleTypes
  registered :: u8

record pcie_device_t =
  vendor_id :: u16
  device_id :: u16
  class_code :: u8
  sub_class :: u8
  prog_if :: u8
  dbus :: u8
  dslot :: u8
  dfunc :: u8
  bar0 :: u64

record AOS_ModuleDriver =
  dtype :: AOS_ModuleDriverTypes
  target_class :: u8
  target_subclass :: u8
  target_progifclass :: u8
  target_use_progifclass :: u8
  target_revision :: u8
  target_use_revision :: u8
  target_vendor :: u16
  target_use_vendor :: u8
  pcie_device :: pcie_device_t

record AOS_Module =
  hdr :: AOS_ModuleHeader
  driver_module :: AOS_ModuleDriver

record module_state =
  modules :: u64
  module_count :: u64
  module_cap :: u64
  registered_modules :: u64
  registered_module_count :: u64
  registered_module_cap :: u64
  module_objs :: "u64 \<Rightarrow> AOS_Module"
  pointer_arrays :: "u64 \<Rightarrow> nat \<Rightarrow> u64"

text \<open>\<open>sizeof(struct AOS_Module)\<close> and the pages both arrays ask for.\<close>

definition module_size :: u64 where "module_size = 72"

definition module_flags :: u64 where "module_flags = PAGE_RW OR PAGE_PRESENT"

text \<open>What a driver is looked for by; a \<open>use\<close> argument of 1 makes the argument before it count.\<close>

record driver_query =
  qclass :: u8
  qsubclass :: u8
  quse_subclass :: u8
  qprogif :: u8
  quse_progif :: u8
  qrevision :: u8
  quse_revision :: u8
  qvendor :: u16
  quse_vendor :: u8

section \<open>Operations\<close>

definition modules_init :: "(module_state \<times> 'a pager_scheme, u8) op" where
  "modules_init = (\<lambda>(m, s). do {
     ((virt, _), s) \<leftarrow> avmf_alloc (module_size * 16) MALLOC_TYPE_KERNEL (ucast module_flags) s;
     let m = m\<lparr>modules := virt\<rparr>;
     if virt = 0 then Some (0, (m, diag ''[Module-System] Allocation failed!'' [] s))
     else Some (1, (m\<lparr>module_cap := 16\<rparr>, diag ''[Module-System] Core Modules Loaded!'' [] s)) })"

text \<open>
  The growth of the pointer array: allocate, copy, free, switch. \<open>False\<close> when there is no memory.
\<close>

definition grow_registered :: "(module_state \<times> 'a pager_scheme, bool) op" where
  "grow_registered = (\<lambda>(m, s). do {
     ((nptr, _), s) \<leftarrow> avmf_alloc (8 * (registered_module_cap m + 16)) MALLOC_TYPE_KERNEL (ucast module_flags) s;
     if nptr = 0
     then Some (False, (m, diag ''[Module-System] Reallocation of registered modules failed!'' [] s))
     else do {
       let m = m\<lparr>registered_module_cap := registered_module_cap m + 16\<rparr>;
       (m, s) \<leftarrow>
         (if registered_modules m \<noteq> 0 then do {
            let old = pointer_arrays m (registered_modules m);
            let new = pointer_arrays m nptr;
            let m = m\<lparr>pointer_arrays := (pointer_arrays m)
              (nptr := (\<lambda>i. if i < unat (registered_module_count m) then old i else new i))\<rparr>;
            (_, s) \<leftarrow> avmf_free (registered_modules m) s;
            Some (m, s) }
          else Some (m, s));
       Some (True, (m\<lparr>registered_modules := nptr\<rparr>, s)) } })"

text \<open>The last two lines of \<open>module_register\<close>; \<open>None\<close>: the null pointer is followed.\<close>

definition append_registered :: "u64 \<Rightarrow> module_state \<Rightarrow> module_state option" where
  "append_registered p m =
     (if p = 0 then None
      else Some
        (let a = registered_modules m;
             m = m\<lparr>pointer_arrays := (pointer_arrays m)
                    (a := (pointer_arrays m a)(unat (registered_module_count m) := p)),
                  registered_module_count := registered_module_count m + 1\<rparr>;
             ob = module_objs m p
         in m\<lparr>module_objs := (module_objs m)(p := ob\<lparr>hdr := (hdr ob)\<lparr>registered := 1\<rparr>\<rparr>)\<rparr>))"

definition module_register :: "u64 \<Rightarrow> (module_state \<times> 'a pager_scheme, u8) op" where
  "module_register p = (\<lambda>(m, s). do {
     (ok, (m, s)) \<leftarrow>
       (if registered_modules m = 0 \<or> registered_module_cap m \<le> registered_module_count m
        then grow_registered (m, s) else Some (True, (m, s)));
     if \<not> ok then Some (0, (m, s))
     else do {
       m \<leftarrow> append_registered p m;
       Some (1, (m, s)) } })"

text \<open>The loop both searches share, over the addresses of the modules.\<close>

fun driver_loop :: "(u64 \<Rightarrow> AOS_Module) \<Rightarrow> driver_query \<Rightarrow> u64 list \<Rightarrow> u64" where
  "driver_loop objs q [] = 0"
| "driver_loop objs q (p # ps) =
     (let d = driver_module (objs p) in
      if mtype (hdr (objs p)) \<noteq> MODULE_TYPE_DRIVER then driver_loop objs q ps
      else if target_class d = qclass q then
        (if quse_subclass q = 1 \<and> target_subclass d \<noteq> qsubclass q then driver_loop objs q ps
         else if quse_progif q = 1 \<and> target_use_progifclass d = 1 \<and> target_progifclass d \<noteq> qprogif q
         then driver_loop objs q ps
         else if quse_revision q = 1 \<and> target_use_revision d = 1 \<and> target_revision d \<noteq> qrevision q
         then driver_loop objs q ps
         else if quse_vendor q = 1 \<and> target_use_vendor d = 1 \<and> target_vendor d \<noteq> qvendor q
         then driver_loop objs q ps
         else p)
      else driver_loop objs q ps)"

definition module_get_first_applicable_driver :: "driver_query \<Rightarrow> module_state \<Rightarrow> u64" where
  "module_get_first_applicable_driver q m =
     driver_loop (module_objs m) q
       (map (\<lambda>i. modules m + module_size * of_nat i) [0..<unat (module_count m)])"

definition module_get_first_applicable_registered_driver :: "driver_query \<Rightarrow> module_state \<Rightarrow> u64" where
  "module_get_first_applicable_registered_driver q m =
     driver_loop (module_objs m) q
       (map (pointer_arrays m (registered_modules m)) [0..<unat (registered_module_count m)])"

fun pointer_loop :: "u64 \<Rightarrow> u64 list \<Rightarrow> u8" where
  "pointer_loop p [] = 0"
| "pointer_loop p (q # qs) = (if q = p then 1 else pointer_loop p qs)"

definition module_already_initialized :: "u64 \<Rightarrow> module_state \<Rightarrow> u8" where
  "module_already_initialized p m =
     pointer_loop p (map (pointer_arrays m (registered_modules m)) [0..<unat (registered_module_count m)])"

text \<open>The static variables before \<open>modules_init\<close>.\<close>

definition no_module :: AOS_Module where
  "no_module = \<lparr>hdr = \<lparr>mname = [], mversion = 0, msignature = 0, mtype = MODULE_TYPE_DRIVER, registered = 0\<rparr>,
     driver_module = \<lparr>dtype = MODULE_DRIVER_TYPE_SATA, target_class = 0, target_subclass = 0,
       target_progifclass = 0, target_use_progifclass = 0, target_revision = 0, target_use_revision = 0,
       target_vendor = 0, target_use_vendor = 0,
       pcie_device = \<lparr>vendor_id = 0, device_id = 0, class_code = 0, sub_class = 0, prog_if = 0,
         dbus = 0, dslot = 0, dfunc = 0, bar0 = 0\<rparr>\<rparr>\<rparr>"

definition no_modules :: module_state where
  "no_modules = \<lparr>modules = 0, module_count = 0, module_cap = 0, registered_modules = 0,
     registered_module_count = 0, registered_module_cap = 0,
     module_objs = (\<lambda>_. no_module), pointer_arrays = (\<lambda>_ _. 0)\<rparr>"

section \<open>The registry as a list\<close>

definition registry :: "module_state \<Rightarrow> u64 list" where
  "registry m = map (pointer_arrays m (registered_modules m)) [0..<unat (registered_module_count m)]"

definition registry_ok :: "module_state \<Rightarrow> bool" where
  "registry_ok m \<longleftrightarrow> registered_module_count m \<le> registered_module_cap m
     \<and> (registered_modules m = 0 \<longrightarrow> registered_module_cap m = 0) \<and> unat (registered_module_cap m) mod 16 = 0"

text \<open>A driver fits a query: what the searches promise to their callers.\<close>

definition applicable :: "driver_query \<Rightarrow> AOS_Module \<Rightarrow> bool" where
  "applicable q ob \<longleftrightarrow> (let d = driver_module ob in
     mtype (hdr ob) = MODULE_TYPE_DRIVER \<and> target_class d = qclass q
     \<and> (quse_subclass q = 1 \<longrightarrow> target_subclass d = qsubclass q)
     \<and> (quse_progif q = 1 \<and> target_use_progifclass d = 1 \<longrightarrow> target_progifclass d = qprogif q)
     \<and> (quse_revision q = 1 \<and> target_use_revision d = 1 \<longrightarrow> target_revision d = qrevision q)
     \<and> (quse_vendor q = 1 \<and> target_use_vendor d = 1 \<longrightarrow> target_vendor d = qvendor q))"

lemma driver_loop_find:
  "driver_loop objs q ps = (case find (\<lambda>p. applicable q (objs p)) ps of None \<Rightarrow> 0 | Some p \<Rightarrow> p)"
  by (induction ps) (auto simp: applicable_def Let_def)

lemma pointer_loop_mem: "pointer_loop p qs = (if p \<in> set qs then 1 else 0)"
  by (induction qs) auto

lemma already_registry: "module_already_initialized p m = (if p \<in> set (registry m) then 1 else 0)"
  by (simp add: module_already_initialized_def registry_def pointer_loop_mem)

lemma grow_result:
  assumes alloc: "avmf_alloc (8 * (registered_module_cap m + 16)) MALLOC_TYPE_KERNEL (ucast module_flags) s
      = Some ((a, ph), t)" and a: "a \<noteq> 0"
    and free: "registered_modules m = 0 \<and> t' = t
      \<or> registered_modules m \<noteq> 0 \<and> avmf_free (registered_modules m) t = Some ((), t')"
    and ok: "registry_ok m"
  shows "\<exists>m'. grow_registered (m, s) = Some (True, (m', t')) \<and> registered_modules m' = a
    \<and> registry m' = registry m \<and> registered_module_cap m' = registered_module_cap m + 16
    \<and> registered_module_count m' = registered_module_count m \<and> module_objs m' = module_objs m"
proof (cases "registered_modules m = 0")
  case True
  then have "registered_module_count m = 0"
    using ok by (auto simp: registry_ok_def)
  then show ?thesis
    using True alloc a free by (simp add: grow_registered_def registry_def)
next
  case False
  then show ?thesis
    using alloc a free by (simp add: grow_registered_def registry_def)
qed

lemma append_result:
  assumes ok: "registered_modules m \<noteq> 0" "registered_module_count m < registered_module_cap m" and p: "p \<noteq> 0"
  shows "\<exists>m'. append_registered p m = Some m' \<and> registry m' = registry m @ [p]
    \<and> registered_modules m' = registered_modules m \<and> registered_module_cap m' = registered_module_cap m
    \<and> registered_module_count m' = registered_module_count m + 1
    \<and> registered (hdr (module_objs m' p)) = 1
    \<and> (\<forall>q. driver_module (module_objs m' q) = driver_module (module_objs m q)
         \<and> mtype (hdr (module_objs m' q)) = mtype (hdr (module_objs m q)))"
proof -
  have n: "unat (registered_module_count m + 1) = Suc (unat (registered_module_count m))"
    using ok(2) by (rule unat_suc_less)
  show ?thesis
    using p by (auto simp: append_registered_def Let_def registry_def n)
qed

text \<open>Before the pointer is stored there is room for it.\<close>

lemma register_room:
  assumes ok: "registry_ok m" and cap: "registered_module_cap m \<le> 0x10000"
    and answer: "if registered_modules m = 0 \<or> registered_module_cap m \<le> registered_module_count m
      then \<exists>a ph t. avmf_alloc (8 * (registered_module_cap m + 16)) MALLOC_TYPE_KERNEL (ucast module_flags) s
             = Some ((a, ph), t) \<and> a \<noteq> 0
           \<and> (registered_modules m = 0 \<and> t' = t
              \<or> registered_modules m \<noteq> 0 \<and> avmf_free (registered_modules m) t = Some ((), t'))
      else t' = s"
  shows "\<exists>m1. (if registered_modules m = 0 \<or> registered_module_cap m \<le> registered_module_count m then grow_registered (m, s) else Some (True, (m, s))) = Some (True, (m1, t'))
      \<and> registered_modules m1 \<noteq> 0 \<and> registered_module_count m1 < registered_module_cap m1
      \<and> unat (registered_module_cap m1) mod 16 = 0 \<and> registry m1 = registry m \<and> module_objs m1 = module_objs m"
proof -
  let ?c = "registered_module_cap m" and ?n = "registered_module_count m"
  let ?full = "registered_modules m = 0 \<or> ?c \<le> ?n"
  show ?thesis
  proof (cases ?full)
    case True
    then obtain a ph t where al: "avmf_alloc (8 * (?c + 16)) MALLOC_TYPE_KERNEL (ucast module_flags) s
          = Some ((a, ph), t)" "a \<noteq> 0"
        "registered_modules m = 0 \<and> t' = t
         \<or> registered_modules m \<noteq> 0 \<and> avmf_free (registered_modules m) t = Some ((), t')"
      using answer [unfolded if_P [OF True]] by blast
    obtain m1 where m1: "grow_registered (m, s) = Some (True, (m1, t'))" "registered_modules m1 = a"
        "registry m1 = registry m" "registered_module_cap m1 = ?c + 16" "registered_module_count m1 = ?n"
        "module_objs m1 = module_objs m"
      using grow_result [OF al ok] by blast
    have le: "unat ?n \<le> unat ?c" "unat ?c \<le> 0x10000"
      using ok cap by (simp_all add: registry_ok_def word_le_nat_alt)
    then have c: "unat (?c + 16) = unat ?c + 16"
      by (subst unat_plus_less) simp_all
    then have "?n < ?c + 16"
      using le by (simp add: word_less_nat_alt)
    moreover have "unat (?c + 16) mod 16 = 0"
    proof -
      have "unat ?c mod 16 = 0"
        using ok unfolding registry_ok_def by blast
      then show ?thesis
        unfolding c by presburger
    qed
    ultimately show ?thesis
      using True m1 al(2) by simp
  next
    case False
    then show ?thesis
      using ok answer by (auto simp: registry_ok_def)
  qed
qed

lemma module_register_result:
  assumes ok: "registry_ok m" and p: "p \<noteq> 0" and cap: "registered_module_cap m \<le> 0x10000"
    and answer: "if registered_modules m = 0 \<or> registered_module_cap m \<le> registered_module_count m
      then \<exists>a ph t. avmf_alloc (8 * (registered_module_cap m + 16)) MALLOC_TYPE_KERNEL (ucast module_flags) s
             = Some ((a, ph), t) \<and> a \<noteq> 0
           \<and> (registered_modules m = 0 \<and> t' = t
              \<or> registered_modules m \<noteq> 0 \<and> avmf_free (registered_modules m) t = Some ((), t'))
      else t' = s"
  shows "\<exists>m'. module_register p (m, s) = Some (1, (m', t')) \<and> registry_ok m'
    \<and> registry m' = registry m @ [p] \<and> module_already_initialized p m' = 1
    \<and> (\<forall>q. driver_module (module_objs m' q) = driver_module (module_objs m q))"
  using register_room [OF ok cap answer]
proof (elim exE conjE)
  fix m1
  assume m1: "(if registered_modules m = 0 \<or> registered_module_cap m \<le> registered_module_count m then grow_registered (m, s) else Some (True, (m, s))) = Some (True, (m1, t'))"
    "registered_modules m1 \<noteq> 0" "registered_module_count m1 < registered_module_cap m1"
    "unat (registered_module_cap m1) mod 16 = 0" "registry m1 = registry m" "module_objs m1 = module_objs m"
  obtain m' where m': "append_registered p m1 = Some m'" "registry m' = registry m1 @ [p]"
      "registered_modules m' = registered_modules m1" "registered_module_cap m' = registered_module_cap m1"
      "registered_module_count m' = registered_module_count m1 + 1"
      "\<forall>q. driver_module (module_objs m' q) = driver_module (module_objs m1 q)"
    using append_result [OF m1(2,3) p] by blast
  have "registered_module_count m1 + 1 \<le> registered_module_cap m1"
    using m1(3) by (simp add: inc_le)
  then have "registry_ok m'"
    using m1(2,4) m'(3-5) by (simp add: registry_ok_def)
  moreover have "module_register p (m, s) = Some (1, (m', t'))"
    using m1(1) m'(1) by (simp add: module_register_def)
  ultimately show ?thesis
    using m1(5,6) m'(2,6) by (simp add: already_registry)
qed

section \<open>Properties\<close>

text \<open>
  C36. \<open>module_register\<close> appends the module to the registry, growing the array by 16 pointers when
  it is full: it returns 1, every registered module stays where it is in the order of
  registration, the new one is the last and is found by \<open>module_already_initialized\<close>, the count
  stays within the capacity, and no module changes what it drives. The hypotheses say what the
  allocator answers when it is asked.
\<close>

theorem module_register_appends:
  assumes ok: "registry_ok m" and p: "p \<noteq> 0" and cap: "registered_module_cap m \<le> 0x10000"
    and answer: "if registered_modules m = 0 \<or> registered_module_cap m \<le> registered_module_count m
      then \<exists>a ph t. avmf_alloc (8 * (registered_module_cap m + 16)) MALLOC_TYPE_KERNEL (ucast module_flags) s
             = Some ((a, ph), t) \<and> a \<noteq> 0
           \<and> (registered_modules m = 0 \<and> t' = t
              \<or> registered_modules m \<noteq> 0 \<and> avmf_free (registered_modules m) t = Some ((), t'))
      else t' = s"
  shows "\<exists>m'. module_register p (m, s) = Some (1, (m', t')) \<and> registry_ok m'
    \<and> registry m' = registry m @ [p] \<and> module_already_initialized p m' = 1
    \<and> (\<forall>q. driver_module (module_objs m' q) = driver_module (module_objs m q))"
  by (rule module_register_result [OF assms])

theorem module_register_appends_witness:
  "\<exists>m t. module_register 0x5000 (no_modules, fresh_pager) = Some (1, (m, t)) \<and> registry m = [0x5000]
    \<and> module_already_initialized 0x5000 m = 1"
proof -
  have "\<exists>p t. avmf_alloc 128 MALLOC_TYPE_KERNEL (ucast module_flags) fresh_pager
      = Some ((0xFFFFA00000000000, Some (frame p)), t)"
    using fresh_alloc [of 1 128 "ucast module_flags"] by (auto simp: pages_of_def module_flags_def PAGE_RW_def PAGE_PRESENT_def PAGE_HUGE_def)
  then obtain ph t where "avmf_alloc (8 * (registered_module_cap no_modules + 16)) MALLOC_TYPE_KERNEL (ucast module_flags)
      fresh_pager = Some ((0xFFFFA00000000000, ph), t)"
    by (auto simp: no_modules_def)
  then have "\<exists>m'. module_register 0x5000 (no_modules, fresh_pager) = Some (1, (m', t)) \<and> registry_ok m'
    \<and> registry m' = registry no_modules @ [0x5000] \<and> module_already_initialized 0x5000 m' = 1
    \<and> (\<forall>q. driver_module (module_objs m' q) = driver_module (module_objs no_modules q))"
    by (intro module_register_appends) (simp_all add: no_modules_def registry_ok_def)
  then show ?thesis
    by (auto simp: no_modules_def registry_def)
qed

text \<open>
  Without memory \<open>module_register\<close> returns 0 and changes no part of the registry: every
  module registered before stays registered.
\<close>

theorem module_register_out_of_memory:
  assumes "registered_modules m = 0 \<or> registered_module_cap m \<le> registered_module_count m"
    and "avmf_alloc (8 * (registered_module_cap m + 16)) MALLOC_TYPE_KERNEL (ucast module_flags) s = Some ((0, ph), t)"
  shows "\<exists>t'. module_register p (m, s) = Some (0, (m, t')) \<and> mem t' = mem t \<and> locks t' = locks t"
  using assms by (simp add: module_register_def grow_registered_def)

text \<open>A registry that asks for more than the kernel range has.\<close>

definition full_modules :: module_state where
  "full_modules = no_modules\<lparr>registered_modules := 0x1000, registered_module_count := 0x80000000000,
     registered_module_cap := 0x80000000000\<rparr>"

theorem module_register_out_of_memory_witness:
  "\<exists>t. module_register 0x5000 (full_modules, fresh_pager) = Some (0, (full_modules, t))
    \<and> mem t = mem fresh_pager"
proof -
  have "\<exists>t. avmf_alloc (8 * (registered_module_cap full_modules + 16)) MALLOC_TYPE_KERNEL (ucast module_flags)
      fresh_pager = Some ((0, None), t) \<and> mem t = mem fresh_pager"
    by (simp add: full_modules_def avmf_alloc_def avmf_alloc_virt_def space_defs align4k_def PAGE_SIZE_def Let_def)
  then obtain t where t: "avmf_alloc (8 * (registered_module_cap full_modules + 16)) MALLOC_TYPE_KERNEL
      (ucast module_flags) fresh_pager = Some ((0, None), t)" "mem t = mem fresh_pager"
    by blast
  have "registered_modules full_modules = 0 \<or> registered_module_cap full_modules \<le> registered_module_count full_modules"
    by (simp add: full_modules_def)
  from module_register_out_of_memory [OF this t(1), of "0x5000"] show ?thesis
    using t(2) by auto
qed

text \<open>
  C37. The search over the registered modules returns the first one, in the order of registration,
  that fits the query, and the null pointer exactly when none does.
\<close>

theorem registered_driver_first_match:
  assumes "0 \<notin> set (registry m)"
  shows "(module_get_first_applicable_registered_driver q m = 0
      \<longleftrightarrow> (\<forall>p \<in> set (registry m). \<not> applicable q (module_objs m p)))
    \<and> (module_get_first_applicable_registered_driver q m = p \<and> p \<noteq> 0
      \<longleftrightarrow> (\<exists>i < length (registry m). registry m ! i = p \<and> applicable q (module_objs m p)
            \<and> (\<forall>j < i. \<not> applicable q (module_objs m (registry m ! j)))))"
proof -
  have a: "module_get_first_applicable_registered_driver q m
      = (case find (\<lambda>p. applicable q (module_objs m p)) (registry m) of None \<Rightarrow> 0 | Some p \<Rightarrow> p)"
    by (simp add: module_get_first_applicable_registered_driver_def driver_loop_find registry_def)
  show ?thesis
  proof (cases "find (\<lambda>p. applicable q (module_objs m p)) (registry m)")
    case None
    then have "\<forall>p \<in> set (registry m). \<not> applicable q (module_objs m p)"
      by (auto simp: find_None_iff)
    then show ?thesis
      using a None by auto
  next
    case (Some r)
    then obtain i where i: "i < length (registry m)" "applicable q (module_objs m r)" "registry m ! i = r"
        "\<forall>j < i. \<not> applicable q (module_objs m (registry m ! j))"
      by (auto simp: find_Some_iff)
    then have r: "r \<in> set (registry m)"
      using nth_mem [of i "registry m"] by simp
    then have r0: "r \<noteq> 0"
      using assms by blast
    have "k = i" if "k < length (registry m)" "registry m ! k = p" "applicable q (module_objs m p)"
      "\<forall>j < k. \<not> applicable q (module_objs m (registry m ! j))" for k
      using that i by (cases k i rule: linorder_cases) auto
    then have "(\<exists>k < length (registry m). registry m ! k = p \<and> applicable q (module_objs m p)
        \<and> (\<forall>j < k. \<not> applicable q (module_objs m (registry m ! j)))) \<longleftrightarrow> p = r"
      using i by blast
    moreover have "\<not> (\<forall>p \<in> set (registry m). \<not> applicable q (module_objs m p))"
      using r i(2) by blast
    ultimately show ?thesis
      using a r0 unfolding Some by auto
  qed
qed

text \<open>A registry of three modules; the second and the third drive class 2.\<close>

definition three_modules :: module_state where
  "three_modules = no_modules\<lparr>registered_modules := 0x1000, registered_module_count := 3,
     registered_module_cap := 16, pointer_arrays := (\<lambda>_ i. of_nat (72 * i + 0x2000)),
     module_objs := (\<lambda>p. no_module\<lparr>driver_module := (driver_module no_module)
       \<lparr>target_class := (if p = 0x2000 then 1 else 2)\<rparr>\<rparr>)\<rparr>"

definition any_of_class :: "u8 \<Rightarrow> driver_query" where
  "any_of_class c = \<lparr>qclass = c, qsubclass = 0, quse_subclass = 0, qprogif = 0, quse_progif = 0,
     qrevision = 0, quse_revision = 0, qvendor = 0, quse_vendor = 0\<rparr>"

theorem registered_driver_first_match_witness:
  "module_get_first_applicable_registered_driver (any_of_class 2) three_modules = 0x2048
   \<and> module_get_first_applicable_registered_driver (any_of_class 3) three_modules = 0"
proof -
  have r: "registry three_modules = [0x2000, 0x2048, 0x2090]"
    by (simp add: registry_def three_modules_def upt_rec)
  have a: "applicable (any_of_class c) (module_objs three_modules p) \<longleftrightarrow> c = (if p = 0x2000 then 1 else 2)" for c p
    by (auto simp: applicable_def any_of_class_def three_modules_def no_module_def Let_def)
  have "0 \<notin> set (registry three_modules)"
    by (simp add: r)
  note m = registered_driver_first_match [OF this, of "any_of_class c" for c, unfolded a]
  have "\<exists>i < length (registry three_modules). registry three_modules ! i = 0x2048
      \<and> (2 :: u8) = (if (0x2048 :: u64) = 0x2000 then 1 else 2)
      \<and> (\<forall>j < i. (2 :: u8) \<noteq> (if registry three_modules ! j = 0x2000 then 1 else 2))"
    by (rule exI [of _ 1]) (simp add: r)
  then have "module_get_first_applicable_registered_driver (any_of_class 2) three_modules = 0x2048"
    using m [of 2 "0x2048"] by simp
  moreover have "module_get_first_applicable_registered_driver (any_of_class 3) three_modules = 0"
    using m [of 3] by (auto simp: r)
  ultimately show ?thesis ..
qed

end
