(* ===== verification/Pcie.thy ===== *)
theory Pcie
  imports Acpi_Tables Module
begin

text \<open>
  PCI configuration space (pcie.c): through memory when the MCFG table of ACPI names a segment for
  the bus, through the ports 0xCF8 and 0xCFC otherwise; the searches over all functions; and the
  start-up that maps the segments and offers every function to the modules.
\<close>

unbundle bit_operations_syntax

section \<open>Constants and state\<close>

definition PCI_MAX_BUS :: nat where "PCI_MAX_BUS = 256"
definition PCI_MAX_SLOT :: nat where "PCI_MAX_SLOT = 32"
definition PCI_MAX_FUNC :: nat where "PCI_MAX_FUNC = 8"
definition PCI_BAR0 :: u8 where "PCI_BAR0 = 0x10"
definition PCIE_VIRT_BASE :: u64 where "PCIE_VIRT_BASE = AOS_PCIe_VIRT_BASE"

text \<open>The static variables of pcie.c: its copy of the table pointer and the number of segments.\<close>

record pcie_state =
  pcie_mcfg :: u64
  mcfg_num_segs :: int

section \<open>Configuration registers\<close>

text \<open>The address of the \<open>i\<close>-th segment of the table.\<close>

definition segment_entry :: "pcie_state \<Rightarrow> nat \<Rightarrow> u64" where
  "segment_entry c i = pcie_mcfg c + of_nat (sizeof acpi_mcfg) + of_nat (sizeof acpi_mcfg_entry) * of_nat i"

fun segment_loop :: "pcie_state \<Rightarrow> u8 \<Rightarrow> nat list \<Rightarrow> 'a pager_scheme \<Rightarrow> int option" where
  "segment_loop c bus [] s = Some 0"
| "segment_loop c bus (i # is) s = do {
     start_bus \<leftarrow> vrd8 (fld (segment_entry c i) acpi_mcfg_entry ''start_bus'') s;
     end_bus \<leftarrow> vrd8 (fld (segment_entry c i) acpi_mcfg_entry ''end_bus'') s;
     if start_bus \<le> bus \<and> bus \<le> end_bus then Some (int i) else segment_loop c bus is s }"

definition get_segment :: "pcie_state \<Rightarrow> u8 \<Rightarrow> 'a pager_scheme \<Rightarrow> int option" where
  "get_segment c bus s =
     (if pcie_mcfg c \<noteq> 0 then segment_loop c bus [0..<nat (mcfg_num_segs c)] s else Some 0)"

text \<open>
  Where a register is mapped, or \<open>None\<close> inside when the code falls back to the ports.
\<close>

definition ecam_address ::
  "pcie_state \<Rightarrow> u8 \<Rightarrow> u8 \<Rightarrow> u8 \<Rightarrow> u8 \<Rightarrow> 'a pager_scheme \<Rightarrow> u64 option option" where
  "ecam_address c bus slot func offset s =
     (if pcie_mcfg c \<noteq> 0 then do {
        eidx \<leftarrow> get_segment c bus s;
        if 0 \<le> eidx \<and> eidx < mcfg_num_segs c then do {
          let e = segment_entry c (nat eidx);
          seg \<leftarrow> vrd16 (fld e acpi_mcfg_entry ''pcie_segment'') s;
          start_bus \<leftarrow> vrd8 (fld e acpi_mcfg_entry ''start_bus'') s;
          Some (Some (PCIE_VIRT_BASE + push_bit 28 (ucast seg) + push_bit 20 (ucast bus - ucast start_bus)
            + push_bit 15 (ucast slot) + push_bit 12 (ucast func) + ucast offset)) }
        else Some None }
      else Some None)"

definition cf8_address :: "u8 \<Rightarrow> u8 \<Rightarrow> u8 \<Rightarrow> u8 \<Rightarrow> u32" where
  "cf8_address bus slot func offset = push_bit 31 1 OR push_bit 16 (ucast bus) OR push_bit 11 (ucast slot)
     OR push_bit 8 (ucast func) OR (ucast offset AND 0xFC)"

text \<open>A volatile 32-bit access to mapped device memory; \<open>None\<close> is a page fault.\<close>

definition mmio_read :: "device \<Rightarrow> u64 \<Rightarrow> ('a pager_scheme, u32) op" where
  "mmio_read dev virt s =
     (case tr s virt of
        None \<Rightarrow> None
      | Some (p, _) \<Rightarrow> Some (dev_mmio dev (io s) p, event (MmioRead p) s))"

definition mmio_write :: "u64 \<Rightarrow> u32 \<Rightarrow> ('a pager_scheme, unit) op" where
  "mmio_write virt value s =
     (case tr s virt of
        None \<Rightarrow> None
      | Some (p, _) \<Rightarrow> Some ((), event (MmioWrite p value) s))"

definition pcie_read :: "device \<Rightarrow> pcie_state \<Rightarrow> u8 \<Rightarrow> u8 \<Rightarrow> u8 \<Rightarrow> u8 \<Rightarrow> ('a pager_scheme, u32) op" where
  "pcie_read dev c bus slot func offset s = do {
     virt_addr \<leftarrow> ecam_address c bus slot func offset s;
     case virt_addr of
       Some v \<Rightarrow> mmio_read dev v s
     | None \<Rightarrow>
         (let s = outl 0xCF8 (cf8_address bus slot func offset) s
          in Some (inl dev 0xCFC s)) }"

definition pcie_write :: "pcie_state \<Rightarrow> u8 \<Rightarrow> u8 \<Rightarrow> u8 \<Rightarrow> u8 \<Rightarrow> u32 \<Rightarrow> ('a pager_scheme, int) op" where
  "pcie_write c bus slot func offset value s = do {
     virt_addr \<leftarrow> ecam_address c bus slot func offset s;
     case virt_addr of
       Some v \<Rightarrow> do { (_, s) \<leftarrow> mmio_write v value s; Some (1, s) }
     | None \<Rightarrow>
         (let s = outl 0xCF8 (cf8_address bus slot func offset) s
          in Some (1, outl 0xCFC value s)) }"

definition pcie_read_bar :: "device \<Rightarrow> pcie_state \<Rightarrow> u8 \<Rightarrow> u8 \<Rightarrow> u8 \<Rightarrow> u8 \<Rightarrow> ('a pager_scheme, u32) op" where
  "pcie_read_bar dev c bus slot func bar_index = pcie_read dev c bus slot func (PCI_BAR0 + bar_index * 4)"

definition pcie_config_read16 :: "device \<Rightarrow> pcie_state \<Rightarrow> u8 \<Rightarrow> u8 \<Rightarrow> u8 \<Rightarrow> u8 \<Rightarrow> ('a pager_scheme, u16) op" where
  "pcie_config_read16 dev c bus slot func offset s = do {
     (value, s) \<leftarrow> pcie_read dev c bus slot func (offset AND 0xFC) s;
     Some (if offset AND 2 \<noteq> 0 then ucast (drop_bit 16 value) else ucast (value AND 0xFFFF), s) }"

definition pcie_enable_busmaster :: "device \<Rightarrow> pcie_state \<Rightarrow> u8 \<Rightarrow> u8 \<Rightarrow> u8 \<Rightarrow> ('a pager_scheme, unit) op" where
  "pcie_enable_busmaster dev c bus slot func s = do {
     (cmd_reg, s) \<leftarrow> pcie_read dev c bus slot func 0x04 s;
     let cmd_reg = cmd_reg OR push_bit 1 1;
     let cmd_reg = cmd_reg OR push_bit 2 1;
     (_, s) \<leftarrow> pcie_write c bus slot func 0x04 cmd_reg s;
     Some ((), s) }"

section \<open>Searches\<close>

text \<open>The three nested loops: every bus, slot and function in ascending order.\<close>

definition pci_functions :: "(u8 \<times> u8 \<times> u8) list" where
  "pci_functions = [(of_nat b, of_nat d, of_nat f). b \<leftarrow> [0..<PCI_MAX_BUS], d \<leftarrow> [0..<PCI_MAX_SLOT], f \<leftarrow> [0..<PCI_MAX_FUNC]]"

type_synonym 's reader = "u8 \<Rightarrow> u8 \<Rightarrow> u8 \<Rightarrow> u8 \<Rightarrow> ('s, u32) op"

text \<open>
  The body the three searches share, for a test \<open>skip\<close> on the vendor and a test \<open>hit\<close> on the class
  register. The first hit ends the search with the first base address register.
\<close>

fun find_loop ::
  "'s reader \<Rightarrow> (u16 \<Rightarrow> bool) \<Rightarrow> (u32 \<Rightarrow> bool) \<Rightarrow> (u8 \<times> u8 \<times> u8) list
   \<Rightarrow> ('s, (u8 \<times> u8 \<times> u8 \<times> u32) option) op" where
  "find_loop rd skip hit [] s = Some (None, s)"
| "find_loop rd skip hit ((b, d, f) # xs) s = do {
     (data, s) \<leftarrow> rd b d f 0 s;
     let vendor = ucast (data AND 0xFFFF);
     if skip vendor then find_loop rd skip hit xs s
     else do {
       (class_data, s) \<leftarrow> rd b d f 0x08 s;
       if hit class_data then do {
         (bar0, s) \<leftarrow> rd b d f 0x10 s;
         Some (Some (b, d, f, bar0), s) }
       else find_loop rd skip hit xs s } }"

definition class_of :: "u32 \<Rightarrow> u8" where "class_of w = ucast (drop_bit 24 w AND 0xFF)"
definition class_sub_of :: "u32 \<Rightarrow> u8" where "class_sub_of w = ucast (drop_bit 16 w AND 0xFF)"
definition class_progif_of :: "u32 \<Rightarrow> u8" where "class_progif_of w = ucast (drop_bit 8 w AND 0xFF)"
definition revision_of :: "u32 \<Rightarrow> u8" where "revision_of w = ucast (w AND 0xFF)"

definition pcie_find :: "device \<Rightarrow> pcie_state \<Rightarrow> u8 \<Rightarrow> u16 \<Rightarrow> u8 \<Rightarrow> ('a pager_scheme, (u8 \<times> u8 \<times> u8 \<times> u32) option) op" where
  "pcie_find dev c tclass tvendor use_vendor =
     find_loop (pcie_read dev c) (\<lambda>vendor. use_vendor \<noteq> 0 \<and> vendor \<noteq> tvendor)
       (\<lambda>w. class_of w = tclass) pci_functions"

definition pcie_find_ex ::
  "device \<Rightarrow> pcie_state \<Rightarrow> u8 \<Rightarrow> u8 \<Rightarrow> u8 \<Rightarrow> u16 \<Rightarrow> u8 \<Rightarrow> ('a pager_scheme, (u8 \<times> u8 \<times> u8 \<times> u32) option) op" where
  "pcie_find_ex dev c tclass tsubclass tprogif tvendor use_vendor =
     find_loop (pcie_read dev c)
       (\<lambda>vendor. vendor = 0xFFFF \<or> (use_vendor = 1 \<and> vendor \<noteq> tvendor))
       (\<lambda>w. class_of w = tclass \<and> class_sub_of w = tsubclass
          \<and> class_progif_of w = tprogif) pci_functions"

definition pcie_find_rex ::
  "device \<Rightarrow> pcie_state \<Rightarrow> u8 \<Rightarrow> u8 \<Rightarrow> u8 \<Rightarrow> u8 \<Rightarrow> u16 \<Rightarrow> u8 \<Rightarrow> ('a pager_scheme, (u8 \<times> u8 \<times> u8 \<times> u32) option) op" where
  "pcie_find_rex dev c tclass tsubclass tprogif trevision tvendor use_vendor =
     find_loop (pcie_read dev c)
       (\<lambda>vendor. vendor = 0xFFFF \<or> (use_vendor = 0 \<and> vendor \<noteq> tvendor))
       (\<lambda>w. class_of w = tclass \<and> class_sub_of w = tsubclass
          \<and> class_progif_of w = tprogif \<and> revision_of w = trevision) pci_functions"

section \<open>Start-up\<close>

text \<open>The loop that maps the segments.\<close>

fun map_segments :: "pcie_state \<Rightarrow> nat list \<Rightarrow> ('a pager_scheme, unit) op" where
  "map_segments c [] s = Some ((), s)"
| "map_segments c (i # is) s = do {
     let e = segment_entry c i;
     end_bus \<leftarrow> vrd8 (fld e acpi_mcfg_entry ''end_bus'') s;
     start_bus \<leftarrow> vrd8 (fld e acpi_mcfg_entry ''start_bus'') s;
     let bus_count = (ucast end_bus - ucast start_bus + 1 :: u32);
     let nbytes = push_bit 20 (ucast bus_count);
     seg \<leftarrow> vrd16 (fld e acpi_mcfg_entry ''pcie_segment'') s;
     base_addr \<leftarrow> vrd64 (fld e acpi_mcfg_entry ''base_addr'') s;
     (_, s) \<leftarrow> pager_map_range (PCIE_VIRT_BASE + push_bit 28 (ucast seg)) base_addr nbytes
       (PAGE_PRESENT OR PAGE_RW OR PAGE_PCD) s;
     map_segments c is s }"

text \<open>What the code stores in the module it found.\<close>

definition found_device :: "u8 \<Rightarrow> u8 \<Rightarrow> u8 \<Rightarrow> u16 \<Rightarrow> u32 \<Rightarrow> u32 \<Rightarrow> AOS_Module \<Rightarrow> AOS_Module" where
  "found_device b d f vendor class_data bar ob = ob\<lparr>driver_module := (driver_module ob)\<lparr>pcie_device :=
     (pcie_device (driver_module ob))\<lparr>dbus := b, dslot := d, dfunc := f, bar0 := ucast bar,
       class_code := class_of class_data, sub_class := class_sub_of class_data, vendor_id := vendor,
       prog_if := class_progif_of class_data, device_id := ucast (drop_bit 16 class_data AND 0xFFFF)\<rparr>\<rparr>\<rparr>"

fun offer_functions ::
  "device \<Rightarrow> pcie_state \<Rightarrow> (u8 \<times> u8 \<times> u8) list \<Rightarrow> (module_state \<times> 'a pager_scheme, unit) op" where
  "offer_functions dev c [] ms = Some ((), ms)"
| "offer_functions dev c ((b, d, f) # xs) ms = do {
     let (m, s) = ms;
     (data, s) \<leftarrow> pcie_read dev c b d f 0 s;
     let vendor = ucast (data AND 0xFFFF);
     (class_data, s) \<leftarrow> pcie_read dev c b d f 0x08 s;
     let p = module_get_first_applicable_driver
       \<lparr>qclass = class_of class_data, qsubclass = class_sub_of class_data, quse_subclass = 1,
        qprogif = class_progif_of class_data, quse_progif = 1, qrevision = revision_of class_data,
        quse_revision = 1, qvendor = vendor, quse_vendor = 1\<rparr> m;
     if p = 0 \<or> mtype (hdr (module_objs m p)) \<noteq> MODULE_TYPE_DRIVER then offer_functions dev c xs (m, s)
     else if module_already_initialized p m \<noteq> 0 then offer_functions dev c xs (m, s)
     else do {
       let s = diag ''[PCIe] Registering Module %s, Got for Class:%d SClass:%d Progif:%d''
         [Str (Some (mname (hdr (module_objs m p)))), Num (ucast (class_of class_data)),
          Num (ucast (class_sub_of class_data)), Num (ucast (class_progif_of class_data))] s;
       (bar, s) \<leftarrow> pcie_read dev c b d f 0x10 s;
       let m = m\<lparr>module_objs := (module_objs m)(p := found_device b d f vendor class_data bar (module_objs m p))\<rparr>;
       (_, ms) \<leftarrow> module_register p (m, s);
       offer_functions dev c xs ms } }"

text \<open>\<open>int = (length - sizeof - 8) / sizeof\<close> in 64 bits, cut to 32.\<close>

definition segment_count :: "u32 \<Rightarrow> int" where
  "segment_count len =
     sint (ucast ((ucast len - of_nat (sizeof acpi_mcfg) - 8 :: u64) div of_nat (sizeof acpi_mcfg_entry)) :: u32)"

definition pcie_init ::
  "device \<Rightarrow> (pcie_state \<times> acpi_state \<times> module_state \<times> 'a pager_scheme, u8) op" where
  "pcie_init dev = (\<lambda>(c, a, m, s). do {
     (tbl, (a, s)) \<leftarrow> acpi_get_mcfg (a, s);
     let c = c\<lparr>pcie_mcfg := tbl\<rparr>;
     if tbl = 0
     then Some (1, (c, a, m, diag ''[PCIe] Did not get MCFG Table! Using PCI'' [] s))
     else do {
       len \<leftarrow> vrd32 (fld tbl acpi_sdt_header ''length'') s;
       let c = c\<lparr>mcfg_num_segs := segment_count len\<rparr>;
       (_, s) \<leftarrow> map_segments c [0..<nat (mcfg_num_segs c)] s;
       let s = diag ''[PCIe] Registering Modules...'' [] s;
       (_, (m, s)) \<leftarrow> offer_functions dev c pci_functions (m, s);
       Some (1, (c, a, m, diag ''[PCIe] Modules Registered'' [] s)) } })"

section \<open>What the searches rely on\<close>

text \<open>
  A configuration space the registers of which can be read at any time and do not change while it
  is searched.
\<close>

locale config_space =
  fixes rd :: "'s reader"
    and regs :: "u8 \<Rightarrow> u8 \<Rightarrow> u8 \<Rightarrow> u8 \<Rightarrow> u32"
    and good :: "'s \<Rightarrow> bool"
  assumes rd_good: "good s \<Longrightarrow> \<exists>t. rd b d f offset s = Some (regs b d f offset, t) \<and> good t"
begin

definition matches :: "(u16 \<Rightarrow> bool) \<Rightarrow> (u32 \<Rightarrow> bool) \<Rightarrow> u8 \<times> u8 \<times> u8 \<Rightarrow> bool" where
  "matches skip hit = (\<lambda>(b, d, f). \<not> skip (ucast (regs b d f 0 AND 0xFFFF)) \<and> hit (regs b d f 0x08))"

lemma find_loop_first:
  "good s \<Longrightarrow> \<exists>t. find_loop rd skip hit xs s
     = Some (map_option (\<lambda>(b, d, f). (b, d, f, regs b d f 0x10)) (find (matches skip hit) xs), t) \<and> good t"
proof (induction xs arbitrary: s)
  case Nil
  then show ?case
    by simp
next
  case (Cons x xs)
  obtain b d f where x: "x = (b, d, f)"
    by (metis prod_cases3)
  obtain t1 where t1: "rd b d f 0 s = Some (regs b d f 0, t1)" "good t1"
    using rd_good [OF Cons.prems] by blast
  obtain t2 where t2: "rd b d f 0x08 t1 = Some (regs b d f 0x08, t2)" "good t2"
    using rd_good [OF t1(2)] by blast
  obtain t3 where t3: "rd b d f 0x10 t2 = Some (regs b d f 0x10, t3)" "good t3"
    using rd_good [OF t2(2)] by blast
  show ?case
    using Cons.IH [OF t1(2)] Cons.IH [OF t2(2)] t3 by (simp add: x t1(1) t2(1) matches_def Let_def)
qed

end

section \<open>Access through the ports\<close>

lemma read_ports:
  "ecam_address c b d f offset s = Some None \<Longrightarrow> pcie_read dev c b d f offset s
     = Some (dev_in32 dev (Out32 0xCF8 (cf8_address b d f offset) # io s) 0xCFC,
         event (In32 0xCFC) (event (Out32 0xCF8 (cf8_address b d f offset)) s))"
  by (simp add: pcie_read_def outl_def inl_def)

lemma write_ports:
  "ecam_address c b d f offset s = Some None \<Longrightarrow> pcie_write c b d f offset v s
     = Some (1, event (Out32 0xCFC v) (event (Out32 0xCF8 (cf8_address b d f offset)) s))"
  by (simp add: pcie_write_def outl_def)

text \<open>No segment: the state before start-up, and after it with a table of one segment.\<close>

definition no_segments :: "pcie_state \<Rightarrow> bool" where
  "no_segments c \<longleftrightarrow> pcie_mcfg c = 0 \<or> mcfg_num_segs c \<le> 0"

lemma no_segments_ports: "no_segments c \<Longrightarrow> ecam_address c b d f offset s = Some None"
  by (auto simp: ecam_address_def no_segments_def get_segment_def)

text \<open>
  A host bridge: what is read from 0xCFC is the register that was selected by the last write to
  0xCF8.
\<close>

definition host_bridge :: "device \<Rightarrow> (u32 \<Rightarrow> u32) \<Rightarrow> bool" where
  "host_bridge dev cfg \<longleftrightarrow> (\<forall>h a. dev_in32 dev (Out32 0xCF8 a # h) 0xCFC = cfg a)"

lemma host_bridge_space:
  assumes "host_bridge dev cfg" and "no_segments c"
  shows "config_space (pcie_read dev c) (\<lambda>b d f offset. cfg (cf8_address b d f offset)) (\<lambda>_. True)"
  using assms(1) by unfold_locales (simp add: read_ports no_segments_ports [OF assms(2)] host_bridge_def)

definition bridge_device :: "(u32 \<Rightarrow> u32) \<Rightarrow> device" where
  "bridge_device cfg = \<lparr>dev_in8 = (\<lambda>_ _. 0xFF), dev_in16 = (\<lambda>_ _. 0xFFFF),
     dev_in32 = (\<lambda>h port. case h of
         Out32 p a # _ \<Rightarrow> if p = 0xCF8 \<and> port = 0xCFC then cfg a else 0xFFFFFFFF
       | _ \<Rightarrow> 0xFFFFFFFF),
     dev_mmio = (\<lambda>_ _. 0), dev_tsc = (\<lambda>_. 0), dev_cpuid = (\<lambda>_. (0, 0, 0, 0))\<rparr>"

definition pci_only :: pcie_state where
  "pci_only = \<lparr>pcie_mcfg = 0, mcfg_num_segs = 0\<rparr>"

lemma bridge_device_ok: "host_bridge (bridge_device cfg) cfg" and pci_only_ok: "no_segments pci_only"
  by (simp_all add: host_bridge_def bridge_device_def no_segments_def pci_only_def)

interpretation ports: config_space "pcie_read (bridge_device cfg) pci_only"
    "\<lambda>b d f offset. cfg (cf8_address b d f offset)" "\<lambda>_. True" for cfg
  by (rule host_bridge_space [OF bridge_device_ok pci_only_ok])

section \<open>Access through memory\<close>

text \<open>
  One segment that starts at bus 0, mapped at the address the code computes; the memory mapped
  registers read as \<open>cfg\<close> says.
\<close>

definition ecam_mapped :: "pcie_state \<Rightarrow> u64 \<Rightarrow> 'a pager_scheme \<Rightarrow> bool" where
  "ecam_mapped c base s \<longleftrightarrow> pcie_mcfg c \<noteq> 0 \<and> 0 < mcfg_num_segs c
     \<and> (\<forall>b. get_segment c b s = Some 0)
     \<and> vrd16 (segment_entry c 0 + 8) s = Some 0 \<and> vrd8 (segment_entry c 0 + 10) s = Some 0
     \<and> (\<forall>b d f offset. \<exists>fl. tr s (PCIE_VIRT_BASE + push_bit 20 (ucast (b :: u8)) + push_bit 15 (ucast (d :: u8))
           + push_bit 12 (ucast (f :: u8)) + ucast (offset :: u8))
         = Some (base + push_bit 20 (ucast b) + push_bit 15 (ucast d) + push_bit 12 (ucast f) + ucast offset, fl))"

lemma vrd_event: "vrd8 v (event e s) = vrd8 v s" "vrd16 v (event e s) = vrd16 v s"
  for s :: "'a pager_scheme"
proof -
  have "mem (event e s) = mem s" "tr (event e s) = tr s"
    by simp_all
  note c = vld_cong [OF this]
  show "vrd8 v (event e s) = vrd8 v s" "vrd16 v (event e s) = vrd16 v s"
    by (simp_all only: vrd8_def vrd16_def c)
qed

lemma segment_event: "get_segment c b (event e s) = get_segment c b s"
  for s :: "'a pager_scheme"
proof -
  have "segment_loop c b is (event e s) = segment_loop c b is s" for "is"
    by (induction "is") (simp_all only: segment_loop.simps vrd_event)
  then show ?thesis
    by (simp add: get_segment_def)
qed

lemma ecam_space:
  assumes "\<forall>h p. dev_mmio dev h p = cfg p"
  shows "config_space (pcie_read dev c)
    (\<lambda>b d f offset. cfg (base + push_bit 20 (ucast b) + push_bit 15 (ucast d) + push_bit 12 (ucast f) + ucast offset))
    (ecam_mapped c base)"
proof
  fix s :: "'a pager_scheme" and b d f offset :: u8
  assume good: "ecam_mapped c base s"
  obtain fl where m: "tr s (PCIE_VIRT_BASE + push_bit 20 (ucast b) + push_bit 15 (ucast d) + push_bit 12 (ucast f) + ucast offset)
      = Some (base + push_bit 20 (ucast b) + push_bit 15 (ucast d) + push_bit 12 (ucast f) + ucast offset, fl)"
    using good unfolding ecam_mapped_def by blast
  have "ecam_address c b d f offset s
      = Some (Some (PCIE_VIRT_BASE + push_bit 20 (ucast b) + push_bit 15 (ucast d) + push_bit 12 (ucast f) + ucast offset))"
    using good by (simp add: ecam_address_def ecam_mapped_def)
  moreover have "ecam_mapped c base (event e s)" for e
    using good by (simp add: ecam_mapped_def vrd_event segment_event)
  ultimately show "\<exists>t. pcie_read dev c b d f offset s
      = Some (cfg (base + push_bit 20 (ucast b) + push_bit 15 (ucast d) + push_bit 12 (ucast f) + ucast offset), t)
    \<and> ecam_mapped c base t"
    using assms m by (simp add: pcie_read_def mmio_read_def)
qed

section \<open>Addresses of registers\<close>

lemma slot_bit: "d < 32 \<Longrightarrow> bit d k \<Longrightarrow> k < 5" and func_bit: "f < 8 \<Longrightarrow> bit f k \<Longrightarrow> k < 3"
  for d f :: u8
  using bit_small_word [of d 5 k] bit_small_word [of f 3 k] by (auto simp: word_less_nat_alt not_less [symmetric])

lemma bit_cf8:
  assumes "d < 32" and "f < 8"
  shows "bit (cf8_address b d f r) n \<longleftrightarrow>
    (if n < 8 then 2 \<le> n \<and> bit r n else if n < 11 then bit f (n - 8) else if n < 16 then bit d (n - 11)
     else if n < 24 then bit b (n - 16) else n = 31)"
proof -
  note d = slot_bit [OF assms(1)] and f = func_bit [OF assms(2)]
  have fc: "bit (0xFC :: u32) n \<longleftrightarrow> 2 \<le> n \<and> n < 8"
  proof -
    have eq: "(0xFC :: u32) = push_bit 2 (mask 6)"
      by (simp add: mask_eq_exp_minus_1 push_bit_eq_mult)
    show ?thesis
      unfolding eq by (auto simp: bit_simps)
  qed
  have b: "bit x k \<Longrightarrow> k < 8" for x :: u8 and k
    using bit_imp_le_length [of x k] by simp
  have all: "bit (cf8_address b d f r) n \<longleftrightarrow> n = 31 \<or> 16 \<le> n \<and> n < 32 \<and> bit b (n - 16)
      \<or> 11 \<le> n \<and> n < 32 \<and> bit d (n - 11) \<or> 8 \<le> n \<and> n < 32 \<and> bit f (n - 8) \<or> 2 \<le> n \<and> n < 8 \<and> bit r n"
    unfolding cf8_address_def bit_or_iff bit_and_iff bit_push_bit_iff fc bit_ucast_iff
    using b [of b "n - 16"] b [of r n] by (auto simp: bit_1_iff)
  have "bit d (n - 11) \<Longrightarrow> n < 16" "bit f (n - 8) \<Longrightarrow> n < 11" "bit b (n - 16) \<Longrightarrow> n < 24"
    using d [of "n - 11"] f [of "n - 8"] b [of b "n - 16"] by linarith+
  then show ?thesis
    unfolding all by (cases "n < 8"; cases "n < 11"; cases "n < 16"; cases "n < 24") auto
qed

lemma cf8_inject:
  assumes df: "d < 32" "f < 8" "d' < 32" "f' < 8" and r: "r AND 0xFC = r" "r' AND 0xFC = r'"
    and eq: "cf8_address b d f r = cf8_address b' d' f' r'"
  shows "b = b' \<and> d = d' \<and> f = f' \<and> r = r'"
proof -
  note bits = bit_cf8 [OF df(1,2), of b r] bit_cf8 [OF df(3,4), of b' r']
  have e: "bit (cf8_address b d f r) n = bit (cf8_address b' d' f' r') n" for n
    using eq by simp
  have fc: "(0xFC :: u8) = NOT (mask 2)"
    by (simp add: mask_eq_exp_minus_1)
  have low: "2 \<le> n" if "bit x n" "x AND 0xFC = x" for x :: u8 and n
  proof (rule ccontr)
    assume "\<not> 2 \<le> n"
    then have "\<not> bit (x AND NOT (mask 2)) n"
      by (simp add: bit_simps)
    then show False
      using that unfolding fc by metis
  qed
  have "b = b'"
  proof (rule bit_word_eqI)
    fix n assume "n < LENGTH(8)"
    then show "bit b n = bit b' n"
      using e [of "n + 16"] by (simp add: bits)
  qed
  moreover have "d = d'"
  proof (rule bit_word_eqI)
    fix n assume "n < LENGTH(8)"
    show "bit d n = bit d' n"
      using e [of "n + 11"] slot_bit [OF df(1), of n] slot_bit [OF df(3), of n]
      by (cases "n < 5") (auto simp: bits)
  qed
  moreover have "f = f'"
  proof (rule bit_word_eqI)
    fix n assume "n < LENGTH(8)"
    show "bit f n = bit f' n"
      using e [of "n + 8"] func_bit [OF df(2), of n] func_bit [OF df(4), of n]
      by (cases "n < 3") (auto simp: bits)
  qed
  moreover have "r = r'"
  proof (rule bit_word_eqI)
    fix n assume "n < LENGTH(8)"
    then show "bit r n = bit r' n"
      using e [of n] low [of r n] low [of r' n] r by (cases "2 \<le> n") (auto simp: bits)
  qed
  ultimately show ?thesis
    by simp
qed

lemma functions_mem:
  assumes "d < 32" and "f < 8"
  shows "(b, d, f) \<in> set pci_functions"
proof -
  have u: "unat b < 256" "unat d < 32" "unat f < 8"
    using unat_less_exp [of b] assms by (simp_all add: word_less_nat_alt)
  have "(of_nat (unat b), of_nat (unat d), of_nat (unat f)) \<in> set pci_functions"
    unfolding pci_functions_def PCI_MAX_BUS_def PCI_MAX_SLOT_def PCI_MAX_FUNC_def set_concat set_map image_image
    using u by (intro UN_I [of "unat b"] UN_I [of "unat d"] image_eqI [of _ _ "unat f"]) auto
  then show ?thesis
    by simp
qed

lemma functions_bound: "(b, d, f) \<in> set pci_functions \<Longrightarrow> d < 32 \<and> f < 8"
  by (auto simp: pci_functions_def PCI_MAX_SLOT_def PCI_MAX_FUNC_def word_less_nat_alt unat_of_nat_small)

section \<open>Properties\<close>


text \<open>An AHCI controller as function 1 of slot 3 is the only device on the bus.\<close>

definition ahci_config :: "u32 \<Rightarrow> u32" where
  "ahci_config a = (if a = cf8_address 0 3 1 0 then 0x29228086 else if a = cf8_address 0 3 1 0x08 then 0x01060102
     else if a = cf8_address 0 3 1 0x10 then 0xFEBF1000 else 0xFFFFFFFF)"


text \<open>
  Two different registers are never selected by the same value of port 0xCF8, for every bus and
  the 32 slots, 8 functions and 64 registers of each.
\<close>

theorem cf8_address_injective:
  assumes "d < 32" "f < 8" "d' < 32" "f' < 8" and "r AND 0xFC = r" "r' AND 0xFC = r'"
    and "cf8_address b d f r = cf8_address b' d' f' r'"
  shows "b = b' \<and> d = d' \<and> f = f' \<and> r = r'"
  by (rule cf8_inject [OF assms])

theorem cf8_address_injective_witness: "cf8_address 0 3 1 0x08 \<noteq> cf8_address 0 3 2 0x08"
  using cf8_address_injective [of 3 1 3 2 "0x08" "0x08" 0 0] by auto

text \<open>
  The vendor test of \<open>pcie_find_rex\<close> is inverted: a caller that asks for a vendor (\<open>use_vendor\<close> is
  1) gets the same function for every vendor, and a caller that does not (\<open>use_vendor\<close> is 0) gets
  what \<open>pcie_find_rex\<close> was to return for that vendor.
\<close>

theorem pcie_find_rex_ignores_vendor:
  "pcie_find_rex dev c cls sub progif revision vendor 1 s = pcie_find_rex dev c cls sub progif revision vendor' 1 s"
  by (simp add: pcie_find_rex_def)

text \<open>\<open>segment_count\<close> loses a segment: the header size it subtracts already holds the reserved words.\<close>

lemma segment_count_entries:
  assumes "0 < n" and "n < 0x1000000"
  shows "segment_count (of_nat (44 + 16 * n)) = int n - 1"
proof -
  let ?l = "of_nat (44 + 16 * n) :: u32"
  have e: "(ucast ?l :: u64) = of_nat (44 + 16 * n)"
    by (rule ucast_half) (use assms(2) in simp)
  have l: "unat (ucast ?l :: u64) = 44 + 16 * n"
    unfolding e by (rule unat_of_nat_small) (use assms(2) in simp)
  have "unat (ucast ?l - 44 - 8 :: u64) = 16 * n - 8"
    using l assms(1) by (simp add: unat_sub_if' word_le_nat_alt)
  then have "unat ((ucast ?l - 44 - 8 :: u64) div 16) = n - 1"
    by (simp add: unat_div)
  then have q: "(ucast ?l - 44 - 8 :: u64) div 16 = of_nat (n - 1)"
    using assms(2) by (simp add: word_unat_eq_iff unat_of_nat_small)
  have "sint (of_nat (n - 1) :: u32) = int (n - 1)"
    using assms(2) by (simp add: signed_of_nat signed_take_bit_int_eq_self)
  moreover have "ucast (of_nat (n - 1) :: u64) = (of_nat (n - 1) :: u32)"
    using assms(2) by (simp add: unsigned_of_nat take_bit_nat_eq_self)
  ultimately show ?thesis
    using assms(1) q by (simp add: segment_count_def)
qed

lemma offer_nothing:
  assumes "no_segments c" and "module_count m = 0"
  shows "\<exists>t. offer_functions dev c xs (m, s) = Some ((), (m, t)) \<and> mem t = mem s \<and> tr t = tr s \<and> locks t = locks s"
proof (induction xs arbitrary: s)
  case (Cons x xs)
  obtain b d f where x: "x = (b, d, f)"
    by (metis prod_cases3)
  have none: "module_get_first_applicable_driver q m = 0" for q
    using assms(2) by (simp add: module_get_first_applicable_driver_def)
  let ?t = "\<lambda>s off. event (In32 0xCFC) (event (Out32 0xCF8 (cf8_address b d f off)) s)"
  have "offer_functions dev c ((b, d, f) # xs) (m, s) = offer_functions dev c xs (m, ?t (?t s 0) 0x08)"
    unfolding offer_functions.simps Let_def read_ports [OF no_segments_ports [OF assms(1)]] by (simp add: none)
  then show ?case
    using Cons.IH [of "?t (?t s 0) 0x08"] unfolding x by simp
qed simp

lemma vrd32_cong: "mem t = mem s \<Longrightarrow> tr t = tr s \<Longrightarrow> vrd32 v t = vrd32 v s"
  unfolding vrd32_def by (metis vld_cong)



end
