(* ===== verification/Ata.thy ===== *)
theory Ata
  imports Machine
begin

text \<open>
  The disk driver of ata.c: polling, the LBA48 register protocol and the transfer of sectors
  through the data port, for the four drives on the two buses. The buffer of the caller is an
  address of mapped memory.
\<close>

unbundle bit_operations_syntax

section \<open>Constants and data\<close>

definition ATA_SR_BSY :: u8 where "ATA_SR_BSY = 0x80"
definition ATA_SR_DRDY :: u8 where "ATA_SR_DRDY = 0x40"
definition ATA_SR_DRQ :: u8 where "ATA_SR_DRQ = 0x08"
definition ATA_SR_ERR :: u8 where "ATA_SR_ERR = 0x01"
definition ATA_CMD_READ_PIO_EXT :: u8 where "ATA_CMD_READ_PIO_EXT = 0x24"
definition ATA_CMD_WRITE_PIO_EXT :: u8 where "ATA_CMD_WRITE_PIO_EXT = 0x34"
definition ATA_CMD_FLUSH_EXT :: u8 where "ATA_CMD_FLUSH_EXT = 0xEA"

lemmas ata_defs = ATA_SR_BSY_def ATA_SR_DRDY_def ATA_SR_DRQ_def ATA_SR_ERR_def
  ATA_CMD_READ_PIO_EXT_def ATA_CMD_WRITE_PIO_EXT_def ATA_CMD_FLUSH_EXT_def

record ATA_DP =
  lba :: u64
  nsectors :: u16

record ata_bus_t =
  io_base :: u16
  ctrl_base :: u16

definition ata_buses :: "ata_bus_t list" where
  "ata_buses = [\<lparr>io_base = 0x1F0, ctrl_base = 0x3F6\<rparr>, \<lparr>io_base = 0x170, ctrl_base = 0x376\<rparr>]"

section \<open>Operations\<close>

text \<open>The polling loop with its timeout; the caller does not learn which way it ended.\<close>

fun ata_wait_ready :: "device \<Rightarrow> u16 \<Rightarrow> nat \<Rightarrow> 'a mach_scheme \<Rightarrow> 'a mach_scheme" where
  "ata_wait_ready dev bs 0 s = s"
| "ata_wait_ready dev bs (Suc timeout) s =
     (let (status, s) = inb dev (bs + 7) s in
      if status AND ATA_SR_BSY = 0 \<and> status AND ATA_SR_DRDY \<noteq> 0 then s
      else ata_wait_ready dev bs timeout s)"

definition ata_timeout :: nat where "ata_timeout = 100000"

definition drive_bus :: "u8 \<Rightarrow> ata_bus_t" where
  "drive_bus drive = ata_buses ! unat (drop_bit 1 (drive - 0x80) AND 1)"

text \<open>The register writes of both functions, up to the command.\<close>

definition ata_command :: "ATA_DP \<Rightarrow> u8 \<Rightarrow> u8 \<Rightarrow> 'a mach_scheme \<Rightarrow> 'a mach_scheme" where
  "ata_command dp drive cmd s =
     (let bs = io_base (drive_bus drive); ctrl = ctrl_base (drive_bus drive);
          device = drive AND 1;
          s = outb ctrl 0x00 s;
          s = outb (bs + 2) (ucast (drop_bit 8 (nsectors dp) AND 0xFF)) s;
          s = outb (bs + 3) (ucast (drop_bit 24 (lba dp) AND 0xFF)) s;
          s = outb (bs + 4) (ucast (drop_bit 32 (lba dp) AND 0xFF)) s;
          s = outb (bs + 5) (ucast (drop_bit 40 (lba dp) AND 0xFF)) s;
          s = outb (bs + 6) (0x40 OR push_bit 4 device) s;
          s = outb (bs + 2) (ucast (nsectors dp AND 0xFF)) s;
          s = outb (bs + 3) (ucast (lba dp AND 0xFF)) s;
          s = outb (bs + 4) (ucast (drop_bit 8 (lba dp) AND 0xFF)) s;
          s = outb (bs + 5) (ucast (drop_bit 16 (lba dp) AND 0xFF)) s
      in outb (bs + 7) cmd s)"

text \<open>The loop that waits for the data request bit has no timeout.\<close>

partial_function (option) wait_drq :: "device \<Rightarrow> u16 \<Rightarrow> 'a mach_scheme \<Rightarrow> (unit \<times> 'a mach_scheme) option" where
  "wait_drq dev bs s =
     (if fst (inb dev (bs + 7) s) AND ATA_SR_DRQ = 0 then wait_drq dev bs (snd (inb dev (bs + 7) s))
      else Some ((), snd (inb dev (bs + 7) s)))"

text \<open>
  The loops over the sectors, for a transfer of 256 words at an address.
\<close>

fun sector_loop ::
  "device \<Rightarrow> u16 \<Rightarrow> (u64 \<Rightarrow> 'a mach_scheme \<Rightarrow> 'a mach_scheme) \<Rightarrow> u64 \<Rightarrow> nat list \<Rightarrow> ('a mach_scheme, int) op" where
  "sector_loop dev bs transfer buffer [] s = Some (0, s)"
| "sector_loop dev bs transfer buffer (i # is) s =
     (let s = ata_wait_ready dev bs ata_timeout s;
          (status, s) = inb dev (bs + 7) s in
      if status AND ATA_SR_ERR \<noteq> 0 then Some (- 1, s)
      else do {
        (_, s) \<leftarrow> wait_drq dev bs s;
        sector_loop dev bs transfer buffer is (transfer (buffer + ucast (of_nat i * 512 :: u32)) s) })"

definition ata_read_sectors :: "device \<Rightarrow> ATA_DP \<Rightarrow> u64 \<Rightarrow> u8 \<Rightarrow> ('a mach_scheme, int) op" where
  "ata_read_sectors dev dp buffer drive = locked Ata_lock (\<lambda>s.
     let bs = io_base (drive_bus drive);
         s = ata_wait_ready dev bs ata_timeout s;
         s = ata_command dp drive ATA_CMD_READ_PIO_EXT s
     in sector_loop dev bs (\<lambda>buf. insw dev bs buf 256) buffer [0..<unat (nsectors dp)] s)"

definition ata_write_sectors :: "device \<Rightarrow> ATA_DP \<Rightarrow> u64 \<Rightarrow> u8 \<Rightarrow> ('a mach_scheme, int) op" where
  "ata_write_sectors dev dp buffer drive = locked Ata_lock (\<lambda>s.
     let bs = io_base (drive_bus drive);
         s = ata_wait_ready dev bs ata_timeout s;
         s = ata_command dp drive ATA_CMD_WRITE_PIO_EXT s
     in do {
       (r, s) \<leftarrow> sector_loop dev bs (\<lambda>buf. outsw bs buf 256) buffer [0..<unat (nsectors dp)] s;
       if r \<noteq> 0 then Some (r, s)
       else Some (0, ata_wait_ready dev bs ata_timeout (outb (bs + 7) ATA_CMD_FLUSH_EXT s)) })"

section \<open>A disk\<close>

text \<open>
  What a drive makes of the register writes (newest first): the last two values written to a
  register, the last command, the number of words transferred since, the address.
\<close>

fun reg :: "u16 \<Rightarrow> io_event list \<Rightarrow> u8" where
  "reg p [] = 0"
| "reg p (Out8 q v # h) = (if q = p then v else reg p h)"
| "reg p (_ # h) = reg p h"

fun reg_before :: "u16 \<Rightarrow> io_event list \<Rightarrow> u8" where
  "reg_before p [] = 0"
| "reg_before p (Out8 q v # h) = (if q = p then reg p h else reg_before p h)"
| "reg_before p (_ # h) = reg_before p h"

fun transferred :: "u16 \<Rightarrow> io_event list \<Rightarrow> nat" where
  "transferred bs [] = 0"
| "transferred bs (Out8 q v # h) = (if q = bs + 7 then 0 else transferred bs h)"
| "transferred bs (Out16 q v # h) = (if q = bs then Suc (transferred bs h) else transferred bs h)"
| "transferred bs (In16 q # h) = (if q = bs then Suc (transferred bs h) else transferred bs h)"
| "transferred bs (_ # h) = transferred bs h"

definition disk_address :: "u16 \<Rightarrow> io_event list \<Rightarrow> nat" where
  "disk_address bs h = unat (reg (bs + 3) h) + 2 ^ 8 * unat (reg (bs + 4) h) + 2 ^ 16 * unat (reg (bs + 5) h)
     + 2 ^ 24 * unat (reg_before (bs + 3) h) + 2 ^ 32 * unat (reg_before (bs + 4) h)
     + 2 ^ 40 * unat (reg_before (bs + 5) h)"

text \<open>
  The words on the two drives of a bus, by the value of the drive register: what was written since
  the start, on top of \<open>base\<close>.
\<close>

fun disk :: "(u8 \<Rightarrow> nat \<Rightarrow> u16) \<Rightarrow> u16 \<Rightarrow> io_event list \<Rightarrow> u8 \<Rightarrow> nat \<Rightarrow> u16" where
  "disk base bs [] = base"
| "disk base bs (Out16 q v # h) =
     (if q = bs \<and> reg (bs + 7) h = ATA_CMD_WRITE_PIO_EXT
      then (disk base bs h)(reg (bs + 6) h := (disk base bs h (reg (bs + 6) h))
             (256 * disk_address bs h + transferred bs h := v))
      else disk base bs h)"
| "disk base bs (_ # h) = disk base bs h"

text \<open>
  A bus whose drives are always ready and without error, and hand out the words they hold.
\<close>

definition ata_drive :: "device \<Rightarrow> (u8 \<Rightarrow> nat \<Rightarrow> u16) \<Rightarrow> u16 \<Rightarrow> bool" where
  "ata_drive dev base bs \<longleftrightarrow> (\<forall>h. dev_in8 dev h (bs + 7) = 0x48)
     \<and> (\<forall>h. dev_in16 dev h bs = disk base bs h (reg (bs + 6) h) (256 * disk_address bs h + transferred bs h))"

lemma bus_ctrl: "ctrl_base (drive_bus drive) = io_base (drive_bus drive) + 0x206"
proof -
  have "x AND 1 = (if bit x 0 then 1 else 0)" for x :: u8
    by (rule bit_word_eqI) (auto simp: bit_simps intro: Nat.gr0I)
  then have "(drop_bit 1 (drive - 0x80) AND 1 :: u8) \<in> {0, 1}"
    by simp
  then show ?thesis
    by (auto simp: drive_bus_def ata_buses_def)
qed

section \<open>Commands\<close>

lemma drive_ready: "ata_drive dev base bs \<Longrightarrow> ata_wait_ready dev bs (Suc n) s = event (In8 (bs + 7)) s"
  by (simp add: ata_drive_def inb_def ata_defs)

lemma drive_drq: "ata_drive dev base bs \<Longrightarrow> wait_drq dev bs s = Some ((), event (In8 (bs + 7)) s)"
  by (subst wait_drq.simps) (simp add: ata_drive_def inb_def ata_defs)

text \<open>The state of a bus after a command: which words the data port stands for.\<close>

definition at_word :: "u16 \<Rightarrow> u8 \<Rightarrow> u8 \<Rightarrow> nat \<Rightarrow> nat \<Rightarrow> io_event list \<Rightarrow> bool" where
  "at_word bs cmd head sector n h \<longleftrightarrow> reg (bs + 7) h = cmd \<and> reg (bs + 6) h = head
     \<and> disk_address bs h = sector \<and> transferred bs h = n"

lemma at_word_poll [simp]: "at_word bs cmd head sector n (In8 p # h) = at_word bs cmd head sector n h"
  by (simp add: at_word_def disk_address_def)

lemma at_word_data [simp]:
  "at_word bs cmd head sector n h \<Longrightarrow> at_word bs cmd head sector (Suc n) (In16 bs # h)"
  "at_word bs cmd head sector n h \<Longrightarrow> at_word bs cmd head sector (Suc n) (Out16 bs w # h)"
  by (simp_all add: at_word_def disk_address_def)

text \<open>Putting an address of 48 bits together again.\<close>

lemma unat_byte: "unat (ucast (drop_bit n x AND 0xFF) :: u8) = unat x div 2 ^ n mod 2 ^ 8" for x :: u64
proof -
  have m: "(0xFF :: u64) = mask 8"
    by (simp add: mask_eq_exp_minus_1)
  have "unat (drop_bit n x AND mask 8) = unat x div 2 ^ n mod 2 ^ 8"
    by (simp only: unat_and_mask unat_drop)
  then show ?thesis
    unfolding m by (simp add: unsigned_ucast_eq take_bit_nat_eq_self del: unsigned_and_eq)
qed

lemma bytes_48:
  fixes n :: nat
  assumes "n < 2 ^ 48"
  shows "n mod 2 ^ 8 + 2 ^ 8 * (n div 2 ^ 8 mod 2 ^ 8) + 2 ^ 16 * (n div 2 ^ 16 mod 2 ^ 8)
     + 2 ^ 24 * (n div 2 ^ 24 mod 2 ^ 8) + 2 ^ 32 * (n div 2 ^ 32 mod 2 ^ 8)
     + 2 ^ 40 * (n div 2 ^ 40 mod 2 ^ 8) = n"
proof -
  have step: "n mod 2 ^ (k + 8) = n mod 2 ^ k + 2 ^ k * (n div 2 ^ k mod 2 ^ 8)" for k
    by (simp add: power_add mod_mult2_eq)
  have "n = n mod 2 ^ 48"
    using assms by simp
  also have "\<dots> = n mod 2 ^ 8 + 2 ^ 8 * (n div 2 ^ 8 mod 2 ^ 8) + 2 ^ 16 * (n div 2 ^ 16 mod 2 ^ 8)
     + 2 ^ 24 * (n div 2 ^ 24 mod 2 ^ 8) + 2 ^ 32 * (n div 2 ^ 32 mod 2 ^ 8)
     + 2 ^ 40 * (n div 2 ^ 40 mod 2 ^ 8)"
    using step [of 8] step [of 16] step [of 24] step [of 32] step [of 40] by simp
  finally show ?thesis ..
qed

lemma command_word:
  assumes "unat (lba dp) < 2 ^ 48"
  shows "at_word (io_base (drive_bus drive)) cmd (0x40 OR push_bit 4 (drive AND 1)) (unat (lba dp)) 0
    (io (ata_command dp drive cmd s))"
  using bytes_48 [OF assms] unat_byte [of 0 "lba dp"] bus_ctrl [of drive]
  by (simp add: ata_command_def Let_def outb_def at_word_def disk_address_def unat_byte)

section \<open>Words in memory and on a disk\<close>

primrec store_words :: "memory \<Rightarrow> u64 \<Rightarrow> u16 list \<Rightarrow> memory" where
  "store_words m a [] = m"
| "store_words m a (w # ws) = store_words (st16 m a w) (a + 2) ws"

definition words_at :: "memory \<Rightarrow> u64 \<Rightarrow> nat \<Rightarrow> u16 list" where
  "words_at m a n = map (\<lambda>k. ld16 m (a + 2 * of_nat k)) [0..<n]"

definition write_words :: "(nat \<Rightarrow> u16) \<Rightarrow> nat \<Rightarrow> u16 list \<Rightarrow> nat \<Rightarrow> u16" where
  "write_words D j ws = (\<lambda>i. if j \<le> i \<and> i < j + length ws then ws ! (i - j) else D i)"

lemma store_words_append:
  "store_words m a (xs @ ys) = store_words (store_words m a xs) (a + 2 * of_nat (length xs)) ys"
  by (induction xs arbitrary: m a) (simp_all add: algebra_simps)

lemma length_words_at [simp]: "length (words_at m a n) = n"
  by (simp add: words_at_def)

lemma words_at_Suc: "words_at m a (Suc n) = ld16 m a # words_at m (a + 2) n"
  unfolding words_at_def upt_conv_Cons [OF zero_less_Suc] map_Suc_upt [symmetric]
  by (simp add: algebra_simps)

lemma words_at_append: "words_at m a (n + k) = words_at m a n @ words_at m (a + 2 * of_nat n) k"
  by (induction n arbitrary: a) (simp_all add: words_at_Suc algebra_simps, simp add: words_at_def)

lemma write_words_Nil [simp]: "write_words D j [] = D"
  by (rule ext) (auto simp: write_words_def)

lemma write_words_Cons: "write_words D j (w # ws) = write_words (D(j := w)) (Suc j) ws"
  by (auto simp: write_words_def fun_eq_iff nth_Cons' Suc_diff_le)

lemma write_words_append: "write_words D j (xs @ ys) = write_words (write_words D j xs) (j + length xs) ys"
  by (induction xs arbitrary: D j) (simp_all add: write_words_Cons)

lemma aligned2_step: "aligned2 a \<Longrightarrow> aligned2 (a + 2)"
proof -
  have "unat (a + 2) = (unat a + 2) mod 2 ^ 64"
    by (simp add: unat_word_ariths)
  then have "unat (a + 2) mod 2 = (unat a + 2) mod 2"
    by (simp add: mod_mod_cancel)
  then show "aligned2 a \<Longrightarrow> aligned2 (a + 2)"
    by (simp add: aligned2_def)
qed

lemma store_words_apart:
  "aligned2 a \<Longrightarrow> aligned2 b \<Longrightarrow> (\<forall>k < length ws. b \<noteq> a + 2 * of_nat k) \<Longrightarrow>
   ld16 (store_words m a ws) b = ld16 m b"
proof (induction ws arbitrary: m a)
  case Nil
  then show ?case
    by simp
next
  case (Cons w ws)
  have a2: "aligned2 (a + 2)"
    using Cons.prems(1) by (rule aligned2_step)
  have "b \<noteq> a + 2 + 2 * of_nat k" if "k < length ws" for k
    using Cons.prems(3) that by (metis (no_types, lifting) Suc_less_eq add.assoc add.commute length_Cons
        mult.right_neutral distrib_left of_nat_Suc)
  then have "ld16 (store_words (st16 m a w) (a + 2) ws) b = ld16 (st16 m a w) b"
    using Cons.IH [OF a2 Cons.prems(2)] by blast
  also have "\<dots> = ld16 m b"
    using Cons.prems by (intro hw.rd_wr_other) (auto dest: spec [of _ 0])
  finally show ?case
    by simp
qed

lemma words_at_store:
  "aligned2 a \<Longrightarrow> length ws < 2 ^ 62 \<Longrightarrow> words_at (store_words m a ws) a (length ws) = ws"
proof (induction ws arbitrary: m a)
  case Nil
  then show ?case
    by (simp add: words_at_def)
next
  case (Cons w ws)
  have a2: "aligned2 (a + 2)"
    using Cons.prems(1) by (rule aligned2_step)
  have "a \<noteq> a + 2 + 2 * of_nat k" if "k < length ws" for k
  proof
    assume "a = a + 2 + 2 * of_nat k"
    then have "(of_nat (2 + 2 * k) :: u64) = 0"
      by simp
    moreover have "unat (of_nat (2 + 2 * k) :: u64) = 2 + 2 * k"
      using that Cons.prems(2) by (intro unat_of_nat_small) simp
    ultimately show False
      by simp
  qed
  then have "ld16 (store_words (st16 m a w) (a + 2) ws) a = w"
    using store_words_apart [OF a2 Cons.prems(1), of ws "st16 m a w"] by simp
  moreover have "words_at (store_words (st16 m a w) (a + 2) ws) (a + 2) (length ws) = ws"
    using Cons.IH [OF a2] Cons.prems(2) by simp
  ultimately show ?case
    by (simp add: words_at_Suc)
qed

section \<open>Transfers\<close>

lemma insw_drive:
  assumes dev: "ata_drive dev base bs"
  shows "at_word bs ATA_CMD_READ_PIO_EXT head sector n (io s) \<Longrightarrow>
    insw dev bs buf k s = s\<lparr>mem := store_words (mem s) buf
        (map (\<lambda>j. disk base bs (io s) head (256 * sector + n + j)) [0..<k]),
      io := replicate k (In16 bs) @ io s\<rparr>
    \<and> at_word bs ATA_CMD_READ_PIO_EXT head sector (n + k) (replicate k (In16 bs) @ io s)
    \<and> disk base bs (replicate k (In16 bs) @ io s) = disk base bs (io s)"
proof (induction k arbitrary: n s buf)
  case 0
  then show ?case
    by simp
next
  case (Suc k)
  let ?w = "disk base bs (io s) head (256 * sector + n)"
  let ?s = "s\<lparr>io := In16 bs # io s, mem := st16 (mem s) buf ?w\<rparr>"
  have w: "dev_in16 dev (io s) bs = ?w"
    using dev Suc.prems by (simp add: ata_drive_def at_word_def)
  have step: "insw dev bs buf (Suc k) s = insw dev bs (buf + 2) k ?s"
    by (simp add: inw_def w event_def)
  have "at_word bs ATA_CMD_READ_PIO_EXT head sector (Suc n) (io ?s)"
    using Suc.prems by simp
  note IH = Suc.IH [OF this, of "buf + 2"]
  have e: "replicate k (In16 bs) @ io ?s = In16 bs # replicate k (In16 bs) @ io s"
    by (simp add: replicate_app_Cons_same)
  have "map (\<lambda>j. disk base bs (io s) head (256 * sector + n + j)) [0..<Suc k]
      = ?w # map (\<lambda>j. disk base bs (io s) head (256 * sector + Suc n + j)) [0..<k]"
    unfolding upt_conv_Cons [OF zero_less_Suc] map_Suc_upt [symmetric] by simp
  then show ?case
    using IH unfolding step e by simp
qed

lemma outsw_drive:
  "at_word bs ATA_CMD_WRITE_PIO_EXT head sector n (io s) \<Longrightarrow>
    \<exists>h. outsw bs buf k s = s\<lparr>io := h\<rparr> \<and> at_word bs ATA_CMD_WRITE_PIO_EXT head sector (n + k) h
    \<and> disk base bs h = (disk base bs (io s))(head := write_words (disk base bs (io s) head)
          (256 * sector + n) (words_at (mem s) buf k))"
proof (induction k arbitrary: n s buf)
  case 0
  then show ?case
    by (intro exI [of _ "io s"]) (simp add: words_at_def)
next
  case (Suc k)
  let ?w = "ld16 (mem s) buf"
  let ?s = "event (Out16 bs ?w) s"
  have "at_word bs ATA_CMD_WRITE_PIO_EXT head sector (Suc n) (io ?s)"
    using Suc.prems by simp
  from Suc.IH [OF this, of "buf + 2"] obtain h where h:
    "outsw bs (buf + 2) k ?s = ?s\<lparr>io := h\<rparr>" "at_word bs ATA_CMD_WRITE_PIO_EXT head sector (Suc n + k) h"
    "disk base bs h = (disk base bs (io ?s))(head := write_words (disk base bs (io ?s) head)
        (256 * sector + Suc n) (words_at (mem ?s) (buf + 2) k))"
    by blast
  have "disk base bs (io ?s) = (disk base bs (io s))(head := (disk base bs (io s) head)(256 * sector + n := ?w))"
    using Suc.prems by (simp add: at_word_def)
  then have "disk base bs h = (disk base bs (io s))(head := write_words (disk base bs (io s) head)
      (256 * sector + n) (words_at (mem s) buf (Suc k)))"
    using h(3) by (simp add: words_at_Suc write_words_Cons)
  then show ?case
    using h(1,2) by (intro exI [of _ h]) (simp add: outw_def event_def)
qed

text \<open>The offset of a sector in the buffer.\<close>

lemma sector_offset: "i < 65536 \<Longrightarrow> ucast (of_nat i * 512 :: u32) = (2 * of_nat (256 * i) :: u64)"
proof -
  assume i: "i < 65536"
  then have "unat (of_nat (512 * i) :: u32) = 512 * i" "unat (of_nat (512 * i) :: u64) = 512 * i"
    by (intro unat_of_nat_small; simp)+
  then have "ucast (of_nat (512 * i) :: u32) = (of_nat (512 * i) :: u64)"
    using i by (simp add: word_unat_eq_iff unsigned_ucast_eq take_bit_nat_eq_self del: of_nat_mult)
  then show ?thesis
    by (simp add: mult.commute)
qed

text \<open>One round of the loops on such a bus.\<close>

lemma sector_step:
  assumes dev: "ata_drive dev base bs" and i: "i < 65536"
  shows "sector_loop dev bs transfer buffer (i # is) s = sector_loop dev bs transfer buffer is
    (transfer (buffer + 2 * of_nat (256 * i)) (event (In8 (bs + 7)) (event (In8 (bs + 7)) (event (In8 (bs + 7)) s))))"
proof -
  obtain n where n: "ata_timeout = Suc n"
    by (simp add: ata_timeout_def)
  have "dev_in8 dev h (bs + 7) = 0x48" for h
    using dev by (simp add: ata_drive_def)
  then show ?thesis
    unfolding sector_loop.simps n drive_ready [OF dev] drive_drq [OF dev] sector_offset [OF i] Let_def
    by (simp add: inb_def drive_drq [OF dev] ata_defs)
qed

lemma upt_first: "[i..<i + Suc k] = i # [Suc i..<Suc i + k]"
  by (simp add: upt_conv_Cons)

lemma read_loop:
  assumes dev: "ata_drive dev base bs"
  shows "at_word bs ATA_CMD_READ_PIO_EXT head sector (256 * i) (io s) \<Longrightarrow> i + k \<le> 65536 \<Longrightarrow>
    \<exists>h. sector_loop dev bs (\<lambda>buf. insw dev bs buf 256) buffer [i..<i + k] s
      = Some (0, s\<lparr>mem := store_words (mem s) (buffer + 2 * of_nat (256 * i))
          (map (\<lambda>j. disk base bs (io s) head (256 * sector + 256 * i + j)) [0..<256 * k]), io := h\<rparr>)
    \<and> disk base bs h = disk base bs (io s)"
proof (induction k arbitrary: i s)
  case 0
  then show ?case
    by (intro exI [of _ "io s"]) simp
next
  case (Suc k)
  let ?p = "event (In8 (bs + 7))"
  let ?s = "?p (?p (?p s))" and ?buf = "buffer + 2 * of_nat (256 * i)"
  let ?D = "disk base bs (io s) head"
  let ?t = "insw dev bs ?buf 256 ?s"
  have poll: "disk base bs (io ?s) = disk base bs (io s)" "mem ?s = mem s"
    by simp_all
  have "at_word bs ATA_CMD_READ_PIO_EXT head sector (256 * i) (io ?s)"
    using Suc.prems by simp
  note t = insw_drive [OF dev this, of ?buf 256, unfolded poll]
  have at: "at_word bs ATA_CMD_READ_PIO_EXT head sector (256 * Suc i) (io ?t)"
    using t by (simp add: add.commute)
  have d: "disk base bs (io ?t) = disk base bs (io s)"
    using t by simp
  have m: "mem ?t = store_words (mem s) ?buf (map (\<lambda>j. ?D (256 * sector + 256 * i + j)) [0..<256])"
    using t by simp
  have i: "i < 65536" "Suc i + k \<le> 65536"
    using Suc.prems(2) by simp_all
  from Suc.IH [OF at i(2), unfolded d] obtain h where h:
    "sector_loop dev bs (\<lambda>buf. insw dev bs buf 256) buffer [Suc i..<Suc i + k] ?t
      = Some (0, ?t\<lparr>mem := store_words (mem ?t) (buffer + 2 * of_nat (256 * Suc i))
          (map (\<lambda>j. ?D (256 * sector + 256 * Suc i + j)) [0..<256 * k]), io := h\<rparr>)"
    "disk base bs h = disk base bs (io s)"
    by (elim exE conjE)
  have words: "map (\<lambda>j. ?D (256 * sector + 256 * i + j)) [0..<256 * Suc k]
      = map (\<lambda>j. ?D (256 * sector + 256 * i + j)) [0..<256]
        @ map (\<lambda>j. ?D (256 * sector + 256 * Suc i + j)) [0..<256 * k]"
  proof -
    have "[0..<256 + 256 * k] = [0..<256] @ [256..<256 + 256 * k]"
      by (rule upt_add_eq_append) simp
    also have "[256..<256 + 256 * k] = map (\<lambda>j. j + 256) [0..<256 * k]"
      by (simp only: map_add_upt add.commute)
    finally have "[0..<256 * Suc k] = [0..<256] @ map (\<lambda>j. j + 256) [0..<256 * k]"
      by (simp only: mult_Suc_right)
    then show ?thesis
      by (simp add: ac_simps)
  qed
  have same: "?t\<lparr>mem := x, io := h\<rparr> = s\<lparr>mem := x, io := h\<rparr>" for x
    using t by (simp add: event_def)
  have buf: "?buf + 2 * of_nat (length (map (\<lambda>j. ?D (256 * sector + 256 * i + j)) [0..<256]))
      = buffer + 2 * of_nat (256 * Suc i)"
    by (simp add: algebra_simps)
  show ?case
    unfolding upt_first sector_step [OF dev i(1)] h(1) same words store_words_append m buf
    using h(2) by (intro exI [of _ h]) simp
qed

lemma write_loop:
  assumes dev: "ata_drive dev base bs"
  shows "at_word bs ATA_CMD_WRITE_PIO_EXT head sector (256 * i) (io s) \<Longrightarrow> i + k \<le> 65536 \<Longrightarrow>
    \<exists>h. sector_loop dev bs (\<lambda>buf. outsw bs buf 256) buffer [i..<i + k] s = Some (0, s\<lparr>io := h\<rparr>)
    \<and> disk base bs h = (disk base bs (io s))(head := write_words (disk base bs (io s) head)
        (256 * sector + 256 * i) (words_at (mem s) (buffer + 2 * of_nat (256 * i)) (256 * k)))"
proof (induction k arbitrary: i s)
  case 0
  then show ?case
    by (intro exI [of _ "io s"]) (simp add: words_at_def)
next
  case (Suc k)
  let ?p = "event (In8 (bs + 7))"
  let ?s = "?p (?p (?p s))" and ?buf = "buffer + 2 * of_nat (256 * i)"
  let ?D = "disk base bs (io s) head"
  have poll: "disk base bs (io ?s) = disk base bs (io s)" "mem ?s = mem s"
    by simp_all
  have "at_word bs ATA_CMD_WRITE_PIO_EXT head sector (256 * i) (io ?s)"
    using Suc.prems by simp
  from outsw_drive [OF this, of ?buf 256 base, unfolded poll] obtain h1 where h1:
    "outsw bs ?buf 256 ?s = ?s\<lparr>io := h1\<rparr>" "at_word bs ATA_CMD_WRITE_PIO_EXT head sector (256 * i + 256) h1"
    "disk base bs h1 = (disk base bs (io s))(head := write_words ?D (256 * sector + 256 * i) (words_at (mem s) ?buf 256))"
    by (elim exE conjE)
  let ?t = "?s\<lparr>io := h1\<rparr>"
  have at: "at_word bs ATA_CMD_WRITE_PIO_EXT head sector (256 * Suc i) (io ?t)"
    using h1(2) by (simp add: add.commute)
  have i: "i < 65536" "Suc i + k \<le> 65536"
    using Suc.prems(2) by simp_all
  have io_t: "io ?t = h1" "mem ?t = mem s"
    by simp_all
  from Suc.IH [OF at i(2), unfolded io_t] obtain h where h:
    "sector_loop dev bs (\<lambda>buf. outsw bs buf 256) buffer [Suc i..<Suc i + k] ?t = Some (0, ?t\<lparr>io := h\<rparr>)"
    "disk base bs h = (disk base bs h1)(head := write_words (disk base bs h1 head)
        (256 * sector + 256 * Suc i) (words_at (mem s) (buffer + 2 * of_nat (256 * Suc i)) (256 * k)))"
    by (elim exE conjE)
  have words: "words_at (mem s) ?buf (256 * Suc k)
      = words_at (mem s) ?buf 256 @ words_at (mem s) (buffer + 2 * of_nat (256 * Suc i)) (256 * k)"
    using words_at_append [of "mem s" ?buf 256 "256 * k"] by (simp add: algebra_simps)
  have d: "disk base bs h = (disk base bs (io s))(head := write_words ?D (256 * sector + 256 * i) (words_at (mem s) ?buf (256 * Suc k)))"
    unfolding h(2) h1(3) words write_words_append by (simp add: add.assoc add.commute [of 256])
  have same: "?t\<lparr>io := h\<rparr> = s\<lparr>io := h\<rparr>"
    by (simp add: event_def)
  show ?case
    unfolding upt_first sector_step [OF dev i(1)] h1(1) h(1) same
    using d by (intro exI [of _ h]) simp
qed

section \<open>Whole transfers\<close>

definition drive_head :: "u8 \<Rightarrow> u8" where
  "drive_head drive = 0x40 OR push_bit 4 (drive AND 1)"

lemma command_disk [simp]: "disk base bs (io (ata_command dp drive cmd s)) = disk base bs (io s)"
  by (simp add: ata_command_def Let_def outb_def)

lemma command_frame: "ata_command dp drive cmd s = s\<lparr>io := io (ata_command dp drive cmd s)\<rparr>"
  by (simp add: ata_command_def Let_def outb_def event_def)

lemma sectors_bound: "0 + unat (nsectors dp) \<le> 65536"
  using unat_less_exp [of "nsectors dp"] by simp

lemma first_poll:
  "ata_drive dev base bs \<Longrightarrow> ata_wait_ready dev bs ata_timeout s = event (In8 (bs + 7)) s"
proof -
  assume dev: "ata_drive dev base bs"
  obtain n where n: "ata_timeout = Suc n"
    by (simp add: ata_timeout_def)
  show ?thesis
    unfolding n by (rule drive_ready [OF dev])
qed

lemma released:
  "\<not> locks s l \<Longrightarrow> f (taken l s) = Some (r, (taken l s)\<lparr>mem := m, io := h\<rparr>) \<Longrightarrow>
   locked l f s = Some (r, s\<lparr>mem := m, io := h\<rparr>)"
  by (simp add: locked_free) (simp add: taken_def cli_def fun_upd_idem)

lemma write_result:
  assumes dev: "ata_drive dev base (io_base (drive_bus drive))" and free: "\<not> locks s Ata_lock"
    and lba48: "unat (lba dp) < 2 ^ 48"
  shows "\<exists>h. ata_write_sectors dev dp buffer drive s = Some (0, s\<lparr>io := h\<rparr>)
    \<and> disk base (io_base (drive_bus drive)) h = (disk base (io_base (drive_bus drive)) (io s))
        (drive_head drive := write_words (disk base (io_base (drive_bus drive)) (io s) (drive_head drive))
           (256 * unat (lba dp)) (words_at (mem s) buffer (256 * unat (nsectors dp))))"
proof -
  let ?bs = "io_base (drive_bus drive)"
  let ?s = "event (In8 (?bs + 7)) (taken Ata_lock s)"
  let ?c = "ata_command dp drive ATA_CMD_WRITE_PIO_EXT ?s"
  have "at_word ?bs ATA_CMD_WRITE_PIO_EXT (drive_head drive) (unat (lba dp)) (256 * 0) (io ?c)"
    using command_word [OF lba48] by (simp add: drive_head_def)
  note w = write_loop [OF dev this sectors_bound [of dp], of buffer]
  have c: "disk base ?bs (io ?c) = disk base ?bs (io s)" "?c\<lparr>io := h\<rparr> = (taken Ata_lock s)\<lparr>io := h\<rparr>"
      "mem ?c = mem s" for h
    by (simp, subst command_frame, simp add: event_def, subst command_frame, simp)
  from w [unfolded c] obtain h where h:
    "sector_loop dev ?bs (\<lambda>buf. outsw ?bs buf 256) buffer [0..<unat (nsectors dp)] ?c = Some (0, (taken Ata_lock s)\<lparr>io := h\<rparr>)"
    "disk base ?bs h = (disk base ?bs (io s))(drive_head drive := write_words (disk base ?bs (io s) (drive_head drive))
        (256 * unat (lba dp)) (words_at (mem s) buffer (256 * unat (nsectors dp))))"
    by auto
  let ?h = "In8 (?bs + 7) # Out8 (?bs + 7) ATA_CMD_FLUSH_EXT # h"
  have "ata_write_sectors dev dp buffer drive s = Some (0, s\<lparr>mem := mem s, io := ?h\<rparr>)"
    unfolding ata_write_sectors_def
    by (rule released [OF free])
       (simp add: first_poll [OF dev] h(1) outb_def Let_def; simp add: event_def)
  then show ?thesis
    using h(2) by (intro exI [of _ ?h]) simp
qed

lemma read_result:
  assumes dev: "ata_drive dev base (io_base (drive_bus drive))" and free: "\<not> locks s Ata_lock"
    and lba48: "unat (lba dp) < 2 ^ 48"
  shows "\<exists>h. ata_read_sectors dev dp buffer drive s = Some (0, s\<lparr>mem := store_words (mem s) buffer
       (map (\<lambda>j. disk base (io_base (drive_bus drive)) (io s) (drive_head drive) (256 * unat (lba dp) + j))
          [0..<256 * unat (nsectors dp)]), io := h\<rparr>)
    \<and> disk base (io_base (drive_bus drive)) h = disk base (io_base (drive_bus drive)) (io s)"
proof -
  let ?bs = "io_base (drive_bus drive)"
  let ?s = "event (In8 (?bs + 7)) (taken Ata_lock s)"
  let ?c = "ata_command dp drive ATA_CMD_READ_PIO_EXT ?s"
  let ?ws = "map (\<lambda>j. disk base ?bs (io s) (drive_head drive) (256 * unat (lba dp) + j)) [0..<256 * unat (nsectors dp)]"
  have "at_word ?bs ATA_CMD_READ_PIO_EXT (drive_head drive) (unat (lba dp)) (256 * 0) (io ?c)"
    using command_word [OF lba48] by (simp add: drive_head_def)
  note r = read_loop [OF dev this sectors_bound [of dp], of buffer]
  have c: "disk base ?bs (io ?c) = disk base ?bs (io s)"
      "?c\<lparr>mem := x, io := h\<rparr> = (taken Ata_lock s)\<lparr>mem := x, io := h\<rparr>" "mem ?c = mem s" for x h
    by (simp, subst command_frame, simp add: event_def, subst command_frame, simp)
  from r [unfolded c] obtain h where h:
    "sector_loop dev ?bs (\<lambda>buf. insw dev ?bs buf 256) buffer [0..<unat (nsectors dp)] ?c
      = Some (0, (taken Ata_lock s)\<lparr>mem := store_words (mem s) buffer ?ws, io := h\<rparr>)" "disk base ?bs h = disk base ?bs (io s)"
    by auto
  have "ata_read_sectors dev dp buffer drive s = Some (0, s\<lparr>mem := store_words (mem s) buffer ?ws, io := h\<rparr>)"
    unfolding ata_read_sectors_def
    by (rule released [OF free]) (simp add: first_poll [OF dev] h(1) Let_def)
  then show ?thesis
    using h(2) by (intro exI [of _ h]) simp
qed

section \<open>Errors\<close>

lemma wait_ready_frame: "\<exists>h. ata_wait_ready dev bs n s = s\<lparr>io := h\<rparr>"
proof (induction n arbitrary: s)
  case 0
  then show ?case
    by (intro exI [of _ "io s"]) simp
next
  case (Suc n)
  from Suc.IH [of "event (In8 (bs + 7)) s"] obtain h where
    "ata_wait_ready dev bs n (event (In8 (bs + 7)) s) = s\<lparr>io := h\<rparr>"
    by (auto simp: event_def)
  then show ?case
    by (auto simp: inb_def event_def)
qed

section \<open>Properties\<close>

text \<open>A machine with such a drive on the first bus.\<close>

definition empty_disk :: "u8 \<Rightarrow> nat \<Rightarrow> u16" where
  "empty_disk head i = 0"

definition disk_device :: device where
  "disk_device = \<lparr>dev_in8 = \<lambda>h p. 0x48,
     dev_in16 = \<lambda>h p. disk empty_disk p h (reg (p + 6) h) (256 * disk_address p h + transferred p h),
     dev_in32 = \<lambda>h p. 0, dev_mmio = \<lambda>h p. 0, dev_tsc = \<lambda>h. 0, dev_cpuid = \<lambda>f. (0, 0, 0, 0)\<rparr>"

definition faulty_device :: device where
  "faulty_device = disk_device\<lparr>dev_in8 := \<lambda>h p. 0x41\<rparr>"

definition disk_machine :: mach where
  "disk_machine = \<lparr>mem = \<lambda>a. ucast a, io = [], klog = [], locks = \<lambda>l. False, rflags = 0x202\<rparr>"

lemma disk_device_drive: "ata_drive disk_device empty_disk bs"
  by (simp add: ata_drive_def disk_device_def)



text \<open>
  C39. A drive that reports an error: reading at least one sector returns minus one, with memory
  untouched, the lock released and the interrupt flag restored.
\<close>

theorem ata_read_error:
  assumes "\<forall>h. dev_in8 dev h (io_base (drive_bus drive) + 7) AND ATA_SR_ERR \<noteq> 0"
    and "0 < nsectors dp" and "\<not> locks s Ata_lock"
  shows "\<exists>h. ata_read_sectors dev dp buffer drive s = Some (- 1, s\<lparr>io := h\<rparr>)"
proof -
  let ?bs = "io_base (drive_bus drive)"
  have n: "[0..<unat (nsectors dp)] = 0 # [1..<unat (nsectors dp)]"
    using assms(2) by (simp add: upt_conv_Cons word_less_nat_alt)
  obtain h1 where h1: "ata_wait_ready dev ?bs ata_timeout (taken Ata_lock s) = (taken Ata_lock s)\<lparr>io := h1\<rparr>"
    using wait_ready_frame by blast
  let ?c = "ata_command dp drive ATA_CMD_READ_PIO_EXT ((taken Ata_lock s)\<lparr>io := h1\<rparr>)"
  obtain h2 where h2: "ata_wait_ready dev ?bs ata_timeout ?c = ?c\<lparr>io := h2\<rparr>"
    using wait_ready_frame by blast
  have c: "?c\<lparr>io := h2\<rparr> = (taken Ata_lock s)\<lparr>io := h2\<rparr>"
    by (subst command_frame) simp
  have "ata_read_sectors dev dp buffer drive s = Some (- 1, s\<lparr>mem := mem s, io := In8 (?bs + 7) # h2\<rparr>)"
    unfolding ata_read_sectors_def
    by (rule released [OF assms(3)])
       (use assms(1) in \<open>simp add: n h1 h2 c inb_def Let_def event_def\<close>)
  then show ?thesis
    by (intro exI [of _ "In8 (?bs + 7) # h2"]) simp
qed

theorem ata_read_error_witness:
  "\<exists>h. ata_read_sectors faulty_device \<lparr>lba = 5, nsectors = 1\<rparr> 0x1000 0x82 disk_machine = Some (- 1, disk_machine\<lparr>io := h\<rparr>)"
  by (rule ata_read_error) (simp_all add: faulty_device_def disk_machine_def ata_defs)

end
