(* ===== verification/Ps2.thy ===== *)
theory Ps2
  imports Vmem
begin

text \<open>
  The keyboard driver of ps2.c: polling of the controller at ports 0x60 and 0x64, the detection and
  set-up sequences, and the line editor that echoes what is typed on the text screen.
\<close>

unbundle bit_operations_syntax

section \<open>Scan codes\<close>

definition scan_to_ascii :: string where
  "scan_to_ascii = [CHR 0x00, CHR 0x1B] @ ''1234567890-='' @ [CHR 0x08, CHR 0x09] @ ''qwertyuiop[]'' @ [CHR 0x0A, CHR 0x00]
     @ ''asdfghjkl;'' @ [CHR 0x27] @ ''`'' @ [CHR 0x00, CHR 0x5C] @ ''zxcvbnm,./'' @ [CHR 0x00] @ ''*''
     @ [CHR 0x00] @ '' '' @ replicate 70 (CHR 0x00)"

section \<open>Operations\<close>

text \<open>
  A loop that reads a port until the value passes a test; \<open>None\<close> when no reading ever does.
\<close>

partial_function (option) poll_until ::
  "device \<Rightarrow> u16 \<Rightarrow> (u8 \<Rightarrow> bool) \<Rightarrow> 'a mach_scheme \<Rightarrow> (unit \<times> 'a mach_scheme) option" where
  "poll_until dev port ok s =
     (if ok (fst (inb dev port s)) then Some ((), snd (inb dev port s))
      else poll_until dev port ok (snd (inb dev port s)))"

partial_function (option) ps2_drain :: "device \<Rightarrow> 'a mach_scheme \<Rightarrow> (unit \<times> 'a mach_scheme) option" where
  "ps2_drain dev s =
     (if fst (inb dev 0x64 s) AND 0x01 \<noteq> 0 then ps2_drain dev (snd (inb dev 0x60 (snd (inb dev 0x64 s))))
      else Some ((), snd (inb dev 0x64 s)))"

fun await_echo :: "device \<Rightarrow> nat \<Rightarrow> 'a mach_scheme \<Rightarrow> int \<times> 'a mach_scheme" where
  "await_echo dev 0 s = (0, s)"
| "await_echo dev (Suc n) s =
     (let (status, s) = inb dev 0x64 s in
      if status AND 0x01 \<noteq> 0
      then (let (resp, s) = inb dev 0x60 s in (if resp = 0xEE then 1 else 0, s))
      else await_echo dev n s)"

definition echo_attempts :: nat where "echo_attempts = 500000"

definition is_ps2_present :: "device \<Rightarrow> ('a mach_scheme, int) op" where
  "is_ps2_present dev = locked Ps2_lock (\<lambda>s. do {
     (_, s) \<leftarrow> ps2_drain dev s;
     Some (await_echo dev echo_attempts (outb 0x60 0xEE s)) })"

definition ps2_init :: "device \<Rightarrow> ('a mach_scheme, unit) op" where
  "ps2_init dev = locked Ps2_lock (\<lambda>s. do {
     (_, s) \<leftarrow> poll_until dev 0x64 (\<lambda>v. v AND 0x02 = 0) s;
     let s = outb 0x64 0x20 s;
     (_, s) \<leftarrow> poll_until dev 0x64 (\<lambda>v. v AND 0x01 \<noteq> 0) s;
     let (config, s) = inb dev 0x60 s;
     let config = config OR (push_bit 0 1 OR push_bit 4 1);
     (_, s) \<leftarrow> poll_until dev 0x64 (\<lambda>v. v AND 0x02 = 0) s;
     let s = outb 0x64 0x60 s;
     (_, s) \<leftarrow> poll_until dev 0x64 (\<lambda>v. v AND 0x02 = 0) s;
     let s = outb 0x60 config s;
     (_, s) \<leftarrow> poll_until dev 0x64 (\<lambda>v. v AND 0x02 = 0) s;
     Some ((), outb 0x60 0xF4 s) })"

text \<open>The result is an \<open>int8_t\<close>; its bits are kept.\<close>

definition ps2_read_scan :: "device \<Rightarrow> ('a mach_scheme, u8) op" where
  "ps2_read_scan dev = locked Ps2_lock (\<lambda>s. do {
     (_, s) \<leftarrow> poll_until dev 0x64 (\<lambda>v. v AND 1 \<noteq> 0) s;
     Some (inb dev 0x60 s) })"

definition ps2_try_read_scan :: "device \<Rightarrow> ('a mach_scheme, u16) op" where
  "ps2_try_read_scan dev = locked Ps2_lock (\<lambda>s.
     let (status, s) = inb dev 0x64 s in
     if status AND 1 = 0 then Some (- 1, s)
     else (let (v, s) = inb dev 0x60 s in Some (ucast v, s)))"

text \<open>The branch of the line editor for the backspace key.\<close>

definition erase_char :: "device \<Rightarrow> (vmem_design \<times> 'a mach_scheme, unit) op" where
  "erase_char dev = (\<lambda>(d, s).
     let d = (if vx d = 0 \<and> 0 < sint (vy d) then d\<lparr>vy := vy d - 1, vx := of_nat (VMEM_MAX_COLS - 1)\<rparr>
              else if 0 < sint (vx d) then d\<lparr>vx := vx d - 1\<rparr> else d) in do {
       (_, s) \<leftarrow> vmem_set_cursor (ucast (vx d)) (ucast (vy d)) s;
       (_, (d, s)) \<leftarrow> vmem_printc dev (CHR 0x20) (d, s);
       let d = d\<lparr>vx := vx d - 1\<rparr>;
       (_, s) \<leftarrow> vmem_set_cursor (ucast (vx d)) (ucast (vy d)) s;
       Some ((), (d, s)) })"

definition store_char :: "u64 \<Rightarrow> char \<Rightarrow> 'a mach_scheme \<Rightarrow> 'a mach_scheme" where
  "store_char a c s = s\<lparr>mem := (mem s)(a := of_char c)\<rparr>"

text \<open>The loop of \<open>ps2_read_line\<close> over the count of characters in the buffer.\<close>

partial_function (option) read_line_loop ::
  "device \<Rightarrow> u64 \<Rightarrow> int \<Rightarrow> nat \<Rightarrow> vmem_design \<times> 'a mach_scheme \<Rightarrow> (unit \<times> vmem_design \<times> 'a mach_scheme) option" where
  "read_line_loop dev buf max_len idx ds =
     Option.bind (ps2_read_scan dev (snd ds)) (\<lambda>(sc, s).
       if sc AND 0x80 \<noteq> 0 \<or> scan_to_ascii ! unat sc = CHR 0x00 then read_line_loop dev buf max_len idx (fst ds, s)
       else if scan_to_ascii ! unat sc = CHR 0x0A
       then vmem_printc dev (CHR 0x0A) (fst ds, store_char (buf + of_nat idx) (CHR 0x00) s)
       else if scan_to_ascii ! unat sc = CHR 0x08
       then (if 0 < idx
             then Option.bind (erase_char dev (fst ds, s)) (\<lambda>(_, ds). read_line_loop dev buf max_len (idx - 1) ds)
             else read_line_loop dev buf max_len idx (fst ds, s))
       else if int idx < max_len - 1
       then Option.bind (vmem_printc dev (scan_to_ascii ! unat sc)
               (fst ds, store_char (buf + of_nat idx) (scan_to_ascii ! unat sc) s))
              (\<lambda>(_, ds). read_line_loop dev buf max_len (idx + 1) ds)
       else read_line_loop dev buf max_len idx (fst ds, s))"

definition ps2_read_line :: "device \<Rightarrow> u64 \<Rightarrow> int \<Rightarrow> (vmem_design \<times> 'a mach_scheme, unit) op" where
  "ps2_read_line dev buf max_len = read_line_loop dev buf max_len 0"

section \<open>A keyboard\<close>

text \<open>
  A keyboard that delivers the codes \<open>ks\<close>, one for each reading of the data port, and after some
  number of readings of the status port always has the next one ready.
\<close>

fun keys_read :: "io_event list \<Rightarrow> nat" where
  "keys_read [] = 0"
| "keys_read (In8 p # h) = (if p = 0x60 then Suc (keys_read h) else keys_read h)"
| "keys_read (_ # h) = keys_read h"

definition keyboard :: "device \<Rightarrow> (nat \<Rightarrow> u8) \<Rightarrow> bool" where
  "keyboard dev ks \<longleftrightarrow> (\<forall>h. dev_in8 dev h 0x60 = ks (keys_read h))
     \<and> (\<forall>h. \<exists>n. dev_in8 dev (replicate n (In8 0x64) @ h) 0x64 AND 1 \<noteq> 0)"

lemma keys_read_status [simp]: "p \<noteq> 0x60 \<Longrightarrow> keys_read (replicate n (In8 p) @ h) = keys_read h"
  by (induction n) auto

lemma poll_until_ready:
  "ok (dev_in8 dev (replicate n (In8 p) @ io s) p) \<Longrightarrow>
   \<exists>m. poll_until dev p ok s = Some ((), s\<lparr>io := replicate m (In8 p) @ io s\<rparr>)"
proof (induction n arbitrary: s)
  case 0
  then show ?case
    by (subst poll_until.simps) (auto simp: inb_def event_def intro!: exI [of _ 1])
next
  case (Suc n)
  show ?case
  proof (cases "ok (dev_in8 dev (io s) p)")
    case True
    then show ?thesis
      by (subst poll_until.simps) (auto simp: inb_def event_def intro!: exI [of _ 1])
  next
    case False
    have "ok (dev_in8 dev (replicate n (In8 p) @ io (event (In8 p) s)) p)"
      using Suc.prems by (simp add: replicate_app_Cons_same)
    from Suc.IH [OF this] obtain m where
      "poll_until dev p ok (event (In8 p) s) = Some ((), (event (In8 p) s)\<lparr>io := replicate m (In8 p) @ io (event (In8 p) s)\<rparr>)"
      by blast
    then have "poll_until dev p ok s = Some ((), s\<lparr>io := replicate (Suc m) (In8 p) @ io s\<rparr>)"
      using False by (subst poll_until.simps) (simp add: inb_def event_def replicate_app_Cons_same)
    then show ?thesis
      by blast
  qed
qed

lemma read_scan_key:
  assumes k: "keyboard dev ks" and free: "\<not> locks s Ps2_lock"
  shows "\<exists>h. ps2_read_scan dev s = Some (ks (keys_read (io s)), s\<lparr>io := h\<rparr>) \<and> keys_read h = Suc (keys_read (io s))"
proof -
  obtain n where "dev_in8 dev (replicate n (In8 0x64) @ io (taken Ps2_lock s)) 0x64 AND 1 \<noteq> 0"
    using k unfolding keyboard_def by blast
  from poll_until_ready [of "\<lambda>v. v AND 1 \<noteq> 0", OF this] obtain m where
    m: "poll_until dev 0x64 (\<lambda>v. v AND 1 \<noteq> 0) (taken Ps2_lock s) =
      Some ((), (taken Ps2_lock s)\<lparr>io := replicate m (In8 0x64) @ io s\<rparr>)"
    by auto
  have "dev_in8 dev h 0x60 = ks (keys_read h)" for h
    using k by (simp add: keyboard_def)
  then have "ps2_read_scan dev s = Some (ks (keys_read (io s)), s\<lparr>io := In8 0x60 # replicate m (In8 0x64) @ io s\<rparr>)"
    using free by (simp add: ps2_read_scan_def locked_free m inb_def)
       (simp add: event_def taken_def cli_def fun_upd_idem)
  moreover have "keys_read (In8 0x60 # replicate m (In8 0x64) @ io s) = Suc (keys_read (io s))"
    by simp
  ultimately show ?thesis
    by blast
qed

section \<open>The screen leaves the keyboard alone\<close>

lemma wait_transmit_keys: "wait_transmit dev s = Some (r, t) \<Longrightarrow> keys_read (io t) = keys_read (io s)"
proof (induction dev s "(r, t)" arbitrary: r t rule: wait_transmit.raw_induct [rotated, consumes 1, case_names step])
  case (step rec dev s)
  from step(2) show ?case
    by (auto simp: serial_is_transmit_empty_def inb_def SERIAL_PORT_def split: if_splits dest: step(1))
qed

lemma serial_printc_keys:
  assumes "serial_printc dev c s = Some (r, t)"
  shows "keys_read (io t) = keys_read (io s)"
proof -
  have "\<not> locks s Serialc_lock"
    using assms by (cases "locks s Serialc_lock") (auto simp: serial_printc_def locked_held)
  with assms show ?thesis
    by (auto simp: serial_printc_def locked_free outb_def dest!: wait_transmit_keys)
qed

lemma vmem_set_cursor_keys:
  assumes "vmem_set_cursor x y s = Some (r, t)"
  shows "keys_read (io t) = keys_read (io s)"
proof -
  have "\<not> locks s Vmem_cur_lock"
    using assms by (cases "locks s Vmem_cur_lock") (auto simp: vmem_set_cursor_def locked_held)
  with assms show ?thesis
    by (auto simp: vmem_set_cursor_def locked_free outb_def Let_def)
qed

lemma vmem_printc_keys:
  assumes "vmem_printc dev c (d, s) = Some (r, e, t)"
  shows "keys_read (io t) = keys_read (io s)"
proof -
  have "\<not> locks s Vmemc_lock"
    using assms by (auto simp: vmem_printc_def locked_design_def spin_lock_irqsave_def spin_lock_def cli_def
        split: if_splits)
  with assms show ?thesis
    by (auto simp: vmem_printc_def locked_design_free put_cell_def split: if_splits
        dest!: vmem_set_cursor_keys serial_printc_keys)
qed

section \<open>The line editor\<close>

text \<open>What a key does to the line typed so far.\<close>

definition typed_key :: "int \<Rightarrow> string \<Rightarrow> u8 \<Rightarrow> string" where
  "typed_key max_len line sc =
     (if sc AND 0x80 \<noteq> 0 \<or> scan_to_ascii ! unat sc = CHR 0x00 then line
      else if scan_to_ascii ! unat sc = CHR 0x08 then butlast line
      else if int (length line) < max_len - 1 then line @ [scan_to_ascii ! unat sc]
      else line)"

definition enter_key :: u8 where "enter_key = 0x1C"

lemma newline_key:
  assumes "sc AND 0x80 = 0"
  shows "scan_to_ascii ! unat sc = CHR 0x0A \<longleftrightarrow> sc = enter_key"
proof -
  have "unat sc < 128"
  proof -
    have "\<not> bit sc 7"
      using assms by (simp add: bit_iff_and_push_bit_not_eq_0)
    then have "sc = take_bit 7 sc"
      by (intro bit_word_eqI) (auto simp: bit_simps less_Suc_eq numeral_eq_Suc)
    then have "unat sc = take_bit 7 (unat sc)"
      by (metis unsigned_take_bit_eq)
    then show ?thesis
      using take_bit_nat_less_exp [of 7 "unat sc"] by simp
  qed
  moreover have "\<forall>n \<in> set [0..<128]. scan_to_ascii ! n = CHR 0x0A \<longleftrightarrow> n = 28"
    by code_simp
  moreover have "unat sc = 28 \<longleftrightarrow> sc = enter_key"
    by (simp add: enter_key_def word_unat_eq_iff)
  ultimately show ?thesis
    by auto
qed

section \<open>The buffer and the screen\<close>

definition in_screen :: "u64 \<Rightarrow> bool" where
  "in_screen a \<longleftrightarrow> 0xB8000 \<le> unat a \<and> unat a < 0xB8FA0"

lemma cell_in_screen: "i < 2000 \<Longrightarrow> in_screen (cell_addr i)" "i < 2000 \<Longrightarrow> in_screen (cell_addr i + 1)"
proof -
  assume i: "i < 2000"
  then show "in_screen (cell_addr i)"
    by (simp add: in_screen_def unat_cell)
  have "unat (cell_addr i + 1) = Suc (unat (cell_addr i))"
    using i by (subst unat_plus_less) (simp_all add: unat_cell)
  with i show "in_screen (cell_addr i + 1)"
    by (simp add: in_screen_def unat_cell)
qed

lemma screen_write_outside: "i < 2000 \<Longrightarrow> \<not> in_screen a \<Longrightarrow> st16 m (cell_addr i) v a = m a"
  using cell_in_screen [of i] by (auto simp: st16_def numeral_2_eq_2)

lemma cell_outside: "i < 2000 \<Longrightarrow> \<not> in_screen a \<Longrightarrow> cell (m(a := b)) i = cell m i"
  using cell_in_screen [of i] by (auto simp: cell_def ld16_def numeral_2_eq_2)

lemma line_text_outside:
  "unat (vy d) < 25 \<Longrightarrow> unat (vx d) \<le> 80 \<Longrightarrow> \<not> in_screen a \<Longrightarrow>
   line_text (d, s\<lparr>mem := (mem s)(a := b)\<rparr>) = line_text (d, s)"
  by (simp add: line_text_def cell_outside)

lemma line_text_io [simp]: "line_text (d, s\<lparr>io := h\<rparr>) = line_text (d, s)"
  by (simp add: line_text_def)

section \<open>One key\<close>

lemma screen_room: "screen_ready dev L n (d, s) \<Longrightarrow> unat (vy d) < 25 \<and> unat (vx d) + n \<le> 80"
  by (simp add: screen_ready_def)

lemma erase_char_ok:
  assumes r: "screen_ready dev L n (d, s)" and x: "0 < unat (vx d)"
  shows "\<exists>h. erase_char dev (d, s) = Some ((), (d\<lparr>vx := vx d - 1\<rparr>,
      s\<lparr>mem := st16 (mem s) (cell_addr (80 * unat (vy d) + (unat (vx d) - 1)))
        (push_bit 8 (design_attr d) OR scast (of_char (CHR 0x20) :: u8)), io := h\<rparr>))
    \<and> keys_read h = keys_read (io s)"
proof -
  let ?d = "d\<lparr>vx := vx d - 1\<rparr>"
  have x1: "unat (vx d - 1) = unat (vx d) - 1"
    using x by (intro unat_minus_one) auto
  have b: "unat (vx d) + n \<le> 80" "\<not> locks s Vmem_cur_lock"
    using r by (auto simp: screen_ready_def)
  have "uint (vx d) < 2147483648" "0 \<le> uint (vx d)"
    using b(1) uint_nat [of "vx d"] by (linarith, simp)
  then have "sint (vx d) = uint (vx d)"
    unfolding sint_uint by (intro signed_take_bit_int_eq_self) (simp_all add: order_trans [of _ 0])
  moreover have nz: "vx d \<noteq> 0"
    using x by auto
  ultimately have "0 < sint (vx d)"
    using word_gt_0 [of "vx d"] by (simp add: word_less_def)
  with nz have move: "(if vx d = 0 \<and> 0 < sint (vy d) then d\<lparr>vy := vy d - 1, vx := of_nat (VMEM_MAX_COLS - 1)\<rparr>
              else if 0 < sint (vx d) then d\<lparr>vx := vx d - 1\<rparr> else d) = ?d"
    by simp
  obtain h1 where h1: "vmem_set_cursor (ucast (vx ?d)) (ucast (vy ?d)) s = Some ((), s\<lparr>io := h1\<rparr>)"
    using cursor_ok [OF b(2)] by blast
  have "screen_ready dev L (Suc n) (?d, s\<lparr>io := h1\<rparr>)"
    using r x x1 by (auto simp: screen_ready_def)
  from vmem_printc_ok [OF this, of "CHR 0x20"] obtain h2 where
    h2: "vmem_printc dev (CHR 0x20) (?d, s\<lparr>io := h1\<rparr>) = Some ((), (?d\<lparr>vx := vx ?d + 1\<rparr>,
      s\<lparr>mem := st16 (mem s) (cell_addr (80 * unat (vy d) + (unat (vx d) - 1)))
        (push_bit 8 (design_attr d) OR scast (of_char (CHR 0x20) :: u8)), io := h2\<rparr>))"
    using x1 by (auto simp: design_attr_def)
  let ?s = "s\<lparr>mem := st16 (mem s) (cell_addr (80 * unat (vy d) + (unat (vx d) - 1)))
        (push_bit 8 (design_attr d) OR scast (of_char (CHR 0x20) :: u8)), io := h2\<rparr>"
  have "\<not> locks ?s Vmem_cur_lock"
    using b(2) by simp
  then obtain h3 where h3: "vmem_set_cursor (ucast (vx ?d)) (ucast (vy ?d)) ?s = Some ((), ?s\<lparr>io := h3\<rparr>)"
    using cursor_ok by blast
  have "erase_char dev (d, s) = Some ((), (?d, ?s\<lparr>io := h3\<rparr>))"
    using h1 h2 h3 unfolding erase_char_def by (simp add: move)
  moreover have "keys_read h3 = keys_read (io s)"
    using vmem_set_cursor_keys [OF h1] vmem_printc_keys [OF h2] vmem_set_cursor_keys [OF h3] by simp
  ultimately show ?thesis
    by (intro exI [of _ h3]) simp
qed

lemma line_text_erased:
  assumes "unat (vy d) < 25" and "0 < unat (vx d)" and "unat (vx d) \<le> 80"
  shows "line_text (d\<lparr>vx := vx d - 1\<rparr>,
    s\<lparr>mem := st16 (mem s) (cell_addr (80 * unat (vy d) + (unat (vx d) - 1))) v, io := h\<rparr>) = butlast (line_text (d, s))"
proof -
  obtain n where n: "unat (vx d) = Suc n"
    using assms(2) by (cases "unat (vx d)") simp_all
  then have "unat (vx d - 1) = n"
    by (subst unat_minus_one) auto
  with n assms show ?thesis
    by (simp add: line_text_def cell_write)
qed

lemma vmem_newline_ok:
  assumes r: "screen_ready dev L n (d, s)"
  shows "\<exists>h. vmem_printc dev (CHR 0x0A) (d, s) = Some ((), (d\<lparr>vx := 0, vy := vy d + 1\<rparr>, s\<lparr>io := h\<rparr>))
    \<and> keys_read h = keys_read (io s)"
proof -
  have b: "unat (vy d) < 25" "\<not> locks s Vmemc_lock" "\<not> locks s Vmem_cur_lock"
    using r by (auto simp: screen_ready_def)
  let ?d = "d\<lparr>vx := 0, vy := vy d + 1\<rparr>"
  have "unat (vy d + 1) = Suc (unat (vy d))"
    using b(1) by (subst unat_plus_less) simp_all
  then have y1: "(ucast (ucast (vy d + 1) :: u16) :: u32) = vy d + 1"
    using b(1) by (simp add: word_unat_eq_iff unsigned_ucast_eq unsigned_take_bit_eq take_bit_nat_eq_self)
  obtain h where cur: "vmem_set_cursor (ucast (vx ?d)) (ucast (vy ?d)) s = Some ((), s\<lparr>io := h\<rparr>)"
    using cursor_ok [of s] b(3) by auto
  have "serial_out d = 1 \<longrightarrow> uart_ok dev \<and> \<not> locks (s\<lparr>io := h\<rparr>) Serialc_lock"
    using r by (auto simp: screen_ready_def)
  from mirror_ok [OF this] obtain h' where
    "(if serial_out d = 1 then serial_printc dev (CHR 0x0A) (s\<lparr>io := h\<rparr>) else Some ((), s\<lparr>io := h\<rparr>))
      = Some ((), s\<lparr>io := h'\<rparr>)"
    by auto
  moreover have "locked_design Vmemc_lock (\<lambda>(d, s).
       if CHR 0x0A = CHR 0x0A
       then Some ((), (d\<lparr>vx := 0, vy := ucast (ucast (vy d + 1) :: u16)\<rparr>, s))
       else Some ((), (d\<lparr>vx := ucast (ucast (vx d + 1) :: u16)\<rparr>,
              put_cell (vy d * of_nat VMEM_MAX_COLS + vx d)
                (push_bit 8 (design_attr d) OR scast (of_char (CHR 0x0A) :: u8)) s))) (d, s) = Some ((), (?d, s))"
    using b(2) y1
    by (cases s) (simp add: locked_design_def spin_lock_irqsave_def spin_lock_def cli_def
        spin_unlock_irqrestore_def spin_unlock_def fun_upd_idem)
  ultimately have p: "vmem_printc dev (CHR 0x0A) (d, s) = Some ((), (?d, s\<lparr>io := h'\<rparr>))"
    using cur by (simp add: vmem_printc_def)
  with vmem_printc_keys [OF p] show ?thesis
    by auto
qed

text \<open>
  The state of the editor after some keys, from the state in which it was called: the line typed so
  far is on the screen and in the buffer, and nothing else has changed.
\<close>

definition typing ::
  "device \<Rightarrow> (lock_id \<Rightarrow> bool) \<Rightarrow> u64 \<Rightarrow> int \<Rightarrow> vmem_design \<Rightarrow> 'a mach_scheme \<Rightarrow> string \<Rightarrow> vmem_design \<Rightarrow> 'a mach_scheme \<Rightarrow> bool" where
  "typing dev L buf max_len d0 s0 line d s \<longleftrightarrow>
     int (length line) < max_len \<and> d = d0\<lparr>vx := vx d0 + of_nat (length line)\<rparr>
   \<and> screen_ready dev L (nat (max_len - 1) - length line) (d, s)
   \<and> unat (vx d) = unat (vx d0) + length line
   \<and> line_text (d, s) = line_text (d0, s0) @ line
   \<and> (\<forall>k < length line. mem s (buf + of_nat k) = of_char (line ! k))
   \<and> rflags s = rflags s0
   \<and> (\<forall>a. \<not> in_screen a \<and> (\<forall>k < nat max_len. a \<noteq> buf + of_nat k) \<longrightarrow> mem s a = mem s0 a)"

definition line_buffer :: "u64 \<Rightarrow> int \<Rightarrow> bool" where
  "line_buffer buf max_len \<longleftrightarrow> 0 < max_len \<and> max_len < 2 ^ 31 \<and> (\<forall>k < nat max_len. \<not> in_screen (buf + of_nat k))"

lemma buffer_inject:
  "line_buffer buf max_len \<Longrightarrow> int j < max_len \<Longrightarrow> int k < max_len \<Longrightarrow> buf + of_nat j = buf + of_nat k \<longleftrightarrow> j = k"
proof -
  assume "line_buffer buf max_len" "int j < max_len" "int k < max_len"
  then have "unat (of_nat j :: u64) = j" "unat (of_nat k :: u64) = k"
    by (auto simp: line_buffer_def intro!: unat_of_nat_small)
  then show ?thesis
    by (metis add_left_cancel)
qed

lemma typing_start:
  assumes "screen_ready dev L (nat (max_len - 1)) (d, s)" and "line_buffer buf max_len"
  shows "typing dev L buf max_len d s [] d s"
  using assms by (simp add: typing_def line_buffer_def)

lemma typingD:
  assumes "typing dev L buf max_len d0 s0 line d s"
  shows "int (length line) < max_len" "d = d0\<lparr>vx := vx d0 + of_nat (length line)\<rparr>"
    "screen_ready dev L (nat (max_len - 1) - length line) (d, s)"
    "unat (vx d) = unat (vx d0) + length line" "line_text (d, s) = line_text (d0, s0) @ line"
    "k < length line \<Longrightarrow> mem s (buf + of_nat k) = of_char (line ! k)" "rflags s = rflags s0"
    "\<not> in_screen a \<Longrightarrow> \<forall>k < nat max_len. a \<noteq> buf + of_nat k \<Longrightarrow> mem s a = mem s0 a"
  using assms unfolding typing_def by blast+

lemma typing_io: "typing dev L buf max_len d0 s0 line d s \<Longrightarrow> typing dev L buf max_len d0 s0 line d (s\<lparr>io := h\<rparr>)"
  unfolding typing_def screen_ready_def by auto

lemma typing_put:
  assumes t: "typing dev L buf max_len d0 s0 line d s" and b: "line_buffer buf max_len"
    and room: "int (length line) < max_len - 1" and c: "c \<noteq> CHR 0x0A"
  shows "\<exists>e u. vmem_printc dev c (d, store_char (buf + of_nat (length line)) c s) = Some ((), (e, u))
    \<and> typing dev L buf max_len d0 s0 (line @ [c]) e u \<and> keys_read (io u) = keys_read (io s)"
proof -
  let ?a = "buf + of_nat (length line)" and ?n = "nat (max_len - 1) - Suc (length line)"
  let ?s = "store_char ?a c s"
  have a: "\<not> in_screen ?a"
    using b room by (simp add: line_buffer_def)
  have n: "nat (max_len - 1) - length line = Suc ?n"
    using room by simp
  have "screen_ready dev L (Suc ?n) (d, s)"
    using typingD(3) [OF t] by (simp only: n)
  then have r: "screen_ready dev L (Suc ?n) (d, ?s)"
    by (simp add: screen_ready_def store_char_def)
  let ?i = "80 * unat (vy d) + unat (vx d)" and ?v = "push_bit 8 (design_attr d) OR scast (of_char c :: u8)"
  from vmem_printc_ok [OF r c] obtain h where h: "vmem_printc dev c (d, ?s) = Some ((), (d\<lparr>vx := vx d + 1\<rparr>,
      ?s\<lparr>mem := st16 (mem ?s) (cell_addr ?i) ?v, io := h\<rparr>))"
    by blast
  let ?e = "d\<lparr>vx := vx d + 1\<rparr>" and ?u = "?s\<lparr>mem := st16 (mem ?s) (cell_addr ?i) ?v, io := h\<rparr>"
  have bounds: "unat (vy d) < 25" "unat (vx d) < 80" "?i < 2000"
    using screen_room [OF r] by simp_all
  have x1: "unat (vx d + 1) = Suc (unat (vx d))"
    using bounds(2) by (subst unat_plus_less) simp_all
  have mem_u: "mem ?u x = (if x = ?a then of_char c else mem s x)" if "\<not> in_screen x" for x
    using that bounds(3) by (simp add: screen_write_outside store_char_def)
  have buf: "\<not> in_screen (buf + of_nat k)" if "int k < max_len" for k
    using that b by (simp add: line_buffer_def)
  have line: "mem ?u (buf + of_nat k) = of_char ((line @ [c]) ! k)" if "k < length (line @ [c])" for k
  proof -
    have k: "int k < max_len" "int (length line) < max_len"
      using that room by simp_all
    show ?thesis
      using that t mem_u [OF buf [OF k(1)]] buffer_inject [OF b k]
      by (cases "k = length line") (auto simp: typing_def nth_append)
  qed
  have cells: "line_text (?e, ?u) = line_text (d, s) @ [c]"
    using bounds x1 a by (simp add: line_text_def cell_write low_byte of_char_byte store_char_def cell_outside)
  have frame: "mem ?u x = mem s0 x" if x: "\<not> in_screen x" "\<forall>k < nat max_len. x \<noteq> buf + of_nat k" for x
  proof -
    have "x \<noteq> ?a"
      using x(2) room by simp
    moreover have "mem s x = mem s0 x"
      using t x by (simp add: typing_def)
    ultimately show ?thesis
      using mem_u [OF x(1)] by simp
  qed
  have "screen_ready dev L ?n (?e, ?u)"
    using r x1 by (simp add: screen_ready_def)
  moreover have "nat (max_len - 1) - length (line @ [c]) = ?n"
    by simp
  moreover have "?e = d0\<lparr>vx := vx d0 + of_nat (length (line @ [c]))\<rparr>"
    unfolding typingD(2) [OF t] by (simp add: add.assoc)
  moreover have "rflags ?u = rflags s0" "unat (vx ?e) = unat (vx d0) + length (line @ [c])"
    using typingD(4,7) [OF t] x1 by (simp_all add: store_char_def)
  moreover have "line_text (?e, ?u) = line_text (d0, s0) @ line @ [c]"
    using typingD(5) [OF t] unfolding cells by simp
  moreover have "int (length (line @ [c])) < max_len"
    using room by simp
  ultimately have "typing dev L buf max_len d0 s0 (line @ [c]) ?e ?u"
    unfolding typing_def using line frame by (metis (no_types, lifting))
  moreover have "keys_read (io ?u) = keys_read (io s)"
    using vmem_printc_keys [OF h] by (simp add: store_char_def)
  ultimately show ?thesis
    using h by blast
qed

lemma typing_erase:
  assumes t: "typing dev L buf max_len d0 s0 line d s" and some: "line \<noteq> []"
    and b: "line_buffer buf max_len"
  shows "\<exists>e u. erase_char dev (d, s) = Some ((), (e, u))
    \<and> typing dev L buf max_len d0 s0 (butlast line) e u \<and> keys_read (io u) = keys_read (io s)"
proof -
  let ?n = "nat (max_len - 1) - length line"
  have r: "screen_ready dev L ?n (d, s)" and x: "unat (vx d) = unat (vx d0) + length line"
      and len: "0 < length line" "int (length line) < max_len"
    using t some by (auto simp: typing_def)
  have x0: "0 < unat (vx d)"
    using x len(1) by simp
  let ?i = "80 * unat (vy d) + (unat (vx d) - 1)"
  let ?v = "push_bit 8 (design_attr d) OR scast (of_char (CHR 0x20) :: u8)"
  from erase_char_ok [OF r x0] obtain h where h: "erase_char dev (d, s) = Some ((), (d\<lparr>vx := vx d - 1\<rparr>,
      s\<lparr>mem := st16 (mem s) (cell_addr ?i) ?v, io := h\<rparr>))" "keys_read h = keys_read (io s)"
    by blast
  let ?e = "d\<lparr>vx := vx d - 1\<rparr>" and ?u = "s\<lparr>mem := st16 (mem s) (cell_addr ?i) ?v, io := h\<rparr>"
  have bounds: "unat (vy d) < 25" "unat (vx d) \<le> 80" "?i < 2000"
    using screen_room [OF r] x0 by - linarith+
  have x1: "unat (vx d - 1) = unat (vx d) - 1"
    using x0 by (intro unat_minus_one) auto
  have mem_u: "mem ?u a = mem s a" if "\<not> in_screen a" for a
    using that bounds(3) by (simp add: screen_write_outside)
  have len1: "length (butlast line) = length line - 1"
    by simp
  have "vx d0 + of_nat (length line) - 1 = vx d0 + of_nat (length (butlast line))"
    using len(1) by (cases "length line") simp_all
  then have "?e = d0\<lparr>vx := vx d0 + of_nat (length (butlast line))\<rparr>"
    unfolding typingD(2) [OF t] by simp
  moreover have "screen_ready dev L (nat (max_len - 1) - length (butlast line)) (?e, ?u)"
    using r x1 x0 len by (simp add: screen_ready_def)
  moreover have "line_text (?e, ?u) = line_text (d0, s0) @ butlast line"
    unfolding line_text_erased [OF bounds(1) x0 bounds(2)] typingD(5) [OF t]
    using some by (simp add: butlast_append)
  moreover have "unat (vx d - 1) = unat (vx d0) + (length line - 1)"
    using x x1 len(1) by linarith
  then have "unat (vx ?e) = unat (vx d0) + length (butlast line)"
    by simp
  moreover have "int (length (butlast line)) < max_len" "rflags ?u = rflags s0"
    using len typingD(7) [OF t] by auto
  moreover have "mem ?u (buf + of_nat k) = of_char (butlast line ! k)" if "k < length (butlast line)" for k
  proof -
    have "\<not> in_screen (buf + of_nat k)"
      using that b len by (simp add: line_buffer_def)
    then show ?thesis
      using that t mem_u by (simp add: typing_def nth_butlast)
  qed
  moreover have "mem ?u x = mem s0 x" if "\<not> in_screen x" "\<forall>k < nat max_len. x \<noteq> buf + of_nat k" for x
    using that t mem_u by (simp add: typing_def)
  ultimately have "typing dev L buf max_len d0 s0 (butlast line) ?e ?u"
    unfolding typing_def by (metis (no_types, lifting))
  then show ?thesis
    using h by (intro exI [of _ ?e] exI [of _ ?u]) simp
qed

text \<open>One round of the loop, for a key that does not end the line.\<close>

lemma typing_key:
  assumes k: "keyboard dev ks" and b: "line_buffer buf max_len" and free: "\<not> L Ps2_lock"
    and t: "typing dev L buf max_len d0 s0 line d s" and key: "ks (keys_read (io s)) \<noteq> enter_key"
  shows "\<exists>e u. read_line_loop dev buf max_len (length line) (d, s)
      = read_line_loop dev buf max_len (length (typed_key max_len line (ks (keys_read (io s))))) (e, u)
    \<and> typing dev L buf max_len d0 s0 (typed_key max_len line (ks (keys_read (io s)))) e u
    \<and> keys_read (io u) = Suc (keys_read (io s))"
proof -
  let ?sc = "ks (keys_read (io s))" and ?loop = "read_line_loop dev buf max_len"
  let ?c = "scan_to_ascii ! unat ?sc"
  have "\<not> locks s Ps2_lock"
    using typingD(3) [OF t] free by (simp add: screen_ready_def)
  from read_scan_key [OF k this] obtain h where h: "ps2_read_scan dev s = Some (?sc, s\<lparr>io := h\<rparr>)"
      "keys_read h = Suc (keys_read (io s))"
    by blast
  note t1 = typing_io [OF t, of h]
  note round = read_line_loop.simps [of dev buf max_len "length line" "(d, s)"]
  consider (none) "?sc AND 0x80 \<noteq> 0 \<or> ?c = CHR 0x00"
    | (erase) "?sc AND 0x80 = 0" "?c = CHR 0x08"
    | (put) "?sc AND 0x80 = 0" "?c \<noteq> CHR 0x00" "?c \<noteq> CHR 0x08" "int (length line) < max_len - 1"
    | (full) "?sc AND 0x80 = 0" "?c \<noteq> CHR 0x00" "?c \<noteq> CHR 0x08" "\<not> int (length line) < max_len - 1"
    by blast
  then show ?thesis
  proof cases
    case none
    then have "?loop (length line) (d, s) = ?loop (length line) (d, s\<lparr>io := h\<rparr>)" "typed_key max_len line ?sc = line"
      by (subst round, simp add: h(1), simp add: typed_key_def)
    with t1 h(2) show ?thesis
      by (intro exI [of _ d] exI [of _ "s\<lparr>io := h\<rparr>"]) simp
  next
    case full
    then have "?c \<noteq> CHR 0x0A"
      using key newline_key by blast
    with full have "?loop (length line) (d, s) = ?loop (length line) (d, s\<lparr>io := h\<rparr>)" "typed_key max_len line ?sc = line"
      by (subst round, simp add: h(1), simp add: typed_key_def)
    with t1 h(2) show ?thesis
      by (intro exI [of _ d] exI [of _ "s\<lparr>io := h\<rparr>"]) simp
  next
    case put
    then have nl: "?c \<noteq> CHR 0x0A"
      using key newline_key by blast
    from typing_put [OF t1 b put(4) nl] obtain e u where
      u: "vmem_printc dev ?c (d, store_char (buf + of_nat (length line)) ?c (s\<lparr>io := h\<rparr>)) = Some ((), (e, u))"
        "typing dev L buf max_len d0 s0 (line @ [?c]) e u" "keys_read (io u) = keys_read h"
      by auto
    have "?loop (length line) (d, s) = ?loop (length line + 1) (e, u)"
      using put nl by (subst round) (simp add: h(1) u(1))
    moreover have "typed_key max_len line ?sc = line @ [?c]"
      using put by (simp add: typed_key_def)
    ultimately show ?thesis
      using u(2,3) h(2) by (intro exI [of _ e] exI [of _ u]) simp
  next
    case erase
    have type: "typed_key max_len line ?sc = butlast line"
      using erase by (simp add: typed_key_def)
    show ?thesis
    proof (cases "line = []")
      case True
      then have "?loop (length line) (d, s) = ?loop (length line) (d, s\<lparr>io := h\<rparr>)"
        using erase by (subst round) (simp add: h(1))
      with t1 h(2) True show ?thesis
        unfolding type by (intro exI [of _ d] exI [of _ "s\<lparr>io := h\<rparr>"]) simp
    next
      case False
      from typing_erase [OF t1 False b] obtain e u where
        u: "erase_char dev (d, s\<lparr>io := h\<rparr>) = Some ((), (e, u))"
          "typing dev L buf max_len d0 s0 (butlast line) e u" "keys_read (io u) = keys_read h"
        by auto
      have "?loop (length line) (d, s) = ?loop (length line - 1) (e, u)"
        using erase False by (subst round) (simp add: h(1) u(1))
      with u(2,3) h(2) show ?thesis
        unfolding type by (intro exI [of _ e] exI [of _ u]) simp
    qed
  qed
qed

lemma typing_keys:
  assumes k: "keyboard dev ks" and b: "line_buffer buf max_len" and free: "\<not> L Ps2_lock"
  shows "typing dev L buf max_len d0 s0 line d s \<Longrightarrow> \<forall>j < n. ks (keys_read (io s) + j) \<noteq> enter_key \<Longrightarrow>
    \<exists>e u. read_line_loop dev buf max_len (length line) (d, s)
      = read_line_loop dev buf max_len
          (length (foldl (typed_key max_len) line (map (\<lambda>j. ks (keys_read (io s) + j)) [0..<n]))) (e, u)
    \<and> typing dev L buf max_len d0 s0 (foldl (typed_key max_len) line (map (\<lambda>j. ks (keys_read (io s) + j)) [0..<n])) e u
    \<and> keys_read (io u) = keys_read (io s) + n"
proof (induction n arbitrary: line d s)
  case 0
  then show ?case
    by (intro exI [of _ d] exI [of _ s]) simp
next
  case (Suc n)
  let ?sc = "ks (keys_read (io s))"
  have "?sc \<noteq> enter_key"
    using Suc.prems(2) by (auto dest: spec [of _ 0])
  from typing_key [OF k b free Suc.prems(1) this] obtain e u where
    u: "read_line_loop dev buf max_len (length line) (d, s)
        = read_line_loop dev buf max_len (length (typed_key max_len line ?sc)) (e, u)"
      "typing dev L buf max_len d0 s0 (typed_key max_len line ?sc) e u"
      "keys_read (io u) = Suc (keys_read (io s))"
    by blast
  have "\<forall>j < n. ks (keys_read (io u) + j) \<noteq> enter_key"
    using Suc.prems(2) unfolding u(3) by (auto dest: spec [of _ "Suc _"])
  from Suc.IH [OF u(2) this] obtain f v where
    v: "read_line_loop dev buf max_len (length (typed_key max_len line ?sc)) (e, u)
        = read_line_loop dev buf max_len
          (length (foldl (typed_key max_len) (typed_key max_len line ?sc) (map (\<lambda>j. ks (keys_read (io u) + j)) [0..<n]))) (f, v)"
      "typing dev L buf max_len d0 s0
        (foldl (typed_key max_len) (typed_key max_len line ?sc) (map (\<lambda>j. ks (keys_read (io u) + j)) [0..<n])) f v"
      "keys_read (io v) = keys_read (io u) + n"
    by blast
  have "map (\<lambda>j. ks (keys_read (io s) + j)) [0..<Suc n] = ?sc # map (\<lambda>j. ks (keys_read (io u) + j)) [0..<n]"
    unfolding upt_conv_Cons [OF zero_less_Suc] map_Suc_upt [symmetric] u(3) by simp
  then have fold: "foldl (typed_key max_len) line (map (\<lambda>j. ks (keys_read (io s) + j)) [0..<Suc n])
      = foldl (typed_key max_len) (typed_key max_len line ?sc) (map (\<lambda>j. ks (keys_read (io u) + j)) [0..<n])"
    by simp
  show ?case
    unfolding fold u(1) v(1) using v(2,3) u(3) by (intro exI [of _ f] exI [of _ v]) simp
qed

section \<open>Properties\<close>

text \<open>
  C40. The line editor. A keyboard delivers any keys and then the enter key, the caller's buffer of
  \<open>max_len\<close> bytes lies outside the screen, and the line of the screen has room: \<open>ps2_read_line\<close>
  returns, the buffer holds the line that the keys spell, with backspaces carried out, and a NUL,
  inside its \<open>max_len\<close> bytes; the screen shows the same line at the cursor, the cursor is at the
  start of the next row, no key after enter is consumed, and no other byte outside the screen and
  no lock has changed.
\<close>

theorem ps2_read_line_edits:
  assumes "keyboard dev ks" and "screen_ready dev L (nat (max_len - 1)) (d, s)" and "\<not> L Ps2_lock"
    and "line_buffer buf max_len" and "\<forall>j < n. ks (keys_read (io s) + j) \<noteq> enter_key"
    and "ks (keys_read (io s) + n) = enter_key"
    and "line = foldl (typed_key max_len) [] (map (\<lambda>j. ks (keys_read (io s) + j)) [0..<n])"
  shows "\<exists>t. ps2_read_line dev buf max_len (d, s) = Some ((), (d\<lparr>vx := 0, vy := vy d + 1\<rparr>, t))
    \<and> int (length line) < max_len
    \<and> ld_bytes (mem t) buf (Suc (length line)) = map of_char line @ [0]
    \<and> line_text (d\<lparr>vx := vx d + of_nat (length line)\<rparr>, t) = line_text (d, s) @ line
    \<and> keys_read (io t) = keys_read (io s) + Suc n \<and> locks t = locks s \<and> rflags t = rflags s
    \<and> (\<forall>a. \<not> in_screen a \<and> (\<forall>k < nat max_len. a \<noteq> buf + of_nat k) \<longrightarrow> mem t a = mem s a)"
proof -
  note k = assms(1) and b = assms(4)
  from typing_keys [OF k b assms(3) typing_start [OF assms(2) b] assms(5)] obtain e u where
    u: "ps2_read_line dev buf max_len (d, s) = read_line_loop dev buf max_len (length line) (e, u)"
      "typing dev L buf max_len d s line e u" "keys_read (io u) = keys_read (io s) + n"
    unfolding ps2_read_line_def assms(7) by auto
  have sc: "ks (keys_read (io u)) = enter_key"
    using assms(6) u(3) by simp
  note r = typingD(3) [OF u(2)]
  have "\<not> locks u Ps2_lock"
    using r assms(3) by (simp add: screen_ready_def)
  from read_scan_key [OF k this] obtain h where h: "ps2_read_scan dev u = Some (enter_key, u\<lparr>io := h\<rparr>)"
      "keys_read h = Suc (keys_read (io u))"
    unfolding sc by blast
  let ?a = "buf + of_nat (length line)"
  let ?v = "store_char ?a (CHR 0x00) (u\<lparr>io := h\<rparr>)"
  have "screen_ready dev L (nat (max_len - 1) - length line) (e, ?v)"
    using r by (simp add: screen_ready_def store_char_def)
  from vmem_newline_ok [OF this] obtain g where g:
    "vmem_printc dev (CHR 0x0A) (e, ?v) = Some ((), (e\<lparr>vx := 0, vy := vy e + 1\<rparr>, ?v\<lparr>io := g\<rparr>))"
    "keys_read g = keys_read h"
    by (auto simp: store_char_def)
  let ?t = "?v\<lparr>io := g\<rparr>"
  have enter: "enter_key AND 0x80 = 0" "scan_to_ascii ! unat enter_key = CHR 0x0A"
    by (simp_all add: enter_key_def scan_to_ascii_def)
  have "read_line_loop dev buf max_len (length line) (e, u) = Some ((), (e\<lparr>vx := 0, vy := vy e + 1\<rparr>, ?t))"
    by (subst read_line_loop.simps) (simp add: h(1) enter g(1))
  moreover have "e\<lparr>vx := 0, vy := vy e + 1\<rparr> = d\<lparr>vx := 0, vy := vy d + 1\<rparr>"
    unfolding typingD(2) [OF u(2)] by simp
  ultimately have res: "ps2_read_line dev buf max_len (d, s) = Some ((), (d\<lparr>vx := 0, vy := vy d + 1\<rparr>, ?t))"
    unfolding u(1) by simp
  note len = typingD(1) [OF u(2)]
  have a: "\<not> in_screen ?a"
    using b len by (simp add: line_buffer_def)
  have mem_t: "mem ?t x = (if x = ?a then 0 else mem u x)" for x
    by (simp add: store_char_def)
  have "ld_bytes (mem ?t) buf (Suc (length line)) = map of_char line @ [0]"
  proof (rule nth_equalityI)
    fix i
    assume "i < length (ld_bytes (mem ?t) buf (Suc (length line)))"
    then have i: "i < Suc (length line)" "int i < max_len"
      using len by simp_all
    then have "ld_bytes (mem ?t) buf (Suc (length line)) ! i = mem ?t (buf + of_nat i)"
      by (simp add: nth_ld_bytes del: ld_bytes.simps)
    also have "\<dots> = (map of_char line @ [0]) ! i"
      using i typingD(6) [OF u(2), of i] buffer_inject [OF b i(2) len]
      unfolding mem_t by (cases "i = length line") (simp_all add: nth_append)
    finally show "ld_bytes (mem ?t) buf (Suc (length line)) ! i = (map of_char line @ [0]) ! i" .
  qed simp
  moreover have "line_text (d\<lparr>vx := vx d + of_nat (length line)\<rparr>, ?t) = line_text (d, s) @ line"
  proof -
    have "unat (vy e) < 25" "unat (vx e) \<le> 80"
      using screen_room [OF r] by simp_all
    then have "line_text (e, ?t) = line_text (e, u)"
      using line_text_outside [of e ?a u] a by (simp add: line_text_def store_char_def)
    then show ?thesis
      using typingD(5) [OF u(2)] unfolding typingD(2) [OF u(2), symmetric] by simp
  qed
  moreover have "locks ?t = locks s" "rflags ?t = rflags s"
    using r assms(2) typingD(7) [OF u(2)] by (simp_all add: screen_ready_def store_char_def)
  moreover have "mem ?t x = mem s x" if "\<not> in_screen x" "\<forall>k < nat max_len. x \<noteq> buf + of_nat k" for x
  proof -
    have "x \<noteq> ?a"
      using that(2) len by simp
    then show ?thesis
      using typingD(8) [OF u(2) that] mem_t by simp
  qed
  moreover have "keys_read (io ?t) = keys_read (io s) + Suc n"
    using g(2) h(2) u(3) by simp
  ultimately show ?thesis
    using res len by (intro exI [of _ ?t] conjI allI impI) blast+
qed

text \<open>The keys \<open>o\<close>, \<open>j\<close>, backspace, \<open>k\<close>, the release of \<open>k\<close> and enter.\<close>

definition typist :: "nat \<Rightarrow> u8" where
  "typist i = (if i < 5 then [0x18, 0x24, 0x0E, 0x25, 0xA5] ! i else 0x1C)"

definition typist_device :: device where
  "typist_device = ready_uart\<lparr>dev_in8 := \<lambda>h p. if p = 0x60 then typist (keys_read h) else 0x21\<rparr>"

lemma typist_keyboard: "keyboard typist_device typist"
  by (simp add: keyboard_def typist_device_def)

theorem ps2_read_line_edits_witness:
  "\<exists>t. ps2_read_line typist_device 0x5000 16 (\<lparr>vx = 2, vy = 4, vfg = 15, vbg = 0, serial_out = 0\<rparr>, idle_mach)
      = Some ((), (\<lparr>vx = 0, vy = 5, vfg = 15, vbg = 0, serial_out = 0\<rparr>, t))
    \<and> ld_bytes (mem t) 0x5000 3 = map of_char ''ok'' @ [0]"
proof -
  let ?d = "\<lparr>vx = 2, vy = 4, vfg = 15, vbg = 0, serial_out = 0\<rparr>"
  have "\<not> in_screen (0x5000 + of_nat k)" if "k < nat 16" for k
  proof -
    have "unat (of_nat k :: u64) = k"
      using that by (intro unat_of_nat_small) simp
    then have "unat (0x5000 + of_nat k :: u64) = 0x5000 + k"
      using that by (subst unat_plus_less) simp_all
    then show ?thesis
      using that by (simp add: in_screen_def)
  qed
  then have b: "line_buffer 0x5000 16"
    by (simp add: line_buffer_def)
  have r: "screen_ready typist_device (\<lambda>_. False) (nat (16 - 1)) (?d, idle_mach)"
    by (simp add: screen_ready_def)
  have "\<forall>j \<in> set [0..<5]. typist j \<noteq> enter_key"
    by (simp add: typist_def enter_key_def upt_rec)
  then have keys: "\<forall>j < 5. typist (keys_read (io idle_mach) + j) \<noteq> enter_key"
      "typist (keys_read (io idle_mach) + 5) = enter_key"
    by (simp, simp add: typist_def enter_key_def)
  have line: "''ok'' = foldl (typed_key 16) [] (map (\<lambda>j. typist (keys_read (io idle_mach) + j)) [0..<5])"
    by (simp add: typist_def typed_key_def scan_to_ascii_def upt_rec)
  have "\<not> (\<lambda>_. False) Ps2_lock"
    by simp
  from ps2_read_line_edits [OF typist_keyboard r this b keys line] obtain t where
    "ps2_read_line typist_device 0x5000 16 (?d, idle_mach) = Some ((), (?d\<lparr>vx := 0, vy := vy ?d + 1\<rparr>, t))"
    "ld_bytes (mem t) 0x5000 (Suc (length ''ok'')) = map of_char ''ok'' @ [0]"
    by blast
  moreover have "Suc (length ''ok'') = 3"
    by simp
  ultimately show ?thesis
    by (intro exI [of _ t]) (simp only: vmem_design.simps, simp)
qed

end
