(* ===== verification/Avmf_Room.thy ===== *)
theory Avmf_Room
  imports Avmf Pager_Init
begin

text \<open>
  Allocations one after the other: how many region headers and which part of the kernel's address
  range an allocation uses up, and a predicate on states that promises a number of further pages
  and is kept by every allocation, so that several calls in a row can be followed.
\<close>

unbundle bit_operations_syntax

section \<open>Headers used\<close>

definition modest :: "nat \<Rightarrow> 'a avmf_scheme \<Rightarrow> 'a avmf_scheme \<Rightarrow> bool" where
  "modest k s t \<longleftrightarrow> header_index t \<le> header_index s + k \<and> heap_kernel t = heap_kernel s"

lemma modest_trans: "modest j s t \<Longrightarrow> modest k t u \<Longrightarrow> modest (j + k) s u"
  by (simp add: modest_def)

lemma modest_mono: "modest j s t \<Longrightarrow> j \<le> k \<Longrightarrow> modest k s t"
  by (simp add: modest_def)

lemma modest_locked:
  assumes "locked l f s = Some (r, t)" and "\<And>r u. f (taken l s) = Some (r, u) \<Longrightarrow> modest k (taken l s) u"
  shows "modest k s t"
proof -
  have "\<not> locks s l"
    using assms(1) by (auto simp: locked_held)
  then obtain u where "f (taken l s) = Some (r, u)" "t = u\<lparr>locks := (locks u)(l := False), rflags := rflags s\<rparr>"
    using assms(1) by (auto simp: locked_free)
  then show ?thesis
    using assms(2) [of r u] by (simp add: modest_def taken_def cli_def)
qed

lemma modest_phys: "avmf_alloc_phys_contiguous n s = Some (p, t) \<Longrightarrow> modest 0 s t"
  unfolding avmf_alloc_phys_contiguous_def
  by (erule modest_locked) (auto simp: modest_def diag_def Let_def split: if_splits option.splits)

lemma modest_virt: "avmf_alloc_virt n MALLOC_TYPE_SENSITIVE s = Some (v, t) \<Longrightarrow> modest 0 s t"
  by (auto simp: avmf_alloc_virt_def Let_def diag_def split: if_splits option.splits
      dest!: modest_locked [where k = 0]) (auto simp: modest_def)

lemma modest_region: "avmf_alloc_region v p n f s = Some (r, t) \<Longrightarrow> modest 1 s t"
  unfolding avmf_alloc_region_def Let_def
  by (auto split: if_splits elim!: modest_locked) (auto simp: modest_def split: option.splits)

lemma modest_table: "alloc_page_table ph s = Some (r, t) \<Longrightarrow> modest 1 s t"
proof -
  assume a: "alloc_page_table ph s = Some (r, t)"
  then obtain p s1 v s2 where s: "avmf_alloc_phys_contiguous PAGE_SIZE s = Some (p, s1)"
      "avmf_alloc_virt PAGE_SIZE MALLOC_TYPE_SENSITIVE s1 = Some (v, s2)"
    by (auto simp: alloc_page_table_def)
  have m: "modest 0 s s2"
    using modest_trans [OF modest_phys [OF s(1)] modest_virt [OF s(2)]] by simp
  show ?thesis
  proof (cases "v = 0")
    case True
    then show ?thesis
      using a s m by (auto simp: alloc_page_table_def modest_def diag_def)
  next
    case False
    then obtain q s3 where s3: "avmf_alloc_region v p PAGE_SIZE (AVMF_FLAG_PRESENT OR AVMF_FLAG_WRITEABLE) s2 = Some (q, s3)"
      using a s by (auto simp: alloc_page_table_def)
    then have "modest 1 s s3"
      using modest_trans [OF m modest_region [OF s3]] by simp
    then show ?thesis
      using a s s3 False by (auto simp: alloc_page_table_def Let_def modest_def diag_def split: if_splits)
  qed
qed

lemma modest_next: "next_table tbl i s = Some (u, t) \<Longrightarrow> modest 1 s t"
  by (auto simp: next_table_def modest_def set_entry_def split: if_splits dest!: modest_table)

lemma modest_map:
  assumes "pager_map v p f s = Some (r, t)"
  shows "modest 3 s t"
proof -
  show ?thesis
  proof (cases "p AND NOT (push_bit (unat (cpu_phys_bits s)) 1 - 1) \<noteq> 0")
    case True
    then show ?thesis
      using assms by (auto simp: pager_map_def modest_def diag_def split: if_splits)
  next
    case False
    then obtain a s1 b s2 where s: "next_table (firmware_pml4 s) (idx 39 v) s = Some (a, s1)"
        "next_table a (idx 30 v) s1 = Some (b, s2)"
      using assms by (auto simp: pager_map_def Let_def split: if_splits)
    have "modest 1 s2 t"
      using assms False s by (auto simp: pager_map_def Let_def modest_def set_entry_def split: if_splits
          dest!: modest_next)
    from modest_trans [OF modest_trans [OF modest_next [OF s(1)] modest_next [OF s(2)]] this]
    show ?thesis
      by (rule modest_mono) simp
  qed
qed

lemma modest_range:
  "pager_map_range_from off v p n f s = Some (r, t) \<Longrightarrow> unat n + 4095 < 2 ^ 64 \<Longrightarrow>
   modest (3 * ((unat n - unat off + 4095) div 4096)) s t"
proof (induction off v p n f s "(r, t)" arbitrary: r t
    rule: pager_map_range_from.raw_induct [rotated, consumes 1, case_names step])
  case (step rec off v p n f s)
  show ?case
  proof (cases "off < n")
    case False
    then show ?thesis
      using step(2) by (simp add: modest_def)
  next
    case True
    define k :: u64 where "k = (if 0x200000 \<le> n - off \<and> (v + off) mod 0x200000 = 0 \<and> (p + off) mod 0x200000 = 0
        then 0x200000 else PAGE_SIZE)"
    obtain f' q u where u: "pager_map (v + off) (p + off) f' s = Some (q, u)" "rec (off + k) v p n f u = Some (r, t)"
      using step(2) True by (auto simp: k_def Let_def split: if_splits)
    have k: "4096 \<le> unat k" "unat off + unat k \<le> unat n + 4095"
    proof -
      have o: "unat off < unat n" "unat (n - off) = unat n - unat off"
        using True by (simp_all add: word_less_nat_alt unat_sub word_le_nat_alt)
      show "4096 \<le> unat k"
        by (simp add: k_def PAGE_SIZE_def)
      show "unat off + unat k \<le> unat n + 4095"
        using o by (auto simp: k_def PAGE_SIZE_def word_le_nat_alt)
    qed
    then have "unat (off + k) = unat off + unat k"
      using step(3) by (intro unat_plus_less) simp
    moreover have "unat n - (unat off + unat k) + 4095 + 4096 \<le> unat n - unat off + 4095 \<or> unat n - (unat off + unat k) = 0"
      using k by linarith
    moreover have "unat off < unat n"
      using True by (simp add: word_less_nat_alt)
    ultimately have "(unat n - unat (off + k) + 4095) div 4096 + 1 \<le> (unat n - unat off + 4095) div 4096"
      using k by (auto simp: div_le_mono)
    then have "3 + 3 * ((unat n - unat (off + k) + 4095) div 4096) \<le> 3 * ((unat n - unat off + 4095) div 4096)"
      by linarith
    moreover have "modest (3 + 3 * ((unat n - unat (off + k) + 4095) div 4096)) s t"
      using modest_trans [OF modest_map [OF u(1)] step(1) [OF u(2) step(3)]] .
    ultimately show ?thesis
      by (blast intro: modest_mono)
  qed
qed

section \<open>Room for more\<close>

definition kernel_room :: "nat \<Rightarrow> 'a pager_scheme \<Rightarrow> bool" where
  "kernel_room k s \<longleftrightarrow> pager_ok s \<and> pool s (5 * k) \<and> header_index s + 4 * k \<le> AVMF_STATIC_SIZE
     \<and> 29 \<le> cpu_phys_bits s \<and> cpu_phys_bits s \<le> 52
     \<and> AOS_KERNEL_SPACE_BASE \<le> heap_kernel s \<and> unat (heap_kernel s) mod 4096 = 0
     \<and> unat (heap_kernel s) + 4096 * k \<le> unat AOS_DRIVER_SPACE_BASE
     \<and> range_free (heap_kernel s) (4096 * k) s"

lemma kernel_room_mono: "kernel_room k s \<Longrightarrow> j \<le> k \<Longrightarrow> kernel_room j s"
  unfolding kernel_room_def range_free_def by (auto elim!: pool_mono)

lemma kernel_room_alloc:
  assumes room: "kernel_room (m + k) s" and m: "m = pages_of n" "0 < m" and n: "unat n \<le> 2 ^ 32"
    and flags: "scast flags AND PAGE_HUGE = 0"
  shows "\<exists>p t. avmf_alloc n MALLOC_TYPE_KERNEL flags s = Some ((heap_kernel s, Some (frame p)), t)
    \<and> heap_kernel s \<noteq> 0 \<and> 0 < p \<and> p + m \<le> BITMAP_SIZE \<and> {p ..< p + m} \<inter> used s = {}
    \<and> kernel_room k t \<and> unat (heap_kernel t) = unat (heap_kernel s) + 4096 * m
    \<and> pager_same s t \<and> kept s t \<and> (\<forall>q. p \<le> q \<and> q < p + m \<longrightarrow> q \<in> used t \<and> data_page q t)
    \<and> tr t = filled (heap_kernel s) (frame p) (4096 * m) (attr (scast flags)) (tr s)"
proof -
  let ?v = "heap_kernel s"
  note r = room [unfolded kernel_room_def]
  let ?lim = "AOS_DRIVER_SPACE_BASE"
  have lim: "heap_end MALLOC_TYPE_KERNEL = Some ?lim"
    by simp
  have top: "unat ?v + 4096 * (m + k) \<le> unat ?lim"
    using r by simp
  have pool: "pool s (5 * m + 5 * k)"
    using r by (simp add: distrib_left)
  have v: "?v = heap_ptr MALLOC_TYPE_KERNEL s" "?v \<noteq> 0" "unat ?v mod 4096 = 0"
    using r by (auto simp: AOS_KERNEL_SPACE_BASE_def)
  have hdr: "header_index s < AVMF_STATIC_SIZE"
    using r m(2) by simp
  have sz: "unat (align4k n) = m * 4096"
    unfolding m(1) by (rule unat_align4k_pages) (use n in simp)
  have fits: "virt_fits n MALLOC_TYPE_KERNEL s"
  proof -
    have "unat ?lim + 2 ^ 33 \<le> 2 ^ 64"
      by (simp add: space_defs)
    then show ?thesis
      using top n unfolding virt_fits_def v(1) [symmetric] by simp
  qed
  have can: "canonical a" if "unat ?v \<le> unat a" for a
    using that r by (intro canonical_high) (simp add: space_defs word_le_nat_alt)
  have free: "range_free ?v (m * 4096) s"
    using r by (simp add: range_free_def)
  have args: "pager_ok s" "29 \<le> cpu_phys_bits s" "cpu_phys_bits s \<le> 52"
      "unat (heap_ptr MALLOC_TYPE_KERNEL s) + m * 4096 \<le> unat ?lim"
      "\<forall>a. unat ?v \<le> unat a \<and> unat a < unat ?v + m * 4096 \<longrightarrow> canonical a"
    using r top can unfolding v(1) [symmetric] by simp_all
  from avmf_alloc_spec [OF args(1) pool m lim args(4) v fits hdr args(2,3) flags args(5) free] obtain p t where
    t: "avmf_alloc n MALLOC_TYPE_KERNEL flags s = Some ((?v, Some (frame p)), t)"
      "0 < p" "p + m \<le> BITMAP_SIZE" "{p ..< p + m} \<inter> used s = {}"
      "pager_ok t" "pool t (5 * k)" "pager_same s t" "kept s t"
      "\<forall>q. p \<le> q \<and> q < p + m \<longrightarrow> q \<in> used t \<and> data_page q t"
      "tr t = filled ?v (frame p) (m * 4096) (attr (scast flags)) (tr s)"
    by (elim exE conjE)
  obtain s1 ph s2 q s3 where a: "avmf_alloc_virt n MALLOC_TYPE_KERNEL s = Some (?v, s1)"
      "avmf_alloc_phys_contiguous (align4k n) s1 = Some (ph, s2)"
      "avmf_alloc_region ?v ph (align4k n) flags s2 = Some (q, s3)"
      "pager_map_range ?v ph (align4k n) (scast flags) s3 = Some ((), t)"
    using t(1) v(2) by (auto simp: avmf_alloc_def Let_def split: if_splits)
  have "\<not> locks s Avmf_lock"
    using r by (simp add: pool_def)
  from alloc_virt_cases [OF this, of n MALLOC_TYPE_KERNEL]
  have "Some (?v, s1) = (if ?lim < ?v + align4k n
      then Some (0, diag ''[AVMF] Not Enough VMemory for Allocation (required: %lx-%lx max-%lx)''
        [Num ?v, Num (?v + align4k n), Num ?lim] s)
      else Some (?v, s\<lparr>heap_kernel := ?v + align4k n\<rparr>))"
    unfolding a(1) by simp
  then have "s1 = s\<lparr>heap_kernel := ?v + align4k n\<rparr>"
    using v(2) by (simp split: if_splits)
  then have s1: "header_index s1 = header_index s" "heap_kernel s1 = ?v + align4k n"
    by simp_all
  have "unat (align4k n) + 4095 < 2 ^ 64"
    using sz top unat_less_exp [of ?lim] n m(1) by (simp add: pages_of_def)
  from modest_range [OF a(4) [unfolded pager_map_range_def] this]
  have "modest (3 * m) s3 t"
    unfolding sz by simp
  from modest_trans [OF modest_trans [OF modest_phys [OF a(2)] modest_region [OF a(3)]] this]
  have h: "header_index t \<le> header_index s + 1 + 3 * m" "heap_kernel t = ?v + align4k n"
    unfolding modest_def s1 by simp_all
  have ht: "unat (heap_kernel t) = unat ?v + 4096 * m"
    using top unat_less_exp [of ?lim] sz unfolding h(2) by (subst unat_plus_less) simp_all
  have "range_free (heap_kernel t) (4096 * k) t"
    using r unfolding range_free_def ht t(10) by (simp add: filled_def)
  moreover have "AOS_KERNEL_SPACE_BASE \<le> heap_kernel t"
    using r ht by (simp add: word_le_nat_alt)
  moreover have "unat (heap_kernel t) mod 4096 = 0"
    using v(3) unfolding ht by simp
  moreover have "29 \<le> cpu_phys_bits t" "cpu_phys_bits t \<le> 52"
    using r t(7) by (simp_all add: pager_same_def)
  moreover have "header_index t + 4 * k \<le> AVMF_STATIC_SIZE"
    using r h(1) m(2) by simp
  ultimately have "kernel_room k t"
    using t(5,6) r ht unfolding kernel_room_def by simp
  then show ?thesis
    using t v(2) ht by (intro exI [of _ p] exI [of _ t]) (simp add: mult.commute)
qed

end
