(* ===== verification/Stack.thy ===== *)
theory Stack
  imports Avmf_Room Heap
begin

text \<open>
  Stacks in virtual memory: \<open>push_values\<close> and \<open>pop64\<close> are what the processor and the code do with a
  stack pointer. A region of virtual addresses is \<open>room\<close> when its bytes are data (no page table) and
  no two of them share a physical address; then writing and reading back works as expected and
  leaves every other byte and the translation alone.
\<close>

unbundle bit_operations_syntax

section \<open>Pushing and popping\<close>

text \<open>\<open>*(--stack) = value\<close>, one value after the other.\<close>

fun push_values :: "u64 list \<Rightarrow> u64 \<Rightarrow> 'a pager_scheme \<Rightarrow> (u64 \<times> 'a pager_scheme) option" where
  "push_values [] stack s = Some (stack, s)"
| "push_values (v # vs) stack s = do {
     s \<leftarrow> vst (stack - 8) (le_bytes 8 v) s;
     push_values vs (stack - 8) s }"

definition pop64 :: "u64 \<Rightarrow> 'a pager_scheme \<Rightarrow> (u64 \<times> u64) option" where
  "pop64 stack s = map_option (\<lambda>bs. (le_word bs, stack + 8)) (vld stack 8 s)"

section \<open>Places of bytes\<close>

definition place :: "'a pager_scheme \<Rightarrow> u64 \<Rightarrow> u64" where
  "place s v = fst (the (tr s v))"

definition places :: "u64 \<Rightarrow> nat \<Rightarrow> 'a pager_scheme \<Rightarrow> u64 set" where
  "places v n s = (\<lambda>k. place s (v + of_nat k)) ` {..<n}"

definition on_data :: "u64 \<Rightarrow> nat \<Rightarrow> 'a pager_scheme \<Rightarrow> bool" where
  "on_data v n s \<longleftrightarrow> (\<forall>k < n. \<exists>p d f. p \<in> used s \<and> data_page p s \<and> d < 4096 \<and> tr s (v + of_nat k) = Some (frame p + of_nat d, f))"

definition room :: "u64 \<Rightarrow> nat \<Rightarrow> 'a pager_scheme \<Rightarrow> bool" where
  "room v n s \<longleftrightarrow> pager_ok s \<and> on_data v n s \<and> inj_on (\<lambda>k. place s (v + of_nat k)) {..<n}"

text \<open>States that differ in data only.\<close>

definition same_map :: "'a pager_scheme \<Rightarrow> 'a pager_scheme \<Rightarrow> bool" where
  "same_map s t \<longleftrightarrow> t = s\<lparr>mem := mem t\<rparr> \<and> pager_ok t \<and> tr t = tr s \<and> used t = used s
     \<and> (\<forall>q. data_page q t = data_page q s)"

lemma same_map_refl: "pager_ok s \<Longrightarrow> same_map s s"
  by (simp add: same_map_def)

lemma same_map_trans: "same_map s t \<Longrightarrow> same_map t u \<Longrightarrow> same_map s u"
proof -
  assume a: "same_map s t" "same_map t u"
  then have "u = t\<lparr>mem := mem u\<rparr>" "t = s\<lparr>mem := mem t\<rparr>"
    by (simp_all add: same_map_def)
  then have "u = s\<lparr>mem := mem t, mem := mem u\<rparr>"
    by simp
  then have "u = s\<lparr>mem := mem u\<rparr>"
    by simp
  with a show ?thesis
    by (simp add: same_map_def)
qed

lemma same_map_places:
  assumes "same_map s t"
  shows "place t = place s" "places v n t = places v n s" "on_data v n t = on_data v n s"
    "room v n s \<Longrightarrow> room v n t"
  using assms by (auto simp: same_map_def place_def places_def on_data_def room_def)

lemma room_sub:
  assumes "room v n s" and "j + m \<le> n"
  shows "room (v + of_nat j) m s"
proof -
  have o: "v + of_nat j + of_nat k = v + of_nat (j + k)" for k
    by (simp add: ac_simps)
  have "inj_on (\<lambda>k. place s (v + of_nat j + of_nat k)) {..<m}"
    using assms unfolding o room_def inj_on_def by (metis add_left_cancel add_less_mono1 lessThan_iff nat_add_left_cancel_less order_less_le_trans)
  moreover have "on_data (v + of_nat j) m s"
    unfolding on_data_def o
  proof (intro allI impI)
    fix k
    assume "k < m"
    then have "j + k < n"
      using assms(2) by simp
    then show "\<exists>p d f. p \<in> used s \<and> data_page p s \<and> d < 4096 \<and> tr s (v + of_nat (j + k)) = Some (frame p + of_nat d, f)"
      using assms(1) unfolding room_def on_data_def by blast
  qed
  ultimately show ?thesis
    using assms by (simp add: room_def)
qed

lemma places_sub:
  assumes "j + m \<le> n"
  shows "places (v + of_nat j) m s \<subseteq> places v n s"
proof
  fix x
  assume "x \<in> places (v + of_nat j) m s"
  then obtain k where "k < m" "x = place s (v + of_nat (j + k))"
    by (auto simp: places_def add.assoc)
  then show "x \<in> places v n s"
    using assms unfolding places_def by (intro image_eqI [of _ _ "j + k"]) auto
qed

lemma places_apart:
  assumes r: "room v n s" and "i + m \<le> j \<or> j + l \<le> i" and "i + m \<le> n" and "j + l \<le> n"
  shows "places (v + of_nat i) m s \<inter> places (v + of_nat j) l s = {}"
proof -
  have "place s (v + of_nat (i + a)) \<noteq> place s (v + of_nat (j + b))" if "a < m" "b < l" for a b
  proof
    assume e: "place s (v + of_nat (i + a)) = place s (v + of_nat (j + b))"
    have "inj_on (\<lambda>k. place s (v + of_nat k)) {..<n}"
      using r by (simp add: room_def)
    from inj_onD [OF this e] have "i + a = j + b"
      using assms(3,4) that by simp
    then show False
      using assms(2) that by auto
  qed
  then show ?thesis
    by (auto simp: places_def add.assoc)
qed

section \<open>Bytes\<close>

lemma vld_places:
  "on_data v n s \<Longrightarrow> vld v n s = Some (map (\<lambda>k. mem s (place s (v + of_nat k))) [0..<n])"
proof (induction n arbitrary: v)
  case 0
  then show ?case by simp
next
  case (Suc n)
  have "on_data (v + 1) n s"
    unfolding on_data_def
  proof (intro allI impI)
    fix k assume "k < n"
    then show "\<exists>p d f. p \<in> used s \<and> data_page p s \<and> d < 4096 \<and> tr s (v + 1 + of_nat k) = Some (frame p + of_nat d, f)"
      using Suc.prems [unfolded on_data_def, rule_format, of "Suc k"] by (simp add: add.assoc)
  qed
  from Suc.IH [OF this] have IH: "vld (v + 1) n s = Some (map (\<lambda>k. mem s (place s (v + 1 + of_nat k))) [0..<n])" .
  obtain q f where "tr s v = Some (q, f)"
    using Suc.prems [unfolded on_data_def, rule_format, of 0] by auto
  moreover have "map (\<lambda>k. mem s (place s (v + of_nat k))) [0..<Suc n]
      = mem s (place s v) # map (\<lambda>k. mem s (place s (v + 1 + of_nat k))) [0..<n]"
    unfolding upt_conv_Cons [OF zero_less_Suc] by (simp add: map_Suc_upt [symmetric] add.assoc del: upt_Suc)
  ultimately show ?case
    using IH by (simp add: place_def del: upt_Suc)
qed

lemma vld_same:
  assumes "on_data v n s" and "same_map s t" and "\<And>x. x \<in> places v n s \<Longrightarrow> mem t x = mem s x"
  shows "vld v n t = vld v n s"
proof -
  have "on_data v n t"
    using assms(1) same_map_places(3) [OF assms(2)] by simp
  then show ?thesis
    using assms by (auto simp: vld_places same_map_places(1) places_def)
qed

lemma length_vld: "vld v n s = Some bs \<Longrightarrow> length bs = n"
  by (induction n arbitrary: v bs) (auto split: option.splits)

lemma vld_split:
  "vld v (m + n) s = (case vld v m s of None \<Rightarrow> None
     | Some xs \<Rightarrow> map_option ((@) xs) (vld (v + of_nat m) n s))"
proof (induction m arbitrary: v)
  case 0
  then show ?case
    by (cases "vld v n s") auto
next
  case (Suc m)
  have "map_option (\<lambda>x. b # xs @ x) r = map_option ((@) (b # xs)) r" for b xs r
    by (cases r) simp_all
  with Suc show ?case
    by (auto simp: option.map_comp comp_def ac_simps split: option.splits)
qed

lemma byte_write:
  assumes r: "room v n s" and k: "k < n" and t: "t = s\<lparr>mem := (mem s)(place s (v + of_nat k) := b)\<rparr>"
  shows "same_map s t"
proof -
  obtain p d f where p: "data_page p s" "d < 4096" "tr s (v + of_nat k) = Some (frame p + of_nat d, f)"
    using r k unfolding room_def on_data_def by blast
  then have t': "t = s\<lparr>mem := (mem s)(frame p + of_nat d := b)\<rparr>"
    by (simp add: t place_def)
  have "pager_ok s"
    using r by (simp add: room_def)
  note w = data_write [OF this p(1,2) t']
  show ?thesis
    using w by (simp add: same_map_def data_page_def) (simp add: t used_def)
qed

lemma vst_room:
  "room v (length bs) s \<Longrightarrow>
   \<exists>t. vst v bs s = Some t \<and> same_map s t \<and> vld v (length bs) t = Some bs
     \<and> (\<forall>x. x \<notin> places v (length bs) s \<longrightarrow> mem t x = mem s x)"
proof (induction bs arbitrary: s v)
  case Nil
  then show ?case
    by (simp add: same_map_refl room_def)
next
  case (Cons b bs)
  let ?s = "s\<lparr>mem := (mem s)(place s v := b)\<rparr>"
  have m: "same_map s ?s"
    using byte_write [OF Cons.prems, of 0] by simp
  have "room (v + of_nat 1) (length bs) s"
    using Cons.prems by (rule room_sub) simp
  then have r: "room (v + 1) (length bs) ?s"
    using same_map_places(4) [OF m] by simp
  from Cons.IH [OF r] obtain t where t: "vst (v + 1) bs ?s = Some t" "same_map ?s t"
      "vld (v + 1) (length bs) t = Some bs" "\<And>x. x \<notin> places (v + 1) (length bs) ?s \<Longrightarrow> mem t x = mem ?s x"
    by blast
  have p: "places (v + 1) (length bs) ?s = places (v + 1) (length bs) s"
    by (rule same_map_places(2) [OF m])
  have "places (v + of_nat 0) 1 s \<inter> places (v + of_nat 1) (length bs) s = {}"
    by (rule places_apart [OF Cons.prems]) simp_all
  moreover have "place s v \<in> places (v + of_nat 0) 1 s"
    by (simp add: places_def)
  ultimately have v: "place s v \<notin> places (v + 1) (length bs) s"
    by auto
  obtain q f where q: "tr s v = Some (q, f)"
    using Cons.prems unfolding room_def on_data_def by force
  have st: "same_map s t"
    by (rule same_map_trans [OF m t(2)])
  have "vld v (length (b # bs)) t = Some (b # bs)"
    using q st t(3,4) v p by (simp add: same_map_def place_def)
  moreover have "vst v (b # bs) s = Some t"
    using q t(1) by (simp add: place_def)
  moreover have "mem t x = mem s x" if "x \<notin> places v (length (b # bs)) s" for x
  proof -
    have "x \<noteq> place s v"
      using that imageI [of 0 "{..<length (b # bs)}" "\<lambda>k. place s (v + of_nat k)"] by (auto simp: places_def)
    moreover have "x \<notin> places (v + 1) (length bs) s"
      using that places_sub [of 1 "length bs" "length (b # bs)" v s] by auto
    ultimately show ?thesis
      using t(4) p by simp
  qed
  ultimately show ?case
    using st by blast
qed

section \<open>Words\<close>

definition holds :: "u64 \<Rightarrow> u64 list \<Rightarrow> 'a pager_scheme \<Rightarrow> bool" where
  "holds v ws s \<longleftrightarrow> vld v (8 * length ws) s = Some (concat (map (le_bytes 8) ws))"

lemma holds_append:
  "holds v (xs @ ys) s \<longleftrightarrow> holds v xs s \<and> holds (v + of_nat (8 * length xs)) ys s"
proof -
  have l: "length (concat (map (le_bytes 8) (xs :: u64 list))) = 8 * length xs"
    by (simp add: length_concat comp_def sum_list_triv)
  have "vld v (8 * length (xs @ ys)) s = vld v (8 * length xs + 8 * length ys) s"
    by (simp add: distrib_left)
  then show ?thesis
    unfolding holds_def vld_split using l
    by (cases "vld (v + of_nat (8 * length xs)) (8 * length ys) s")
       (auto simp: append_eq_append_conv dest!: length_vld split: option.splits)
qed

lemma holds_same:
  assumes "on_data v (8 * length ws) s" and "same_map s t"
    and "\<And>x. x \<in> places v (8 * length ws) s \<Longrightarrow> mem t x = mem s x" and "holds v ws s"
  shows "holds v ws t"
  using assms vld_same [of v "8 * length ws" s t] by (simp add: holds_def)

lemma pop_holds:
  assumes "holds v (w # ws) s"
  shows "pop64 v s = Some (w, v + 8)" and "holds (v + 8) ws s"
proof -
  have "holds v [w] s" "holds (v + 8) ws s"
    using assms holds_append [of v "[w]" ws s] by simp_all
  then show "pop64 v s = Some (w, v + 8)" "holds (v + 8) ws s"
    by (simp_all add: holds_def pop64_def le_word_le_bytes take_bit_full)
qed

lemma push_room:
  "room b (8 * length vs) s \<Longrightarrow>
   \<exists>t. push_values vs (b + of_nat (8 * length vs)) s = Some (b, t) \<and> same_map s t \<and> holds b (rev vs) t
     \<and> (\<forall>x. x \<notin> places b (8 * length vs) s \<longrightarrow> mem t x = mem s x)"
proof (induction vs arbitrary: s)
  case Nil
  then show ?case
    by (simp add: same_map_refl room_def holds_def)
next
  case (Cons v vs)
  let ?n = "8 * length vs" and ?top = "b + of_nat (8 * length vs)"
  have top: "b + of_nat (8 * length (v # vs)) - 8 = ?top"
    by simp
  have "room ?top 8 s"
    using Cons.prems by (rule room_sub) simp
  then obtain s1 where s1: "vst ?top (le_bytes 8 v) s = Some s1" "same_map s s1"
      "vld ?top 8 s1 = Some (le_bytes 8 v)" "\<And>x. x \<notin> places ?top 8 s \<Longrightarrow> mem s1 x = mem s x"
    using vst_room [of ?top "le_bytes 8 v" s] by auto
  have "room (b + of_nat 0) ?n s"
    using Cons.prems by (rule room_sub) simp
  then have r: "room b ?n s1"
    using same_map_places(4) [OF s1(2)] by simp
  from Cons.IH [OF this] obtain t where t: "push_values vs ?top s1 = Some (b, t)" "same_map s1 t"
      "holds b (rev vs) t" "\<And>x. x \<notin> places b ?n s1 \<Longrightarrow> mem t x = mem s1 x"
    by blast
  have p: "places b ?n s1 = places b ?n s"
    by (rule same_map_places(2) [OF s1(2)])
  have "places (b + of_nat 0) ?n s \<inter> places ?top 8 s = {}"
    by (rule places_apart [OF Cons.prems]) simp_all
  then have apart: "places b ?n s \<inter> places ?top 8 s = {}"
    by simp
  have d: "on_data ?top 8 s1"
    using \<open>room ?top 8 s\<close> same_map_places(3) [OF s1(2)] by (simp add: room_def)
  have "vld ?top 8 t = vld ?top 8 s1"
    using d t(2)
  proof (rule vld_same)
    fix x
    assume "x \<in> places ?top 8 s1"
    then show "mem t x = mem s1 x"
      using apart t(4) p same_map_places(2) [OF s1(2)] by blast
  qed
  then have "holds ?top [v] t"
    using s1(3) by (simp add: holds_def)
  then have "holds b (rev (v # vs)) t"
    using t(3) by (simp add: holds_append)
  moreover have "push_values (v # vs) (b + of_nat (8 * length (v # vs))) s = Some (b, t)"
    unfolding push_values.simps top s1(1) using t(1) by simp
  moreover have "mem t x = mem s x" if "x \<notin> places b (8 * length (v # vs)) s" for x
  proof -
    have "x \<notin> places b ?n s" "x \<notin> places ?top 8 s"
      using that places_sub [of 0 ?n "8 * length (v # vs)" b s]
        places_sub [of ?n 8 "8 * length (v # vs)" b s] by auto
    then show ?thesis
      using t(4) s1(4) p by simp
  qed
  ultimately show ?case
    using same_map_trans [OF s1(2) t(2)] by blast
qed

section \<open>Fresh pages\<close>

lemma place_frame:
  assumes "on_data v n s" and "x \<in> places v n s"
  obtains q d where "q \<in> used s" "data_page q s" "q < BITMAP_SIZE" "d < 4096" "x = frame q + of_nat d"
proof -
  obtain k where k: "k < n" "x = place s (v + of_nat k)"
    using assms(2) by (auto simp: places_def)
  then obtain q d f where "q \<in> used s" "data_page q s" "d < 4096" "tr s (v + of_nat k) = Some (frame q + of_nat d, f)"
    using assms(1) unfolding on_data_def by blast
  then show ?thesis
    using that k(2) by (simp add: place_def data_page_def)
qed

lemma in_frame_inject:
  assumes "q < BITMAP_SIZE" "p < BITMAP_SIZE" "d < 4096" "e < 4096"
    and "frame q + of_nat d = (frame p + of_nat e :: u64)"
  shows "q = p"
proof -
  have "q * 4096 + d = p * 4096 + e"
    using assms unat_in_page [of q d] unat_in_page [of p e] by simp
  then show ?thesis
    using assms(3,4) by (cases q p rule: linorder_cases) linarith+
qed

lemma frame_split: "frame p + of_nat k = frame (p + k div 4096) + of_nat (k mod 4096)"
proof -
  have "of_nat k = (of_nat (k div 4096 * 4096 + k mod 4096) :: u64)"
    by simp
  also have "\<dots> = of_nat (k div 4096) * 4096 + of_nat (k mod 4096)"
    unfolding of_nat_add of_nat_mult by simp
  finally show ?thesis
    by (simp add: frame_def distrib_right add.assoc)
qed

lemma filled_room:
  assumes t: "tr t = filled v (frame p) (4096 * m) a f" and ok: "pager_ok t"
    and pages: "\<forall>q. p \<le> q \<and> q < p + m \<longrightarrow> q \<in> used t \<and> data_page q t"
    and v: "unat v + 4096 * m \<le> 2 ^ 64" and m: "p + m \<le> BITMAP_SIZE"
  shows "room v (4096 * m) t" and "places v (4096 * m) t \<subseteq> {frame q + of_nat d | q d. p \<le> q \<and> q < p + m \<and> d < 4096}"
proof -
  have tr: "tr t (v + of_nat k) = Some (frame p + of_nat k, a)" if k: "k < 4096 * m" for k
  proof -
    have "unat (v + of_nat k) = unat v + k"
      using k v by (subst unat_plus_less) (simp_all add: unat_of_nat_small)
    then show ?thesis
      using k by (simp add: t filled_def)
  qed
  have q: "p + k div 4096 < p + m" if "k < 4096 * m" for k
    using that by (simp add: less_mult_imp_div_less mult.commute)
  have "on_data v (4096 * m) t"
    unfolding on_data_def
  proof (intro allI impI)
    fix k
    assume k: "k < 4096 * m"
    show "\<exists>p d f. p \<in> used t \<and> data_page p t \<and> d < 4096 \<and> tr t (v + of_nat k) = Some (frame p + of_nat d, f)"
      using pages q [OF k] tr [OF k] frame_split [of p k]
      by (intro exI [of _ "p + k div 4096"] exI [of _ "k mod 4096"] exI [of _ a]) simp
  qed
  moreover have "inj_on (\<lambda>k. place t (v + of_nat k)) {..<4096 * m}"
  proof (rule inj_onI)
    fix i j
    assume ij: "i \<in> {..<4096 * m}" "j \<in> {..<4096 * m}" "place t (v + of_nat i) = place t (v + of_nat j)"
    then have e: "(of_nat i :: u64) = of_nat j"
      using tr [of i] tr [of j] by (simp add: place_def)
    have "4096 * m < 2 ^ 64"
      using m by (simp add: BITMAP_SIZE_def)
    then have "i < 2 ^ LENGTH(64)" "j < 2 ^ LENGTH(64)"
      using ij(1,2) by simp_all
    note u = unat_of_nat_small [OF this(1)] unat_of_nat_small [OF this(2)]
    show "i = j"
      using arg_cong [OF e, of unat] unfolding u .
  qed
  ultimately show "room v (4096 * m) t"
    using ok by (simp add: room_def)
  show "places v (4096 * m) t \<subseteq> {frame q + of_nat d | q d. p \<le> q \<and> q < p + m \<and> d < 4096}"
  proof
    fix x
    assume "x \<in> places v (4096 * m) t"
    then obtain k where k: "k < 4096 * m" "x = frame p + of_nat k"
      by (auto simp: places_def place_def tr)
    then show "x \<in> {frame q + of_nat d | q d. p \<le> q \<and> q < p + m \<and> d < 4096}"
      using q [OF k(1)] k(2) [unfolded frame_split [of p k]]
      by (intro CollectI exI [of _ "p + k div 4096"] exI [of _ "k mod 4096"]) simp
  qed
qed

text \<open>What an allocation leaves of the memory that was in use.\<close>

definition older :: "'a pager_scheme \<Rightarrow> 'a pager_scheme \<Rightarrow> bool" where
  "older s t \<longleftrightarrow> (\<forall>v. tr s v \<noteq> None \<longrightarrow> tr t v = tr s v) \<and> kept s t"

lemma older_trans: "older s t \<Longrightarrow> older t u \<Longrightarrow> older s u"
  unfolding older_def by (metis kept_trans)

lemma older_room:
  assumes "older s t" and "room v n s" and "pager_ok t"
  shows "room v n t" and "places v n t = places v n s" and "vld v n t = vld v n s"
proof -
  have d: "on_data v n s"
    using assms(2) by (simp add: room_def)
  have tr: "tr t (v + of_nat k) = tr s (v + of_nat k)" if "k < n" for k
    using assms(1) d that unfolding older_def on_data_def by (metis option.distinct(1))
  have d': "on_data v n t"
    unfolding on_data_def
  proof (intro allI impI)
    fix k
    assume k: "k < n"
    from d [unfolded on_data_def, rule_format, OF k] obtain p e f where
      p: "p \<in> used s" "data_page p s" "e < 4096" "tr s (v + of_nat k) = Some (frame p + of_nat e, f)"
      by blast
    have "p \<in> used t" "data_page p t"
      using keptD [of s t p] assms(1) p(1,2) by (simp_all add: older_def data_page_def)
    then show "\<exists>p d f. p \<in> used t \<and> data_page p t \<and> d < 4096 \<and> tr t (v + of_nat k) = Some (frame p + of_nat d, f)"
      using p tr [OF k] by auto
  qed
  have pl: "place t (v + of_nat k) = place s (v + of_nat k)" if "k < n" for k
    using tr [OF that] by (simp add: place_def)
  then have "inj_on (\<lambda>k. place t (v + of_nat k)) {..<n}"
    using assms(2) by (auto simp: room_def inj_on_def)
  then show "room v n t"
    using d' assms(3) by (simp add: room_def)
  show ps: "places v n t = places v n s"
    using pl by (auto simp: places_def)
  have "mem t x = mem s x" if "x \<in> places v n s" for x
    using place_frame [OF d that] keptD(3) [of s t] assms(1) unfolding older_def data_page_def by metis
  then have "map (\<lambda>k. mem t (place t (v + of_nat k))) [0..<n] = map (\<lambda>k. mem s (place s (v + of_nat k))) [0..<n]"
    using pl by (auto simp: places_def)
  then show "vld v n t = vld v n s"
    using vld_places [OF d] vld_places [OF d'] by simp
qed

text \<open>An allocation gives room that is apart from everything in use.\<close>

lemma alloc_room:
  assumes room: "kernel_room (m + k) s" and m: "m = pages_of n" "0 < m" and n: "unat n \<le> 2 ^ 32"
    and flags: "scast flags AND PAGE_HUGE = 0"
  shows "\<exists>p t. avmf_alloc n MALLOC_TYPE_KERNEL flags s = Some ((heap_kernel s, Some p), t)
    \<and> heap_kernel s \<noteq> 0 \<and> kernel_room k t \<and> unat (heap_kernel t) = unat (heap_kernel s) + 4096 * m
    \<and> pager_same s t \<and> pager_ok t \<and> older s t \<and> room (heap_kernel s) (4096 * m) t
    \<and> (\<forall>b l. room b l s \<longrightarrow> places b l t \<inter> places (heap_kernel s) (4096 * m) t = {})"
proof -
  from kernel_room_alloc [OF assms] obtain p t where
    t: "avmf_alloc n MALLOC_TYPE_KERNEL flags s = Some ((heap_kernel s, Some (frame p)), t)"
      "heap_kernel s \<noteq> 0" "0 < p" "p + m \<le> BITMAP_SIZE" "{p ..< p + m} \<inter> used s = {}"
      "kernel_room k t" "unat (heap_kernel t) = unat (heap_kernel s) + 4096 * m"
      "pager_same s t" "kept s t" "\<forall>q. p \<le> q \<and> q < p + m \<longrightarrow> q \<in> used t \<and> data_page q t"
      "tr t = filled (heap_kernel s) (frame p) (4096 * m) (attr (scast flags)) (tr s)"
    by (elim exE conjE)
  have ok: "pager_ok t"
    using t(6) by (simp add: kernel_room_def)
  have "unat (heap_kernel s) + 4096 * m \<le> 2 ^ 64"
    using t(7) unat_less_exp [of "heap_kernel t"] by simp
  note f = filled_room [OF t(11) ok t(10) this t(4)]
  have "range_free (heap_kernel s) (4096 * (m + k)) s"
    using room by (simp add: kernel_room_def)
  then have "tr t v = tr s v" if "tr s v \<noteq> None" for v
    using that by (auto simp: t(11) filled_def range_free_def)
  then have o: "older s t"
    using t(9) by (simp add: older_def)
  have "places b l t \<inter> places (heap_kernel s) (4096 * m) t = {}" if r: "room b l s" for b l
  proof -
    have d: "on_data b l s"
      using r by (simp add: room_def)
    have False if x: "x \<in> places b l s" "x \<in> places (heap_kernel s) (4096 * m) t" for x
    proof -
      obtain q d where q: "q \<in> used s" "q < BITMAP_SIZE" "d < 4096" "x = frame q + of_nat d"
        using place_frame [OF \<open>on_data b l s\<close> x(1)] by metis
      obtain q' d' where q': "p \<le> q'" "q' < p + m" "d' < 4096" "x = frame q' + of_nat d'"
        using f(2) x(2) by blast
      have "q = q'"
        using in_frame_inject [of q q' d d'] q q' t(4) by simp
      then show False
        using q(1) q'(1,2) t(5) by auto
    qed
    then show ?thesis
      using older_room(2) [OF o r ok] by auto
  qed
  then show ?thesis
    using t ok o f(1) by (intro exI [of _ "frame p"] exI [of _ t]) simp
qed

end
