(* ===== verification/Smp.thy ===== *)
theory Smp
  imports Stack Pcie Idt Acpi_Timer
begin

text \<open>
  Multiprocessing of smp.c: the local APIC, the start of the application processors, the threads of
  a core, and the tasks other cores queue for it. The structures of a core and of a thread are typed
  objects at the addresses \<open>avmf_alloc\<close> returned for them, and following a pointer to an unmapped
  page is a page fault (\<open>None\<close>); thread stacks are bytes of memory. The registers of the core that
  executes are the record \<open>cpu\<close>. The context switch is the one of switch_thread_context.asm.
\<close>

unbundle bit_operations_syntax

section \<open>Constants and structures\<close>

definition LAPIC_REG_ID :: u32 where "LAPIC_REG_ID = 0x0020"
definition LAPIC_REG_ICR_LOW :: u32 where "LAPIC_REG_ICR_LOW = 0x0300"
definition LAPIC_REG_ICR_HIGH :: u32 where "LAPIC_REG_ICR_HIGH = 0x0310"
definition LAPIC_TMR_INIT_CNT :: u32 where "LAPIC_TMR_INIT_CNT = 0x0380"
definition LAPIC_TMR_CUR_CNT :: u32 where "LAPIC_TMR_CUR_CNT = 0x0390"
definition LAPIC_TMR_DIV :: u32 where "LAPIC_TMR_DIV = 0x03E0"
definition LAPIC_LVT_TMR :: u32 where "LAPIC_LVT_TMR = 0x0320"

lemmas lapic_defs = LAPIC_REG_ID_def LAPIC_REG_ICR_LOW_def LAPIC_REG_ICR_HIGH_def LAPIC_TMR_INIT_CNT_def
  LAPIC_TMR_CUR_CNT_def LAPIC_TMR_DIV_def LAPIC_LVT_TMR_def

datatype thread_status =
    THREAD_STATUS_READY | THREAD_STATUS_RUNNING | THREAD_STATUS_BLOCKED | THREAD_STATUS_DEAD

datatype core_status = CORE_STATUS_READY | CORE_STATUS_RESERVED | CORE_STATUS_RUNNING

record thread_state =
  trsp :: u64
  tid :: u64
  stack_bottom :: u64
  tcontext :: u64
  tstatus :: thread_status
  tnext :: u64

record gdt_tss_descriptor =
  limit_low :: u16
  base_low :: u16
  base_mid :: u8
  access :: u8
  limit_high_flags :: u8
  base_high_mid :: u8
  base_high :: u32
  desc_reserved :: u32

record gdt_ptr =
  gdt_limit :: u16
  gdt_base :: u64

record tss_entry =
  rsp0 :: u64
  rsp1 :: u64
  rsp2 :: u64
  ists :: "u64 list"
  io_map_base :: u16

record core_state =
  core_self :: u64
  gdt :: "u64 list"
  tss :: tss_entry
  gdt_desc :: gdt_ptr
  lapic_id :: u32
  core_idx :: u32
  shutdown_core :: u8
  reserve_core :: u8
  cstatus :: core_status
  cur_thread :: u64
  idle_thread :: u64
  ready_list :: u64
  next_tid :: u64
  core_stack :: u64

text \<open>
  The sizes of the packed structures, and the offsets of the parts whose addresses the code takes.
  The two locks of a core are \<open>Queue_lock\<close> and \<open>Command_lock\<close> at its address.
\<close>

definition thread_layout :: layout where
  "thread_layout = [(''rsp'', 8), (''tid'', 8), (''stack_bottom'', 8), (''context'', 8), (''status'', 4),
     (''next'', 8)]"

definition tss_layout :: layout where
  "tss_layout = [(''reserved'', 4), (''rsp0'', 8), (''rsp1'', 8), (''rsp2'', 8), (''reserved2'', 8),
     (''ist1'', 8), (''ist2'', 8), (''ist3'', 8), (''ist4'', 8), (''ist5'', 8), (''ist6'', 8), (''ist7'', 8),
     (''reserved3'', 8), (''reserved4'', 4), (''io_map_base'', 2)]"

definition core_layout :: layout where
  "core_layout = [(''self'', 8), (''gdt'', 56), (''tss'', sizeof tss_layout), (''gdt_desc'', 10),
     (''lapic_id'', 4), (''core_idx'', 4), (''shutdown_core'', 1), (''reserve_core'', 1), (''status'', 4),
     (''cur_thread'', 8), (''idle_thread'', 8), (''ready_list'', 8), (''next_tid'', 8), (''queue_lock'', 4),
     (''command_lock'', 4), (''stack'', 8)]"

lemma smp_layouts [simp]:
  "sizeof thread_layout = 44" "sizeof tss_layout = 106" "sizeof core_layout = 242"
  "fld p core_layout ''gdt'' = p + 8" "fld p core_layout ''tss'' = p + 64"
  by (simp_all add: thread_layout_def tss_layout_def core_layout_def sizeof_def fld_def)

section \<open>State\<close>

text \<open>The registers of the executing core that the code uses.\<close>

record cpu =
  gs_base :: u64
  gdtr :: gdt_ptr
  task_register :: u16
  cpu_rbp :: u64
  cpu_rbx :: u64
  cpu_r12 :: u64
  cpu_r13 :: u64
  cpu_r14 :: u64
  cpu_r15 :: u64
  cpu_rsp :: u64
  cpu_rip :: u64

text \<open>
  The static variables of smp.c and those of the components it calls, on top of the memory
  manager's state.
\<close>

record smp = pager +
  acpi_st :: acpi_state
  idt_st :: idt_state
  ftimer_st :: ftimer_state
  core_at :: "u64 \<Rightarrow> core_state"
  thread_at :: "u64 \<Rightarrow> thread_state"
  cores :: "u64 list"
  lapic_base_virt :: u64
  lapic_ticks_per_ms :: u32
  ap_boot_flag :: u8
  bsp_core_idx :: u32
  this_cpu :: cpu

text \<open>The addresses the linker gives to the trampoline and to the entry point of a core.\<close>

record smp_image =
  smp_trampoline_start :: u64
  smp_trampoline_end :: u64
  ap_kernel_entry_addr :: u64

definition with_acpi :: "(acpi_state \<times> 'a smp_scheme, 'r) op \<Rightarrow> ('a smp_scheme, 'r) op" where
  "with_acpi f s = do { (r, (a, s)) \<leftarrow> f (acpi_st s, s); Some (r, s\<lparr>acpi_st := a\<rparr>) }"

definition with_idt :: "(idt_state \<times> 'a smp_scheme, 'r) op \<Rightarrow> ('a smp_scheme, 'r) op" where
  "with_idt f s = do { (r, (i, s)) \<leftarrow> f (idt_st s, s); Some (r, s\<lparr>idt_st := i\<rparr>) }"

definition delay :: "device \<Rightarrow> u32 \<Rightarrow> ('a smp_scheme, unit) op" where
  "delay dev ms s = do { (r, (f, s)) \<leftarrow> fdelay dev ms (ftimer_st s, s); Some (r, s\<lparr>ftimer_st := f\<rparr>) }"

text \<open>Access through a pointer.\<close>

definition core_of :: "u64 \<Rightarrow> 'a smp_scheme \<Rightarrow> core_state option" where
  "core_of p s = (if tr s p = None then None else Some (core_at s p))"

definition thread_of :: "u64 \<Rightarrow> 'a smp_scheme \<Rightarrow> thread_state option" where
  "thread_of p s = (if tr s p = None then None else Some (thread_at s p))"

definition edit_core :: "u64 \<Rightarrow> (core_state \<Rightarrow> core_state) \<Rightarrow> 'a smp_scheme \<Rightarrow> 'a smp_scheme option" where
  "edit_core p f s = (if tr s p = None then None else Some (s\<lparr>core_at := (core_at s)(p := f (core_at s p))\<rparr>))"

definition edit_thread :: "u64 \<Rightarrow> (thread_state \<Rightarrow> thread_state) \<Rightarrow> 'a smp_scheme \<Rightarrow> 'a smp_scheme option" where
  "edit_thread p f s = (if tr s p = None then None else Some (s\<lparr>thread_at := (thread_at s)(p := f (thread_at s p))\<rparr>))"

section \<open>The local APIC\<close>

definition lapic_read :: "device \<Rightarrow> u32 \<Rightarrow> ('a smp_scheme, u32) op" where
  "lapic_read dev reg s = mmio_read dev (lapic_base_virt s + ucast reg) s"

definition lapic_write :: "device \<Rightarrow> u32 \<Rightarrow> u32 \<Rightarrow> ('a smp_scheme, unit) op" where
  "lapic_write dev reg value s = do {
     (_, s) \<leftarrow> mmio_write (lapic_base_virt s + ucast reg) value s;
     (_, s) \<leftarrow> lapic_read dev reg s;
     Some ((), s) }"

definition lapic_timer_calibrate :: "device \<Rightarrow> ('a smp_scheme, unit) op" where
  "lapic_timer_calibrate dev s = do {
     (_, s) \<leftarrow> lapic_write dev LAPIC_TMR_DIV 0x3 s;
     (_, s) \<leftarrow> lapic_write dev LAPIC_TMR_INIT_CNT 0xFFFFFFFF s;
     (_, s) \<leftarrow> delay dev 10 s;
     (_, s) \<leftarrow> lapic_write dev LAPIC_LVT_TMR 0x10000 s;
     (v, s) \<leftarrow> lapic_read dev LAPIC_TMR_CUR_CNT s;
     let ticks_passed = 0xFFFFFFFF - v;
     let s = s\<lparr>lapic_ticks_per_ms := ticks_passed div 10\<rparr>;
     Some ((), diag ''[SMP : LAPIC] Calibrated: %d ticks/ms'' [Num (ucast (ticks_passed div 10))] s) }"

definition lapic_timer_start :: "device \<Rightarrow> u32 \<Rightarrow> ('a smp_scheme, unit) op" where
  "lapic_timer_start dev ms s = do {
     (_, s) \<leftarrow> lapic_write dev LAPIC_TMR_DIV 0x3 s;
     (_, s) \<leftarrow> lapic_write dev LAPIC_LVT_TMR (0x30 OR push_bit 17 1) s;
     lapic_write dev LAPIC_TMR_INIT_CNT (ms * lapic_ticks_per_ms s) s }"

definition lapic_init :: "device \<Rightarrow> u64 \<Rightarrow> ('a smp_scheme, unit) op" where
  "lapic_init dev phys s = do {
     let s = s\<lparr>lapic_base_virt := phys + AOS_DIRECT_MAP_BASE\<rparr>;
     (_, s) \<leftarrow> lapic_write dev 0x80 0 s;
     (_, s) \<leftarrow> lapic_write dev 0xF0 0x1FF s;
     lapic_timer_calibrate dev s }"

definition get_lapic_id :: "device \<Rightarrow> ('a smp_scheme, u8) op" where
  "get_lapic_id dev s = do {
     (v, s) \<leftarrow> lapic_read dev LAPIC_REG_ID s;
     Some (ucast (drop_bit 24 v), s) }"

text \<open>\<open>None\<close>: the delivery bit never clears.\<close>

partial_function (option) icr_wait :: "device \<Rightarrow> 'a smp_scheme \<Rightarrow> (unit \<times> 'a smp_scheme) option" where
  "icr_wait dev s =
     Option.bind (lapic_read dev 0x300 s) (\<lambda>(v, s).
       if v AND push_bit 12 1 \<noteq> 0 then icr_wait dev s else Some ((), s))"

definition send_ipi :: "device \<Rightarrow> u8 \<Rightarrow> u8 \<Rightarrow> ('a smp_scheme, unit) op" where
  "send_ipi dev target_apic_id vector s = do {
     (_, s) \<leftarrow> lapic_write dev 0x310 (push_bit 24 (ucast target_apic_id)) s;
     (_, s) \<leftarrow> lapic_write dev 0x300 0x0000C500 s;
     (_, s) \<leftarrow> delay dev 10 s;
     (_, s) \<leftarrow> icr_wait dev s;
     (_, s) \<leftarrow> lapic_write dev 0x310 (push_bit 24 (ucast target_apic_id)) s;
     lapic_write dev 0x300 (0x0000C600 OR ucast vector) s }"

definition send_wakeup_ipi :: "device \<Rightarrow> u8 \<Rightarrow> u8 \<Rightarrow> ('a smp_scheme, unit) op" where
  "send_wakeup_ipi dev target_apic_id vector s = do {
     (_, s) \<leftarrow> lapic_write dev 0x310 (push_bit 24 (ucast target_apic_id)) s;
     lapic_write dev 0x300 (0x00004000 OR ucast vector) s }"

definition smp_ipi_handler :: "device \<Rightarrow> ('a smp_scheme, unit) op" where
  "smp_ipi_handler dev = lapic_write dev 0xB0 0"

definition smp_timer_handler :: "device \<Rightarrow> ('a smp_scheme, unit) op" where
  "smp_timer_handler dev = lapic_write dev 0xB0 0"

section \<open>Threads\<close>

definition kernel_flags :: u32 where
  "kernel_flags = ucast (PAGE_PRESENT OR PAGE_RW)"

definition thread_stack_size :: u64 where "thread_stack_size = 16384"

definition create_thread :: "u64 \<Rightarrow> u64 \<Rightarrow> ('a smp_scheme, u64) op" where
  "create_thread entry new_tid s = do {
     ((thread, _), s) \<leftarrow> avmf_alloc (of_nat (sizeof thread_layout)) MALLOC_TYPE_KERNEL kernel_flags s;
     if thread = 0 then Some (0, s)
     else do {
       ((stack_raw, _), s) \<leftarrow> avmf_alloc thread_stack_size MALLOC_TYPE_KERNEL kernel_flags s;
       if stack_raw = 0 then Some (0, s)
       else do {
         (stack, s) \<leftarrow> push_values [entry, 0, 0, 0, 0, 0, 0] (stack_raw + thread_stack_size) s;
         s \<leftarrow> edit_thread thread (\<lambda>t. t\<lparr>trsp := stack, tid := new_tid, stack_bottom := stack_raw,
           tstatus := THREAD_STATUS_READY\<rparr>) s;
         Some (thread, s) } } }"

text \<open>
  The context switch: the call pushes the return address, the code pushes six registers, exchanges
  the stacks and takes the same from the other stack.
\<close>

definition saved :: "cpu \<Rightarrow> u64 list" where
  "saved c = [cpu_rip c, cpu_rbp c, cpu_rbx c, cpu_r12 c, cpu_r13 c, cpu_r14 c, cpu_r15 c]"

definition thread_context_switch :: "u64 \<Rightarrow> u64 \<Rightarrow> ('a smp_scheme, unit) op" where
  "thread_context_switch old new s = do {
     (stack, s) \<leftarrow> push_values (saved (this_cpu s)) (cpu_rsp (this_cpu s)) s;
     s \<leftarrow> edit_thread old (\<lambda>t. t\<lparr>trsp := stack\<rparr>) s;
     n \<leftarrow> thread_of new s;
     (r15, stack) \<leftarrow> pop64 (trsp n) s;
     (r14, stack) \<leftarrow> pop64 stack s;
     (r13, stack) \<leftarrow> pop64 stack s;
     (r12, stack) \<leftarrow> pop64 stack s;
     (rbx, stack) \<leftarrow> pop64 stack s;
     (rbp, stack) \<leftarrow> pop64 stack s;
     (rip, stack) \<leftarrow> pop64 stack s;
     Some ((), s\<lparr>this_cpu := (this_cpu s)\<lparr>cpu_rbp := rbp, cpu_rbx := rbx, cpu_r12 := r12, cpu_r13 := r13,
       cpu_r14 := r14, cpu_r15 := r15, cpu_rsp := stack, cpu_rip := rip\<rparr>\<rparr>) }"

text \<open>\<open>mov %gs:0\<close> reads the first field of the structure of this core.\<close>

definition smp_yield :: "('a smp_scheme, unit) op" where
  "smp_yield s = do {
     g \<leftarrow> core_of (gs_base (this_cpu s)) s;
     let core = core_self g;
     c \<leftarrow> core_of core s;
     let cur = cur_thread c;
     let idle = idle_thread c;
     if cur = idle then Some ((), s)
     else do {
       s \<leftarrow> edit_thread cur (\<lambda>t. t\<lparr>tstatus := THREAD_STATUS_READY\<rparr>) s;
       s \<leftarrow> spin_lock (Queue_lock (unat core)) s;
       c \<leftarrow> core_of core s;
       s \<leftarrow> edit_thread cur (\<lambda>t. t\<lparr>tnext := ready_list c\<rparr>) s;
       s \<leftarrow> edit_core core (\<lambda>c. c\<lparr>ready_list := cur\<rparr>) s;
       let s = spin_unlock (Queue_lock (unat core)) s;
       s \<leftarrow> edit_core core (\<lambda>c. c\<lparr>cur_thread := idle\<rparr>) s;
       thread_context_switch cur idle s } }"

section \<open>Tasks\<close>

text \<open>What both functions that queue a task do with the core; a missing thread is a page fault.\<close>

definition queue_task :: "u64 \<Rightarrow> u64 \<Rightarrow> ('a smp_scheme, unit) op" where
  "queue_task target entry s = do {
     c \<leftarrow> core_of target s;
     s \<leftarrow> edit_core target (\<lambda>c. c\<lparr>next_tid := next_tid c + 1\<rparr>) s;
     (new_thread, s) \<leftarrow> create_thread entry (next_tid c) s;
     s \<leftarrow> spin_lock (Queue_lock (unat target)) s;
     c \<leftarrow> core_of target s;
     s \<leftarrow> edit_thread new_thread (\<lambda>t. t\<lparr>tnext := ready_list c\<rparr>) s;
     s \<leftarrow> edit_core target (\<lambda>c. c\<lparr>ready_list := new_thread\<rparr>) s;
     Some ((), spin_unlock (Queue_lock (unat target)) s) }"

text \<open>The test both functions start with.\<close>

definition no_core :: "u32 \<Rightarrow> 'a smp_scheme \<Rightarrow> bool" where
  "no_core n s \<longleftrightarrow> 255 < n \<or> cores s ! unat n = 0"

definition smp_push_task :: "device \<Rightarrow> u32 \<Rightarrow> u64 \<Rightarrow> ('a smp_scheme, unit) op" where
  "smp_push_task dev n entry s =
     (if no_core n s then Some ((), s)
      else do {
        let target = cores s ! unat n;
        (_, s) \<leftarrow> queue_task target entry s;
        let s = diag ''[SMP] Queueing new task for core %d'' [Num (ucast n)] s;
        c \<leftarrow> core_of target s;
        if cstatus c \<noteq> CORE_STATUS_RUNNING
        then send_wakeup_ipi dev (ucast (lapic_id c)) 0x40
               (diag ''[SMP] Sending Awake command for core %d'' [Num (ucast n)] s)
        else Some ((), s) })"

definition smp_push_task_bsp :: "device \<Rightarrow> u64 \<Rightarrow> ('a smp_scheme, unit) op" where
  "smp_push_task_bsp dev entry s =
     (let n = bsp_core_idx s in
      if no_core n s then Some ((), s)
      else do {
        let target = cores s ! unat n;
        (_, s) \<leftarrow> queue_task target entry s;
        c \<leftarrow> core_of target s;
        if cstatus c \<noteq> CORE_STATUS_RUNNING then send_wakeup_ipi dev (ucast (lapic_id c)) 0x40 s
        else Some ((), s) })"

text \<open>The loop over the cores; the result is what is stored through \<open>out\<close>, if anything.\<close>

fun first_free :: "u64 list \<Rightarrow> 'a smp_scheme \<Rightarrow> u32 option option" where
  "first_free [] s = Some None"
| "first_free (p # ps) s =
     (if p = 0 then first_free ps s
      else do {
        c \<leftarrow> core_of p s;
        if cstatus c = CORE_STATUS_READY then Some (Some (core_idx c)) else first_free ps s })"

definition smp_get_first_free_core :: "('a smp_scheme, u32 option) op" where
  "smp_get_first_free_core s = map_option (\<lambda>r. (r, s)) (first_free (cores s) s)"

definition smp_get_core_status :: "u32 \<Rightarrow> ('a smp_scheme, core_status option) op" where
  "smp_get_core_status n s =
     (if no_core n s then Some (None, s)
      else map_option (\<lambda>c. (Some (cstatus c), s)) (core_of (cores s ! unat n) s))"

text \<open>Both functions on the reservation flag, with the value they store.\<close>

definition set_reserve :: "device \<Rightarrow> u8 \<Rightarrow> u32 \<Rightarrow> ('a smp_scheme, unit) op" where
  "set_reserve dev r n s =
     (if no_core n s then Some ((), s)
      else let target = cores s ! unat n in
        locked (Command_lock (unat target)) (\<lambda>s. do {
          s \<leftarrow> edit_core target (\<lambda>c. c\<lparr>reserve_core := r\<rparr>) s;
          c \<leftarrow> core_of target s;
          if cstatus c \<noteq> CORE_STATUS_RUNNING
          then send_wakeup_ipi dev (ucast (lapic_id c)) 0x40
                 (diag ''[SMP] Sending Awake command for core %d'' [Num (ucast n)] s)
          else Some ((), s) }) s)"

definition smp_reserve_core :: "device \<Rightarrow> u32 \<Rightarrow> ('a smp_scheme, unit) op" where
  "smp_reserve_core dev = set_reserve dev 1"

definition smp_unreserve_core :: "device \<Rightarrow> u32 \<Rightarrow> ('a smp_scheme, unit) op" where
  "smp_unreserve_core dev = set_reserve dev 0"


section \<open>An application processor\<close>

text \<open>The two words a task state segment descriptor takes in the table.\<close>

definition descriptor_words :: "gdt_tss_descriptor \<Rightarrow> u64 list" where
  "descriptor_words d =
     [ucast (limit_low d) OR push_bit 16 (ucast (base_low d)) OR push_bit 32 (ucast (base_mid d))
        OR push_bit 40 (ucast (access d)) OR push_bit 48 (ucast (limit_high_flags d))
        OR push_bit 56 (ucast (base_high_mid d)),
      ucast (base_high d) OR push_bit 32 (ucast (desc_reserved d))]"

definition tss_descriptor :: "u64 \<Rightarrow> gdt_tss_descriptor" where
  "tss_descriptor base = \<lparr>limit_low = of_nat (sizeof tss_layout) - 1, base_low = ucast (base AND 0xFFFF),
     base_mid = ucast (drop_bit 16 base AND 0xFF), access = 0x89, limit_high_flags = 0,
     base_high_mid = ucast (drop_bit 24 base AND 0xFF), base_high = ucast (drop_bit 32 base AND 0xFFFFFFFF),
     desc_reserved = 0\<rparr>"

text \<open>The segments of a core, and the descriptor of its task state segment.\<close>

definition set_segments :: "core_state \<Rightarrow> core_state" where
  "set_segments c = c\<lparr>gdt := [0x0000000000000000, 0x00AF9A000000FFFF, 0x00AF92000000FFFF] @ drop 3 (gdt c)\<rparr>"

definition set_gdt :: "u64 \<Rightarrow> core_state \<Rightarrow> core_state" where
  "set_gdt core c = c\<lparr>gdt := take 3 (gdt c) @ descriptor_words (tss_descriptor (fld core core_layout ''tss''))
     @ drop 5 (gdt c),
     gdt_desc := \<lparr>gdt_limit = 8 * 5 - 1, gdt_base = fld core core_layout ''gdt''\<rparr>\<rparr>"

definition set_ist :: "nat \<Rightarrow> u64 \<Rightarrow> core_state \<Rightarrow> core_state" where
  "set_ist n v c = c\<lparr>tss := (tss c)\<lparr>ists := (ists (tss c))[n - 1 := v]\<rparr>\<rparr>"

definition ap_init_core_state :: "u64 \<Rightarrow> ('a smp_scheme, unit) op" where
  "ap_init_core_state state s = Some ((), s\<lparr>this_cpu := (this_cpu s)\<lparr>gs_base := state\<rparr>\<rparr>)"

text \<open>
  \<open>ap_kernel_entry\<close> up to its loop. The result is the core and the emergency stack, which the loop
  uses. The call of \<open>memset\<close> with 0 changes nothing, as in the heap.
\<close>

definition ap_start :: "device \<Rightarrow> ('a smp_scheme, u64 \<times> u64) op" where
  "ap_start dev s = do {
     (apic, s) \<leftarrow> get_lapic_id dev s;
     kernel_stack \<leftarrow> vrd64 (AOS_DIRECT_MAP_BASE + 0x510) s;
     core \<leftarrow> vrd64 (AOS_DIRECT_MAP_BASE + 0x520) s;
     s \<leftarrow> edit_core core set_segments s;
     s \<leftarrow> memset (fld core core_layout ''tss'') 0 (sizeof tss_layout) s;
     ((emergency_stack, _), s) \<leftarrow> avmf_alloc 0x1000 MALLOC_TYPE_KERNEL kernel_flags s;
     ((emergency_memory_stack, _), s) \<leftarrow> avmf_alloc 0x1000 MALLOC_TYPE_KERNEL kernel_flags s;
     s \<leftarrow> (if emergency_stack \<noteq> 0 then edit_core core (set_ist 1 (emergency_stack + 0x1000)) s
           else Some (diag ''[CORE %d] Failed to allocate Emergency Stack!'' [Num (ucast apic)] s));
     s \<leftarrow> (if emergency_memory_stack \<noteq> 0 then edit_core core (set_ist 2 (emergency_memory_stack + 0x1000)) s
           else Some (diag ''[CORE %d] Failed to allocate Emergency Memory Stack!'' [Num (ucast apic)] s));
     s \<leftarrow> edit_core core (\<lambda>c. c\<lparr>tss := (tss c)\<lparr>rsp0 := kernel_stack, io_map_base := of_nat (sizeof tss_layout)\<rparr>\<rparr>) s;
     s \<leftarrow> edit_core core (set_gdt core) s;
     c \<leftarrow> core_of core s;
     let s = s\<lparr>this_cpu := (this_cpu s)\<lparr>gdtr := gdt_desc c, task_register := 0x18\<rparr>\<rparr>;
     (_, s) \<leftarrow> lapic_write dev 0xF0 0x1FF s;
     (_, s) \<leftarrow> lapic_write dev 0x80 0 s;
     (_, s) \<leftarrow> with_idt idt_load_local s;
     (_, s) \<leftarrow> ap_init_core_state core s;
     let s = diag ''[SMP] Core %d online!'' [Num (ucast apic)] s;
     s \<leftarrow> edit_core core (\<lambda>c. c\<lparr>cstatus := CORE_STATUS_RUNNING\<rparr>) s;
     s \<leftarrow> edit_core core (\<lambda>c. c\<lparr>cur_thread := idle_thread c\<rparr>) s;
     (_, s) \<leftarrow> lapic_timer_start dev 10 s;
     Some ((core, emergency_stack), s\<lparr>ap_boot_flag := 1\<rparr>) }"

text \<open>
  One round of the loop: the core goes off, switches to the first task, or waits for an interrupt;
  after the wait \<open>ap_wake\<close> ends the round.
\<close>

datatype ap_outcome = Core_off | Task_run | Core_waits

definition ap_round :: "device \<Rightarrow> u64 \<Rightarrow> u64 \<Rightarrow> ('a smp_scheme, ap_outcome) op" where
  "ap_round dev core emergency_stack s = do {
     let s = cli s;
     c \<leftarrow> core_of core s;
     if shutdown_core c = 1 then do {
       (_, s) \<leftarrow> avmf_free emergency_stack s;
       Some (Core_off, event Hlt (cli s)) }
     else if ready_list c \<noteq> 0 then do {
       let s = sti s;
       s \<leftarrow> spin_lock (Queue_lock (unat core)) s;
       c \<leftarrow> core_of core s;
       let new = ready_list c;
       n \<leftarrow> thread_of new s;
       s \<leftarrow> edit_core core (\<lambda>c. c\<lparr>ready_list := tnext n\<rparr>) s;
       let s = spin_unlock (Queue_lock (unat core)) s;
       let prev = cur_thread c;
       s \<leftarrow> edit_core core (\<lambda>c. c\<lparr>cur_thread := new\<rparr>) s;
       s \<leftarrow> edit_thread new (\<lambda>t. t\<lparr>tstatus := THREAD_STATUS_RUNNING\<rparr>) s;
       let s = diag ''[SMP : CORE %d] Found Task!'' [Num (ucast (core_idx c))] s;
       (_, s) \<leftarrow> thread_context_switch prev new s;
       Some (Task_run, s) }
     else do {
       s \<leftarrow> edit_core core (\<lambda>c. c\<lparr>cstatus := if reserve_core c \<noteq> 0 then CORE_STATUS_RESERVED
         else CORE_STATUS_READY\<rparr>) s;
       Some (Core_waits, event Hlt (sti s)) } }"

definition ap_wake :: "u64 \<Rightarrow> ('a smp_scheme, unit) op" where
  "ap_wake core s = map_option (\<lambda>s. ((), s)) (edit_core core (\<lambda>c. c\<lparr>cstatus := CORE_STATUS_RUNNING\<rparr>) s)"

section \<open>Starting and stopping the cores\<close>

text \<open>The table register, from the last time it was loaded.\<close>

fun cr3 :: "io_event list \<Rightarrow> u64" where
  "cr3 [] = 0"
| "cr3 (LoadCr3 p # h) = p"
| "cr3 (_ # h) = cr3 h"

text \<open>
  The body of the loop for one processor. What the other processor does while this one waits for it
  is a parameter: \<open>aps 0\<close> after the start-up interrupt, \<open>aps 1\<close> during the loop that polls the flag
  at most 0xFFFFFF times, which itself changes nothing.
\<close>

definition fresh_core :: "u64 \<Rightarrow> u8 \<Rightarrow> nat \<Rightarrow> u64 \<Rightarrow> u64 \<Rightarrow> core_state \<Rightarrow> core_state" where
  "fresh_core p apic i idle stack c = c\<lparr>core_self := p, lapic_id := ucast apic, core_idx := of_nat i, idle_thread := idle,
     ready_list := 0, core_stack := stack + 16384, cstatus := CORE_STATUS_READY, next_tid := 0, shutdown_core := 0\<rparr>"

definition boot_core ::
  "device \<Rightarrow> smp_image \<Rightarrow> (nat \<Rightarrow> u8 \<Rightarrow> ('a smp_scheme, unit) op) \<Rightarrow> u64 \<Rightarrow> u8 \<Rightarrow> u8 list \<Rightarrow> nat \<Rightarrow> ('a smp_scheme, unit) op" where
  "boot_core dev img aps current_cr3 bsp_apic_id ids i s =
     (if cores s ! i \<noteq> 0
      then Some ((), diag ''[SMP] Warning: Core %d already registered, skipping!'' [Num (of_nat i)] s)
      else if ids ! i = bsp_apic_id then Some ((), s\<lparr>bsp_core_idx := of_nat i\<rparr>)
      else do {
        let apic = ids ! i;
        s \<leftarrow> spin_lock Boot_lock s;
        let s = s\<lparr>ap_boot_flag := 0\<rparr>;
        ((ap_stack, _), s) \<leftarrow> avmf_alloc 16384 MALLOC_TYPE_KERNEL kernel_flags s;
        if ap_stack = 0
        then Some ((), spin_unlock Boot_lock
          (diag ''[SMP] Error: Could not allocate stack for core %lld'' [Num (ucast apic)] s))
        else do {
          ((ap_state, _), s) \<leftarrow> avmf_alloc (of_nat (sizeof core_layout)) MALLOC_TYPE_KERNEL kernel_flags s;
          if ap_state = 0
          then Some ((), spin_unlock Boot_lock
            (diag ''[SMP] Error: Could not allocate state structure for core %lld'' [Num (ucast apic)] s))
          else do {
            ((idle, _), s) \<leftarrow> avmf_alloc (of_nat (sizeof thread_layout)) MALLOC_TYPE_KERNEL kernel_flags s;
            if idle = 0
            then Some ((), spin_unlock Boot_lock
              (diag ''[SMP] Error: Could not allocate idle thread state structure for core %lld'' [Num (ucast apic)] s))
            else do {
              s \<leftarrow> edit_core ap_state (fresh_core ap_state apic i idle ap_stack) s;
              s \<leftarrow> edit_thread idle (\<lambda>t. t\<lparr>tid := 0, tstatus := THREAD_STATUS_RUNNING\<rparr>) s;
              let s = spin_unlock (Queue_lock (unat ap_state)) s;
              let s = spin_unlock (Command_lock (unat ap_state)) s;
              s \<leftarrow> memcpy (AOS_DIRECT_MAP_BASE + 0x8000) (smp_trampoline_start img)
                    (unat (smp_trampoline_end img - smp_trampoline_start img)) s;
              s \<leftarrow> vst (AOS_DIRECT_MAP_BASE + 0x500) (le_bytes 8 current_cr3) s;
              s \<leftarrow> vst (AOS_DIRECT_MAP_BASE + 0x510) (le_bytes 8 (ap_stack + 16384)) s;
              s \<leftarrow> vst (AOS_DIRECT_MAP_BASE + 0x518) (le_bytes 8 (ap_kernel_entry_addr img)) s;
              s \<leftarrow> vst (AOS_DIRECT_MAP_BASE + 0x520) (le_bytes 8 ap_state) s;
              let s = s\<lparr>cores := (cores s)[i := ap_state]\<rparr>;
              let s = diag ''[SMP] Sending SIPI to APIC ID %lld'' [Num (ucast apic)] s;
              (_, s) \<leftarrow> send_ipi dev apic 0x08 s;
              (_, s) \<leftarrow> delay dev 200 s;
              (_, s) \<leftarrow> aps 0 apic s;
              (_, s) \<leftarrow> (if ap_boot_flag s = 0
                 then do { (_, s) \<leftarrow> send_wakeup_ipi dev apic 0x08 s; aps 1 apic s }
                 else Some ((), s));
              let s = (if ap_boot_flag s = 0
                 then diag ''[SMP] Error: Core %lld failed to check in!'' [Num (ucast apic)] s
                 else diag ''[SMP] Core %lld checked in successfully.'' [Num (ucast apic)] s);
              Some ((), spin_unlock Boot_lock s) } } } })"

definition smp_init ::
  "device \<Rightarrow> smp_image \<Rightarrow> (nat \<Rightarrow> u8 \<Rightarrow> ('a smp_scheme, unit) op) \<Rightarrow> ('a smp_scheme, unit) op" where
  "smp_init dev img aps s = do {
     ((ids, core_count), s) \<leftarrow> with_acpi acpi_get_apic_info s;
     let s = diag ''[SMP] Preparing to wake %lld core...'' [Num (core_count - 1)] s;
     (phys, s) \<leftarrow> with_acpi acpi_get_lapic_base s;
     (_, s) \<leftarrow> lapic_init dev phys s;
     (bsp_apic_id, s) \<leftarrow> get_lapic_id dev s;
     (_, s) \<leftarrow> for_each (boot_core dev img aps (cr3 (io s)) bsp_apic_id ids)
        [0..<unat (ucast core_count :: u32)] s;
     ((bsp_state, _), s) \<leftarrow> avmf_alloc (of_nat (sizeof core_layout)) MALLOC_TYPE_KERNEL kernel_flags s;
     if bsp_state = 0 then Some ((), s)
     else do {
       s \<leftarrow> edit_core bsp_state (\<lambda>c. c\<lparr>core_self := bsp_state, lapic_id := ucast bsp_apic_id,
         core_idx := bsp_core_idx s, ready_list := 0, cstatus := CORE_STATUS_RUNNING, next_tid := 0\<rparr>) s;
       let s = spin_unlock (Queue_lock (unat bsp_state)) s;
       ((idle, _), s) \<leftarrow> avmf_alloc (of_nat (sizeof thread_layout)) MALLOC_TYPE_KERNEL kernel_flags s;
       s \<leftarrow> (if idle \<noteq> 0 then edit_thread idle (\<lambda>t. t\<lparr>tid := 0, tstatus := THREAD_STATUS_RUNNING\<rparr>) s
             else Some s);
       s \<leftarrow> edit_core bsp_state (\<lambda>c. c\<lparr>idle_thread := idle, cur_thread := idle\<rparr>) s;
       let s = s\<lparr>cores := (cores s)[unat (bsp_core_idx s) := bsp_state]\<rparr>;
       (_, s) \<leftarrow> lapic_timer_start dev 10 s;
       (_, s) \<leftarrow> ap_init_core_state bsp_state s;
       Some ((), sti s) } }"

text \<open>The two INIT commands that reset one core.\<close>

definition stop_core :: "device \<Rightarrow> u64 \<Rightarrow> ('a smp_scheme, unit) op" where
  "stop_core dev p s =
     (if p = 0 then Some ((), s)
      else do {
        s \<leftarrow> edit_core p (\<lambda>c. c\<lparr>shutdown_core := 1\<rparr>) s;
        c \<leftarrow> core_of p s;
        (_, s) \<leftarrow> lapic_write dev LAPIC_REG_ICR_HIGH (push_bit 24 (lapic_id c)) s;
        (_, s) \<leftarrow> lapic_write dev LAPIC_REG_ICR_LOW 0x00004500 s;
        (_, s) \<leftarrow> delay dev 10 s;
        (_, s) \<leftarrow> lapic_write dev LAPIC_REG_ICR_LOW 0x00004000 s;
        delay dev 10 s })"

definition smp_shutdown :: "device \<Rightarrow> ('a smp_scheme, unit) op" where
  "smp_shutdown dev s = for_each (\<lambda>i s. stop_core dev (cores s ! i) s) [0..<256] s"

end
