(* ===== verification/Smp_Threads.thy ===== *)
theory Smp_Threads
  imports Smp
begin

text \<open>
  Threads as register contexts: a thread that does not run is \<open>sleeping\<close> with a context when its
  saved stack pointer leads to the seven words the context switch restores. Over this view the
  switch, the queue of a core and the functions of smp.c that use them are exchanges of contexts.
\<close>

unbundle bit_operations_syntax

section \<open>Fields the memory does not depend on\<close>

lemma vld_view: "tr t = tr s \<Longrightarrow> mem t = mem s \<Longrightarrow> vld v n t = vld v n s"
  for s :: "'a pager_scheme" and t :: "'b pager_scheme"
  by (induction n arbitrary: v) (simp_all split: option.splits)

lemma tr_view: "mem t = mem s \<Longrightarrow> firmware_pml4 t = firmware_pml4 s \<Longrightarrow> tr t = tr s"
  by (rule ext) (simp add: tr_def root_def)

lemma smp_tr [simp]:
  "tr (s\<lparr>core_at := cs\<rparr>) = tr s"
  "used (s\<lparr>core_at := cs\<rparr>) = used s"
  "data_page p (s\<lparr>core_at := cs\<rparr>) = data_page p s"
  "tr (s\<lparr>thread_at := ts\<rparr>) = tr s"
  "used (s\<lparr>thread_at := ts\<rparr>) = used s"
  "data_page p (s\<lparr>thread_at := ts\<rparr>) = data_page p s"
  "tr (s\<lparr>this_cpu := c\<rparr>) = tr s"
  "used (s\<lparr>this_cpu := c\<rparr>) = used s"
  "data_page p (s\<lparr>this_cpu := c\<rparr>) = data_page p s"
  "tr (s\<lparr>io := h\<rparr>) = tr s"
  "used (s\<lparr>io := h\<rparr>) = used s"
  "data_page p (s\<lparr>io := h\<rparr>) = data_page p s"
  "tr (s\<lparr>klog := l\<rparr>) = tr s"
  "used (s\<lparr>klog := l\<rparr>) = used s"
  "data_page p (s\<lparr>klog := l\<rparr>) = data_page p s"
  "tr (s\<lparr>locks := ls\<rparr>) = tr s"
  "used (s\<lparr>locks := ls\<rparr>) = used s"
  "data_page p (s\<lparr>locks := ls\<rparr>) = data_page p s"
  "tr (s\<lparr>rflags := r\<rparr>) = tr s"
  "used (s\<lparr>rflags := r\<rparr>) = used s"
  "data_page p (s\<lparr>rflags := r\<rparr>) = data_page p s"
  "tr (s\<lparr>idt_st := i\<rparr>) = tr s"
  "used (s\<lparr>idt_st := i\<rparr>) = used s"
  "data_page p (s\<lparr>idt_st := i\<rparr>) = data_page p s"
  "tr (s\<lparr>ap_boot_flag := fl\<rparr>) = tr s"
  "used (s\<lparr>ap_boot_flag := fl\<rparr>) = used s"
  "data_page p (s\<lparr>ap_boot_flag := fl\<rparr>) = data_page p s"
  by (simp_all add: tr_def root_def data_page_def used_def fun_eq_iff)

lemma smp_pager_ok [simp]:
  "pager_ok (s\<lparr>core_at := cs\<rparr>) = pager_ok s"
  "pager_ok (s\<lparr>thread_at := ts\<rparr>) = pager_ok s"
  "pager_ok (s\<lparr>this_cpu := c\<rparr>) = pager_ok s"
  "pager_ok (s\<lparr>io := h\<rparr>) = pager_ok s"
  "pager_ok (s\<lparr>klog := l\<rparr>) = pager_ok s"
  "pager_ok (s\<lparr>locks := ls\<rparr>) = pager_ok s"
  "pager_ok (s\<lparr>rflags := r\<rparr>) = pager_ok s"
  "pager_ok (s\<lparr>idt_st := i\<rparr>) = pager_ok s"
  "pager_ok (s\<lparr>ap_boot_flag := fl\<rparr>) = pager_ok s"
  by (simp_all add: pager_ok_def phys_ok_def used_def root_def)

lemma smp_places [simp]:
  "place (s\<lparr>core_at := cs\<rparr>) = place s"
  "places v n (s\<lparr>core_at := cs\<rparr>) = places v n s"
  "on_data v n (s\<lparr>core_at := cs\<rparr>) = on_data v n s"
  "place (s\<lparr>thread_at := ts\<rparr>) = place s"
  "places v n (s\<lparr>thread_at := ts\<rparr>) = places v n s"
  "on_data v n (s\<lparr>thread_at := ts\<rparr>) = on_data v n s"
  "place (s\<lparr>this_cpu := c\<rparr>) = place s"
  "places v n (s\<lparr>this_cpu := c\<rparr>) = places v n s"
  "on_data v n (s\<lparr>this_cpu := c\<rparr>) = on_data v n s"
  "place (s\<lparr>io := h\<rparr>) = place s"
  "places v n (s\<lparr>io := h\<rparr>) = places v n s"
  "on_data v n (s\<lparr>io := h\<rparr>) = on_data v n s"
  "place (s\<lparr>klog := l\<rparr>) = place s"
  "places v n (s\<lparr>klog := l\<rparr>) = places v n s"
  "on_data v n (s\<lparr>klog := l\<rparr>) = on_data v n s"
  "place (s\<lparr>locks := ls\<rparr>) = place s"
  "places v n (s\<lparr>locks := ls\<rparr>) = places v n s"
  "on_data v n (s\<lparr>locks := ls\<rparr>) = on_data v n s"
  "place (s\<lparr>rflags := r\<rparr>) = place s"
  "places v n (s\<lparr>rflags := r\<rparr>) = places v n s"
  "on_data v n (s\<lparr>rflags := r\<rparr>) = on_data v n s"
  "place (s\<lparr>idt_st := i\<rparr>) = place s"
  "places v n (s\<lparr>idt_st := i\<rparr>) = places v n s"
  "on_data v n (s\<lparr>idt_st := i\<rparr>) = on_data v n s"
  "place (s\<lparr>ap_boot_flag := fl\<rparr>) = place s"
  "places v n (s\<lparr>ap_boot_flag := fl\<rparr>) = places v n s"
  "on_data v n (s\<lparr>ap_boot_flag := fl\<rparr>) = on_data v n s"
  by (simp_all add: place_def places_def on_data_def fun_eq_iff)

lemma smp_room [simp]:
  "room v n (s\<lparr>core_at := cs\<rparr>) = room v n s"
  "room v n (s\<lparr>thread_at := ts\<rparr>) = room v n s"
  "room v n (s\<lparr>this_cpu := c\<rparr>) = room v n s"
  "room v n (s\<lparr>io := h\<rparr>) = room v n s"
  "room v n (s\<lparr>klog := l\<rparr>) = room v n s"
  "room v n (s\<lparr>locks := ls\<rparr>) = room v n s"
  "room v n (s\<lparr>rflags := r\<rparr>) = room v n s"
  "room v n (s\<lparr>idt_st := i\<rparr>) = room v n s"
  "room v n (s\<lparr>ap_boot_flag := fl\<rparr>) = room v n s"
  by (simp_all add: room_def)

lemma smp_vld [simp]:
  "vld v n (s\<lparr>core_at := cs\<rparr>) = vld v n s"
  "vld v n (s\<lparr>thread_at := ts\<rparr>) = vld v n s"
  "vld v n (s\<lparr>this_cpu := c\<rparr>) = vld v n s"
  "vld v n (s\<lparr>io := h\<rparr>) = vld v n s"
  "vld v n (s\<lparr>klog := l\<rparr>) = vld v n s"
  "vld v n (s\<lparr>locks := ls\<rparr>) = vld v n s"
  "vld v n (s\<lparr>rflags := r\<rparr>) = vld v n s"
  "vld v n (s\<lparr>idt_st := i\<rparr>) = vld v n s"
  "vld v n (s\<lparr>ap_boot_flag := fl\<rparr>) = vld v n s"
  by (rule vld_view; simp)+

lemma smp_holds [simp]:
  "holds v ws (s\<lparr>core_at := cs\<rparr>) = holds v ws s"
  "holds v ws (s\<lparr>thread_at := ts\<rparr>) = holds v ws s"
  "holds v ws (s\<lparr>this_cpu := c\<rparr>) = holds v ws s"
  "holds v ws (s\<lparr>io := h\<rparr>) = holds v ws s"
  "holds v ws (s\<lparr>klog := l\<rparr>) = holds v ws s"
  "holds v ws (s\<lparr>locks := ls\<rparr>) = holds v ws s"
  "holds v ws (s\<lparr>rflags := r\<rparr>) = holds v ws s"
  "holds v ws (s\<lparr>idt_st := i\<rparr>) = holds v ws s"
  "holds v ws (s\<lparr>ap_boot_flag := fl\<rparr>) = holds v ws s"
  by (simp_all add: holds_def)

lemmas pool_defs = pool_def bump_def range_live_def scan_from_def range_start_def range_end_def regions_from_def
  used_def phys_ok_def

lemma smp_pool:
  "pool (s\<lparr>core_at := cs\<rparr>) n = pool s n"
  "pool (s\<lparr>thread_at := ts\<rparr>) n = pool s n"
  "pool (s\<lparr>this_cpu := c\<rparr>) n = pool s n"
  "pool (s\<lparr>io := h\<rparr>) n = pool s n"
  "pool (s\<lparr>klog := l\<rparr>) n = pool s n"
  "pool (s\<lparr>idt_st := i\<rparr>) n = pool s n"
  "pool (s\<lparr>ap_boot_flag := fl\<rparr>) n = pool s n"
  by (simp_all add: pool_defs)

lemma pool_mem: "pool (s\<lparr>mem := m\<rparr>) n = pool s n"
  by (simp add: pool_defs)

lemma smp_kernel_room [simp]:
  "kernel_room k (s\<lparr>core_at := cs\<rparr>) = kernel_room k s"
  "kernel_room k (s\<lparr>thread_at := ts\<rparr>) = kernel_room k s"
  "kernel_room k (s\<lparr>this_cpu := c\<rparr>) = kernel_room k s"
  "kernel_room k (s\<lparr>io := h\<rparr>) = kernel_room k s"
  "kernel_room k (s\<lparr>klog := l\<rparr>) = kernel_room k s"
  "kernel_room k (s\<lparr>idt_st := i\<rparr>) = kernel_room k s"
  "kernel_room k (s\<lparr>ap_boot_flag := fl\<rparr>) = kernel_room k s"
  by (simp_all add: kernel_room_def range_free_def smp_pool)

lemma same_map_fields:
  assumes "same_map s t"
  shows "thread_at t = thread_at s" "core_at t = core_at s" "this_cpu t = this_cpu s" "cores t = cores s"
    "locks t = locks s" "io t = io s" "lapic_base_virt t = lapic_base_virt s" "bsp_core_idx t = bsp_core_idx s"
    "klog t = klog s" "rflags t = rflags s"
proof -
  have e: "t = s\<lparr>mem := mem t\<rparr>"
    using assms by (simp add: same_map_def)
  show "thread_at t = thread_at s"
    using arg_cong [OF e, of thread_at] by (rule trans) simp
  show "core_at t = core_at s"
    using arg_cong [OF e, of core_at] by (rule trans) simp
  show "this_cpu t = this_cpu s"
    using arg_cong [OF e, of this_cpu] by (rule trans) simp
  show "cores t = cores s"
    using arg_cong [OF e, of cores] by (rule trans) simp
  show "locks t = locks s"
    using arg_cong [OF e, of locks] by (rule trans) simp
  show "io t = io s"
    using arg_cong [OF e, of io] by (rule trans) simp
  show "lapic_base_virt t = lapic_base_virt s"
    using arg_cong [OF e, of lapic_base_virt] by (rule trans) simp
  show "bsp_core_idx t = bsp_core_idx s"
    using arg_cong [OF e, of bsp_core_idx] by (rule trans) simp
  show "klog t = klog s"
    using arg_cong [OF e, of klog] by (rule trans) simp
  show "rflags t = rflags s"
    using arg_cong [OF e, of rflags] by (rule trans) simp
qed

lemma same_map_room: "same_map s t \<Longrightarrow> kernel_room k s \<Longrightarrow> kernel_room k t"
proof -
  assume m: "same_map s t" and k: "kernel_room k s"
  define u where "u = s\<lparr>mem := mem t\<rparr>"
  have u: "t = u"
    using m by (simp add: same_map_def u_def)
  have "tr u = tr s" "pager_ok u"
    using m unfolding u [symmetric] by (simp_all add: same_map_def)
  moreover have "pool u n = pool s n" for n
    by (simp add: u_def pool_mem)
  ultimately have "kernel_room k u"
    using k unfolding kernel_room_def range_free_def by (simp add: u_def)
  then show ?thesis
    by (simp add: u)
qed

lemma pager_more_fields:
  assumes "pager.more t = pager.more s"
  shows "thread_at t = thread_at s" "core_at t = core_at s" "this_cpu t = this_cpu s" "cores t = cores s"
    "lapic_base_virt t = lapic_base_virt s" "bsp_core_idx t = bsp_core_idx s"
  using assms by (cases s; cases t; simp)+

section \<open>Contexts\<close>

definition resumed :: "cpu \<Rightarrow> cpu \<Rightarrow> cpu" where
  "resumed c d = d\<lparr>cpu_rbp := cpu_rbp c, cpu_rbx := cpu_rbx c, cpu_r12 := cpu_r12 c, cpu_r13 := cpu_r13 c,
     cpu_r14 := cpu_r14 c, cpu_r15 := cpu_r15 c, cpu_rsp := cpu_rsp c, cpu_rip := cpu_rip c\<rparr>"

lemma resumed_resumed [simp]: "resumed c (resumed d e) = resumed c e" "resumed c c = c"
  by (simp_all add: resumed_def)

lemma resumed_frame [simp]: "gs_base (resumed c d) = gs_base d" "cpu_rsp (resumed c d) = cpu_rsp c"
  by (simp_all add: resumed_def)

definition thread_bytes :: "u64 \<Rightarrow> 'a smp_scheme \<Rightarrow> u64 set" where
  "thread_bytes p s = places (trsp (thread_at s p)) 56 s"

definition sleeping :: "u64 \<Rightarrow> cpu \<Rightarrow> 'a smp_scheme \<Rightarrow> bool" where
  "sleeping p c s \<longleftrightarrow> tr s p \<noteq> None \<and> cpu_rsp c = trsp (thread_at s p) + 56
     \<and> room (trsp (thread_at s p)) 56 s \<and> holds (trsp (thread_at s p)) (rev (saved c)) s"

text \<open>The words below the stack pointer of the executing core.\<close>

definition below :: "'a smp_scheme \<Rightarrow> u64" where
  "below s = cpu_rsp (this_cpu s) - 56"

lemma length_saved [simp]: "length (saved c) = 7"
  by (simp add: saved_def)

text \<open>What a write to the words below the stack pointer leaves asleep.\<close>

lemma sleeping_kept:
  assumes "sleeping p c s" and "same_map s u" and "\<And>x. x \<notin> B \<Longrightarrow> mem u x = mem s x"
    and "thread_bytes p s \<inter> B = {}" and t: "tr t = tr u" "pager_ok t = pager_ok u" "mem t = mem u" "used t = used u"
      "\<And>q. data_page q t = data_page q u" "trsp (thread_at t p) = trsp (thread_at s p)"
  shows "sleeping p c t" and "thread_bytes p t = thread_bytes p s"
proof -
  let ?a = "trsp (thread_at s p)"
  have r: "room ?a 56 s" "on_data ?a (8 * length (rev (saved c))) s"
    using assms(1) by (simp_all add: sleeping_def room_def)
  have h: "holds ?a (rev (saved c)) s"
    using assms(1) by (simp add: sleeping_def)
  have "mem u x = mem s x" if "x \<in> places ?a 56 s" for x
    using that assms(3) [of x] assms(4) unfolding thread_bytes_def by blast
  then have "holds ?a (rev (saved c)) u"
    using h by (intro holds_same [OF r(2) assms(2)]) simp_all
  then have "holds ?a (rev (saved c)) t"
    unfolding holds_def vld_view [OF t(1,3)] .
  moreover have "room ?a 56 u"
    by (rule same_map_places(4) [OF assms(2) r(1)])
  then have "room ?a 56 t"
    using t by (simp add: room_def on_data_def place_def)
  ultimately show "sleeping p c t"
    using assms(1,2) t by (simp add: sleeping_def same_map_def)
  show "thread_bytes p t = thread_bytes p s"
    using t assms(2) by (simp add: thread_bytes_def places_def place_def same_map_def)
qed

lemma pop_saved:
  assumes "holds b (rev (saved c)) s"
  shows "pop64 b s = Some (cpu_r15 c, b + 8)" "pop64 (b + 8) s = Some (cpu_r14 c, b + 16)"
    "pop64 (b + 16) s = Some (cpu_r13 c, b + 24)" "pop64 (b + 24) s = Some (cpu_r12 c, b + 32)"
    "pop64 (b + 32) s = Some (cpu_rbx c, b + 40)" "pop64 (b + 40) s = Some (cpu_rbp c, b + 48)"
    "pop64 (b + 48) s = Some (cpu_rip c, b + 56)"
proof -
  have h: "holds b [cpu_r15 c, cpu_r14 c, cpu_r13 c, cpu_r12 c, cpu_rbx c, cpu_rbp c, cpu_rip c] s"
    using assms by (simp add: saved_def)
  note p0 = pop_holds [OF h] note p1 = pop_holds [OF p0(2)] note p2 = pop_holds [OF p1(2)]
  note p3 = pop_holds [OF p2(2)] note p4 = pop_holds [OF p3(2)] note p5 = pop_holds [OF p4(2)]
  note p6 = pop_holds [OF p5(2)]
  show "pop64 b s = Some (cpu_r15 c, b + 8)" "pop64 (b + 8) s = Some (cpu_r14 c, b + 16)"
    "pop64 (b + 16) s = Some (cpu_r13 c, b + 24)" "pop64 (b + 24) s = Some (cpu_r12 c, b + 32)"
    "pop64 (b + 32) s = Some (cpu_rbx c, b + 40)" "pop64 (b + 40) s = Some (cpu_rbp c, b + 48)"
    "pop64 (b + 48) s = Some (cpu_rip c, b + 56)"
    using p0(1) p1(1) p2(1) p3(1) p4(1) p5(1) p6(1) by (simp_all add: add.assoc)
qed

text \<open>The context switch exchanges the context of the core with the one of the new thread.\<close>

lemma context_switch:
  assumes new: "sleeping new c s" and old: "tr s old \<noteq> None" "old \<noteq> new"
    and r: "room (below s) 56 s" and apart: "thread_bytes new s \<inter> places (below s) 56 s = {}"
  shows "\<exists>u. same_map s u \<and> (\<forall>x. x \<notin> places (below s) 56 s \<longrightarrow> mem u x = mem s x)
    \<and> thread_context_switch old new s = Some ((), u\<lparr>thread_at := (thread_at s)(old := (thread_at s old)\<lparr>trsp := below s\<rparr>),
        this_cpu := resumed c (this_cpu s)\<rparr>)
    \<and> holds (below s) (rev (saved (this_cpu s))) u"
proof -
  have "room (below s) (8 * length (saved (this_cpu s))) s"
    using r by simp
  from push_room [OF this] obtain u where
    u: "push_values (saved (this_cpu s)) (cpu_rsp (this_cpu s)) s = Some (below s, u)" "same_map s u"
      "holds (below s) (rev (saved (this_cpu s))) u" "\<forall>x. x \<notin> places (below s) 56 s \<longrightarrow> mem u x = mem s x"
    by (auto simp: below_def)
  define t where "t = u\<lparr>thread_at := (thread_at s)(old := (thread_at s old)\<lparr>trsp := below s\<rparr>)\<rparr>"
  have f: "thread_at u = thread_at s" "tr u = tr s" "this_cpu u = this_cpu s"
    using same_map_fields [OF u(2)] u(2) by (simp_all add: same_map_def)
  have e: "edit_thread old (\<lambda>t. t\<lparr>trsp := below s\<rparr>) u = Some t"
    using old(1) f by (simp add: edit_thread_def t_def)
  have sl: "sleeping new c t"
    using u(4) apart old(2) f by (intro sleeping_kept [OF new u(2)]) (auto simp: t_def)
  then have n: "thread_of new t = Some (thread_at s new)" "holds (trsp (thread_at s new)) (rev (saved c)) t"
    "cpu_rsp c = trsp (thread_at s new) + 56"
    using old(2) by (simp_all add: sleeping_def thread_of_def) (auto simp: t_def sleeping_def thread_of_def)
  note pops = pop_saved [OF n(2)]
  have "thread_context_switch old new s = Some ((), t\<lparr>this_cpu := resumed c (this_cpu s)\<rparr>)"
    unfolding thread_context_switch_def u(1) using e n pops f by (simp add: resumed_def t_def)
  then show ?thesis
    using u by (intro exI [of _ u]) (simp add: t_def)
qed

text \<open>The same without a write.\<close>

lemma sleeping_view:
  assumes "sleeping p c s" and "tr t = tr s" "pager_ok t = pager_ok s" "mem t = mem s" "used t = used s"
      "\<And>q. data_page q t = data_page q s" "trsp (thread_at t p) = trsp (thread_at s p)"
  shows "sleeping p c t" and "thread_bytes p t = thread_bytes p s"
proof -
  have "same_map s s"
    using assms(1) by (simp add: sleeping_def room_def same_map_refl)
  from sleeping_kept [OF assms(1) this _ _ assms(2-), of "{}"]
  show "sleeping p c t" "thread_bytes p t = thread_bytes p s"
    by simp_all
qed

text \<open>A thread that is switched away from sleeps with the registers it had.\<close>

lemma switched_sleeps:
  assumes "same_map s u" and "room (below s) 56 s" and "holds (below s) (rev (saved (this_cpu s))) u"
    and "tr s old \<noteq> None" and t: "tr t = tr u" "pager_ok t = pager_ok u" "mem t = mem u" "used t = used u"
      "\<And>q. data_page q t = data_page q u" "trsp (thread_at t old) = below s"
  shows "sleeping old (this_cpu s) t" and "thread_bytes old t = places (below s) 56 s"
proof -
  have "room (below s) 56 u"
    by (rule same_map_places(4) [OF assms(1,2)])
  then have "room (below s) 56 t"
    using t by (simp add: room_def on_data_def place_def)
  moreover have "holds (below s) (rev (saved (this_cpu s))) t"
    using assms(3) unfolding holds_def vld_view [OF t(1,3)] .
  ultimately show "sleeping old (this_cpu s) t"
    using assms(1,4) t by (simp add: sleeping_def same_map_def below_def)
  show "thread_bytes old t = places (below s) 56 s"
    using t assms(1) by (simp add: thread_bytes_def places_def place_def same_map_def)
qed

section \<open>The queue of a core\<close>

text \<open>A core whose structure, queue and threads are as \<open>smp_init\<close> and the functions below leave them.\<close>

definition core_ready :: "u64 \<Rightarrow> 'a smp_scheme \<Rightarrow> bool" where
  "core_ready p s \<longleftrightarrow> tr s p \<noteq> None \<and> \<not> locks s (Queue_lock (unat p)) \<and> tr s (cur_thread (core_at s p)) \<noteq> None
     \<and> room (below s) 56 s"

text \<open>The sleeping threads outside \<open>T\<close> whose saved words are apart from \<open>B\<close> stay asleep.\<close>

definition others_sleep :: "u64 set \<Rightarrow> u64 set \<Rightarrow> 'a smp_scheme \<Rightarrow> 'a smp_scheme \<Rightarrow> bool" where
  "others_sleep T B s t \<longleftrightarrow> (\<forall>q d. q \<notin> T \<and> sleeping q d s \<and> thread_bytes q s \<inter> B = {} \<longrightarrow>
     sleeping q d t \<and> thread_bytes q t = thread_bytes q s)"

lemma others_sleep_trans:
  assumes "others_sleep T B s t" and "others_sleep T' B' t u"
  shows "others_sleep (T \<union> T') (B \<union> B') s u"
  unfolding others_sleep_def
proof (intro allI impI, elim conjE)
  fix q d
  assume q: "q \<notin> T \<union> T'" "sleeping q d s" "thread_bytes q s \<inter> (B \<union> B') = {}"
  have t: "sleeping q d t" "thread_bytes q t = thread_bytes q s"
    using assms(1) q unfolding others_sleep_def by blast+
  then have "thread_bytes q t \<inter> B' = {}"
    using q(3) by auto
  then show "sleeping q d u \<and> thread_bytes q u = thread_bytes q s"
    using assms(2) q(1) t unfolding others_sleep_def by auto
qed

lemma yield_sleeps:
  assumes gs: "tr s (gs_base (this_cpu s)) \<noteq> None" "core_self (core_at s (gs_base (this_cpu s))) = p"
    and c: "core_ready p s"
    and idle: "sleeping (idle_thread (core_at s p)) c s" "cur_thread (core_at s p) \<noteq> idle_thread (core_at s p)"
      "thread_bytes (idle_thread (core_at s p)) s \<inter> places (below s) 56 s = {}"
  shows "\<exists>t. smp_yield s = Some ((), t) \<and> this_cpu t = resumed c (this_cpu s)
    \<and> sleeping (cur_thread (core_at s p)) (this_cpu s) t
    \<and> thread_bytes (cur_thread (core_at s p)) t = places (below s) 56 s
    \<and> others_sleep {cur_thread (core_at s p)} (places (below s) 56 s) s t
    \<and> core_at t = (core_at s)(p := (core_at s p)\<lparr>ready_list := cur_thread (core_at s p), cur_thread := idle_thread (core_at s p)\<rparr>)
    \<and> thread_at t = (thread_at s)(cur_thread (core_at s p) := (thread_at s (cur_thread (core_at s p)))
        \<lparr>tstatus := THREAD_STATUS_READY, tnext := ready_list (core_at s p), trsp := below s\<rparr>)
    \<and> locks t = locks s \<and> tr t = tr s \<and> pager_ok t \<and> used t = used s \<and> (\<forall>q. data_page q t = data_page q s)
    \<and> (\<forall>x. x \<notin> places (below s) 56 s \<longrightarrow> mem t x = mem s x)"
proof -
  let ?cur = "cur_thread (core_at s p)" and ?idle = "idle_thread (core_at s p)" and ?B = "places (below s) 56 s"
  note c = c [unfolded core_ready_def]
  define s1 where "s1 = s\<lparr>thread_at := (thread_at s)(?cur := (thread_at s ?cur)\<lparr>tstatus := THREAD_STATUS_READY,
      tnext := ready_list (core_at s p)\<rparr>),
    core_at := (core_at s)(p := (core_at s p)\<lparr>ready_list := ?cur, cur_thread := ?idle\<rparr>)\<rparr>"
  have idle1: "sleeping ?idle c s1" "thread_bytes ?idle s1 = thread_bytes ?idle s"
    by (rule sleeping_view [OF idle(1)]; simp add: s1_def)+
  have b: "below s1 = below s" "this_cpu s1 = this_cpu s" "places v n s1 = places v n s" "mem s1 = mem s" for v n
    by (simp_all add: s1_def below_def)
  have l: "(locks s)(Queue_lock (unat p) := False) = locks s"
    using c by (simp add: fun_upd_idem)
  have y: "smp_yield s = thread_context_switch ?cur ?idle s1"
    using gs c idle(2) by (simp add: smp_yield_def core_of_def edit_thread_def edit_core_def spin_lock_def spin_unlock_def
        Let_def s1_def l del: not_None_eq)
  have r1: "room (below s1) 56 s1" "tr s1 ?cur \<noteq> None"
    using c b(1) by (simp_all add: s1_def)
  from context_switch [OF idle1(1) r1(2) idle(2) r1(1)] idle(3) obtain u where
    u: "same_map s1 u" "\<And>x. x \<notin> ?B \<Longrightarrow> mem u x = mem s1 x"
      "thread_context_switch ?cur ?idle s1 = Some ((), u\<lparr>thread_at := (thread_at s1)(?cur := (thread_at s1 ?cur)\<lparr>trsp := below s\<rparr>),
        this_cpu := resumed c (this_cpu s)\<rparr>)"
      "holds (below s) (rev (saved (this_cpu s))) u"
    unfolding b idle1(2) by blast
  define t where "t = u\<lparr>thread_at := (thread_at s1)(?cur := (thread_at s1 ?cur)\<lparr>trsp := below s\<rparr>),
        this_cpu := resumed c (this_cpu s)\<rparr>"
  note f = same_map_fields [OF u(1)]
  have sl: "sleeping ?cur (this_cpu s) t" "thread_bytes ?cur t = ?B"
    using switched_sleeps [OF u(1) r1(1) u(4) [folded b(1,2)] r1(2), of t, unfolded b] by (simp_all add: t_def)
  have o: "others_sleep {?cur} ?B s t"
    unfolding others_sleep_def
  proof (intro allI impI, elim conjE, rule conjI)
    fix q d
    assume q: "q \<notin> {?cur}" "sleeping q d s" "thread_bytes q s \<inter> ?B = {}"
    note q1 = sleeping_view [OF q(2), of s1]
    have q1: "sleeping q d s1" "thread_bytes q s1 = thread_bytes q s"
      by (rule q1; use q(1) in \<open>simp add: s1_def\<close>)+
    show "sleeping q d t" "thread_bytes q t = thread_bytes q s"
      using sleeping_kept [OF q1(1) u(1,2), where t = t] q1(2) q by (simp_all add: t_def)
  qed
  show ?thesis
    using y u(1,2,3) sl o f unfolding t_def [symmetric]
    by (intro exI [of _ t]) (simp add: t_def s1_def same_map_def)
qed

lemma round_runs:
  assumes c: "core_ready p s" and up: "shutdown_core (core_at s p) \<noteq> 1"
    and n: "ready_list (core_at s p) = n" "n \<noteq> 0" "sleeping n c s" "cur_thread (core_at s p) \<noteq> n"
      "thread_bytes n s \<inter> places (below s) 56 s = {}"
  shows "\<exists>t. ap_round dev p es s = Some (Task_run, t) \<and> this_cpu t = resumed c (this_cpu s)
    \<and> sleeping (cur_thread (core_at s p)) (this_cpu s) t
    \<and> thread_bytes (cur_thread (core_at s p)) t = places (below s) 56 s
    \<and> others_sleep {cur_thread (core_at s p)} (places (below s) 56 s) s t
    \<and> core_at t = (core_at s)(p := (core_at s p)\<lparr>ready_list := tnext (thread_at s n), cur_thread := n\<rparr>)
    \<and> thread_at t = (thread_at s)(n := (thread_at s n)\<lparr>tstatus := THREAD_STATUS_RUNNING\<rparr>,
        cur_thread (core_at s p) := (thread_at s (cur_thread (core_at s p)))\<lparr>trsp := below s\<rparr>)
    \<and> locks t = locks s \<and> tr t = tr s \<and> (\<forall>x. x \<notin> places (below s) 56 s \<longrightarrow> mem t x = mem s x)"
proof -
  let ?cur = "cur_thread (core_at s p)" and ?B = "places (below s) 56 s"
  note c = c [unfolded core_ready_def]
  define s1 where "s1 = diag ''[SMP : CORE %d] Found Task!'' [Num (ucast (core_idx (core_at s p)))]
    ((sti (cli s))\<lparr>core_at := (core_at s)(p := (core_at s p)\<lparr>ready_list := tnext (thread_at s n), cur_thread := n\<rparr>),
      thread_at := (thread_at s)(n := (thread_at s n)\<lparr>tstatus := THREAD_STATUS_RUNNING\<rparr>)\<rparr>)"
  note defs = s1_def diag_def sti_def cli_def event_def
  have n1: "sleeping n c s1" "thread_bytes n s1 = thread_bytes n s"
    by (rule sleeping_view [OF n(3)]; simp add: defs)+
  have b: "below s1 = below s" "this_cpu s1 = this_cpu s" "places v n s1 = places v n s" "mem s1 = mem s" for v n
    by (simp_all add: defs below_def)
  have l: "(locks s)(Queue_lock (unat p) := False) = locks s"
    using c by (simp add: fun_upd_idem)
  have trn: "tr s n \<noteq> None"
    using n(3) by (simp add: sleeping_def)
  have y: "ap_round dev p es s = do { (_, s) \<leftarrow> thread_context_switch ?cur n s1; Some (Task_run, s) }"
    using c n(1,2) up trn by (simp add: ap_round_def core_of_def thread_of_def edit_thread_def edit_core_def spin_lock_def
        spin_unlock_def Let_def defs l del: not_None_eq)
  have r1: "room (below s1) 56 s1" "tr s1 ?cur \<noteq> None"
    using c b(1) by (simp_all add: defs)
  from context_switch [OF n1(1) r1(2) n(4) r1(1)] n(5) obtain u where
    u: "same_map s1 u" "\<And>x. x \<notin> ?B \<Longrightarrow> mem u x = mem s1 x"
      "thread_context_switch ?cur n s1 = Some ((), u\<lparr>thread_at := (thread_at s1)(?cur := (thread_at s1 ?cur)\<lparr>trsp := below s\<rparr>),
        this_cpu := resumed c (this_cpu s)\<rparr>)"
      "holds (below s) (rev (saved (this_cpu s))) u"
    unfolding b n1(2) by blast
  define t where "t = u\<lparr>thread_at := (thread_at s1)(?cur := (thread_at s1 ?cur)\<lparr>trsp := below s\<rparr>),
        this_cpu := resumed c (this_cpu s)\<rparr>"
  note f = same_map_fields [OF u(1)]
  have sl: "sleeping ?cur (this_cpu s) t" "thread_bytes ?cur t = ?B"
    using switched_sleeps [OF u(1) r1(1) u(4) [folded b(1,2)] r1(2), of t, unfolded b] by (simp_all add: t_def)
  have o: "others_sleep {?cur} ?B s t"
    unfolding others_sleep_def
  proof (intro allI impI, elim conjE, rule conjI)
    fix q d
    assume q: "q \<notin> {?cur}" "sleeping q d s" "thread_bytes q s \<inter> ?B = {}"
    note q1 = sleeping_view [OF q(2), of s1]
    have q1: "sleeping q d s1" "thread_bytes q s1 = thread_bytes q s"
      by (rule q1; simp add: defs)+
    show "sleeping q d t" "thread_bytes q t = thread_bytes q s"
      using sleeping_kept [OF q1(1) u(1,2), where t = t] q1(2) q by (simp_all add: t_def)
  qed
  show ?thesis
    using y u(1,2,3) sl o f n(4) unfolding t_def [symmetric]
    by (intro exI [of _ t]) (simp add: t_def defs same_map_def)
qed

section \<open>New threads\<close>

definition entered :: "u64 \<Rightarrow> u64 \<Rightarrow> cpu \<Rightarrow> cpu" where
  "entered entry rsp d = d\<lparr>cpu_rbp := 0, cpu_rbx := 0, cpu_r12 := 0, cpu_r13 := 0, cpu_r14 := 0, cpu_r15 := 0,
     cpu_rsp := rsp, cpu_rip := entry\<rparr>"

text \<open>Everything that was mapped, and the bytes of everything that was data, stay; \<open>B\<close> is apart.\<close>

definition keeps :: "u64 set \<Rightarrow> 'a smp_scheme \<Rightarrow> 'a smp_scheme \<Rightarrow> bool" where
  "keeps B s t \<longleftrightarrow> (\<forall>v. tr s v \<noteq> None \<longrightarrow> tr t v = tr s v)
     \<and> (\<forall>b l. room b l s \<longrightarrow> room b l t \<and> places b l t = places b l s \<and> vld b l t = vld b l s \<and> places b l t \<inter> B = {})"

lemma keeps_sleeping:
  assumes "keeps B s t" and "sleeping q d s" and "trsp (thread_at t q) = trsp (thread_at s q)"
  shows "sleeping q d t" and "thread_bytes q t = thread_bytes q s" and "thread_bytes q t \<inter> B = {}"
proof -
  note k = assms(1) [unfolded keeps_def]
  have r: "room (trsp (thread_at s q)) 56 s" "tr s q \<noteq> None"
    using assms(2) by (simp_all add: sleeping_def)
  with k have "room (trsp (thread_at s q)) 56 t" "places (trsp (thread_at s q)) 56 t = places (trsp (thread_at s q)) 56 s"
    "vld (trsp (thread_at s q)) 56 t = vld (trsp (thread_at s q)) 56 s" "places (trsp (thread_at s q)) 56 t \<inter> B = {}"
    "tr t q = tr s q"
    by blast+
  then show "sleeping q d t" "thread_bytes q t = thread_bytes q s" "thread_bytes q t \<inter> B = {}"
    using assms(2,3) by (simp_all add: sleeping_def thread_bytes_def holds_def)
qed

lemma kernel_flags_ok: "(scast kernel_flags :: u64) AND PAGE_HUGE = 0"
  by (simp add: kernel_flags_def PAGE_PRESENT_def PAGE_RW_def PAGE_HUGE_def)

lemma create_thread_sleeps:
  assumes "kernel_room (5 + k) s"
  shows "\<exists>t stack. create_thread entry n s = Some (heap_kernel s, t) \<and> heap_kernel s \<noteq> 0 \<and> kernel_room k t
    \<and> unat (stack + thread_stack_size) mod 4096 = 0
    \<and> sleeping (heap_kernel s) (entered entry (stack + thread_stack_size) d) t
    \<and> keeps (thread_bytes (heap_kernel s) t) s t
    \<and> core_at t = core_at s \<and> this_cpu t = this_cpu s \<and> cores t = cores s \<and> lapic_base_virt t = lapic_base_virt s
    \<and> bsp_core_idx t = bsp_core_idx s \<and> locks t = locks s \<and> io t = io s
    \<and> thread_at t = (thread_at s)(heap_kernel s := (thread_at s (heap_kernel s))\<lparr>trsp := stack + (thread_stack_size - 56),
        tid := n, stack_bottom := stack, tstatus := THREAD_STATUS_READY\<rparr>)"
proof -
  have "kernel_room (1 + (4 + k)) s"
    using assms by (simp add: add.commute)
  from alloc_room [OF this _ _ _ kernel_flags_ok, of "of_nat (sizeof thread_layout)"] obtain p t1 where
    t1: "avmf_alloc (of_nat (sizeof thread_layout)) MALLOC_TYPE_KERNEL kernel_flags s = Some ((heap_kernel s, Some p), t1)"
      "heap_kernel s \<noteq> 0" "kernel_room (4 + k) t1" "pager_same s t1" "pager_ok t1" "older s t1"
      "room (heap_kernel s) (4096 * 1) t1" "\<forall>b l. room b l s \<longrightarrow> places b l t1 \<inter> places (heap_kernel s) (4096 * 1) t1 = {}"
    by (auto simp: pages_of_def)
  let ?v = "heap_kernel t1"
  from alloc_room [OF t1(3) _ _ _ kernel_flags_ok, of thread_stack_size] obtain p2 t2 where
    t2: "avmf_alloc thread_stack_size MALLOC_TYPE_KERNEL kernel_flags t1 = Some ((?v, Some p2), t2)"
      "?v \<noteq> 0" "kernel_room k t2" "pager_same t1 t2" "pager_ok t2" "older t1 t2"
      "room ?v (4096 * 4) t2" "\<forall>b l. room b l t1 \<longrightarrow> places b l t2 \<inter> places ?v (4096 * 4) t2 = {}"
      "unat (heap_kernel t2) = unat ?v + 4096 * 4"
    by (auto simp: pages_of_def thread_stack_size_def)
  have al: "unat (?v + thread_stack_size) mod 4096 = 0"
  proof -
    have v: "unat ?v mod 4096 = 0"
      using t1(3) by (simp add: kernel_room_def)
    have "unat ?v + unat thread_stack_size < 2 ^ LENGTH(64)"
      unfolding thread_stack_size_def using t2(9) unat_less_exp [of "heap_kernel t2"] by simp
    then have "unat (?v + thread_stack_size) = unat ?v + 16384"
      by (subst unat_plus_less) (simp_all add: thread_stack_size_def)
    then show ?thesis
      using v by (simp add: mod_add_eq [symmetric])
  qed
  let ?b = "?v + (thread_stack_size - 56)" and ?c = "entered entry (?v + thread_stack_size) d"
  have b: "?b = ?v + of_nat (16384 - 56)"
    by (simp add: thread_stack_size_def)
  have r2: "room ?b 56 t2"
    unfolding b by (rule room_sub [OF t2(7)]) simp
  have sv: "saved ?c = [entry, 0, 0, 0, 0, 0, 0]"
    by (simp add: saved_def entered_def)
  have "room ?b (8 * length (saved ?c)) t2"
    using r2 by simp
  from push_room [OF this] obtain u where
    u: "push_values (saved ?c) (?v + thread_stack_size) t2 = Some (?b, u)" "same_map t2 u" "holds ?b (rev (saved ?c)) u"
      "\<And>x. x \<notin> places ?b 56 t2 \<Longrightarrow> mem u x = mem t2 x"
    by (auto simp: thread_stack_size_def add.assoc)
  define t where "t = u\<lparr>thread_at := (thread_at s)(heap_kernel s := (thread_at s (heap_kernel s))\<lparr>trsp := ?b,
        tid := n, stack_bottom := ?v, tstatus := THREAD_STATUS_READY\<rparr>)\<rparr>"
  have m1: "pager.more t1 = pager.more s" "pager.more t2 = pager.more t1" "locks t2 = locks s" "io t2 = io s"
    using t1(4) t2(4) by (simp_all add: pager_same_def)
  note f = same_map_fields [OF u(2)] pager_more_fields [OF m1(1)] pager_more_fields [OF m1(2)] m1(3,4)
  have trs: "tr t = tr t2" "mem t = mem u" "pager_ok t" "kernel_room k t" "room ?b 56 t"
      "tr t1 (heap_kernel s) \<noteq> None"
    using u(2) t2(5) same_map_room [OF u(2) t2(3)] same_map_places(4) [OF u(2) r2] t1(7)
    by (simp_all add: t_def same_map_def) (auto simp: room_def on_data_def dest!: spec [of _ 0])
  then have th: "tr t (heap_kernel s) \<noteq> None"
    using t2(6) by (auto simp: older_def)
  have "sleeping (heap_kernel s) ?c t"
    using th trs(5) u(3) by (simp add: sleeping_def t_def entered_def thread_stack_size_def del: not_None_eq)
  moreover have "keeps (thread_bytes (heap_kernel s) t) s t"
    unfolding keeps_def
  proof (intro conjI allI impI)
    fix v
    assume "tr s v \<noteq> None"
    then show "tr t v = tr s v"
      using t1(6) t2(6) trs(1) by (metis older_def)
  next
    fix b l
    assume r: "room b l s"
    note o1 = older_room [OF t1(6) r t1(5)] note o2 = older_room [OF t2(6) o1(1) t2(5)]
    have B: "thread_bytes (heap_kernel s) t = places ?b 56 t2"
      using u(2) same_map_places(2) [OF u(2)] by (simp add: thread_bytes_def t_def)
    have "places ?b 56 t2 \<subseteq> places ?v (4096 * 4) t2"
      unfolding b by (rule places_sub) simp
    then have a: "places b l t2 \<inter> places ?b 56 t2 = {}"
      using t2(8) o1(1) by blast
    show "room b l t" "places b l t = places b l s" "places b l t \<inter> thread_bytes (heap_kernel s) t = {}"
      using same_map_places [OF u(2)] o1 o2 a by (simp_all add: t_def B [unfolded t_def])
    have "vld b l u = vld b l t2"
      using o2(1) a by (intro vld_same [OF _ u(2)] u(4)) (auto simp: room_def)
    then show "vld b l t = vld b l s"
      using o1 o2 by (simp add: t_def)
  qed
  moreover have "create_thread entry n s = Some (heap_kernel s, t)"
  proof -
    have "tr u (heap_kernel s) \<noteq> None"
      using th by (simp add: t_def del: not_None_eq)
    then show ?thesis
      using t1(1,2) t2(1,2) u(1) f unfolding sv
      by (simp add: create_thread_def edit_thread_def t_def del: not_None_eq push_values.simps)
  qed
  ultimately show ?thesis
    using t1(2) trs(4) f al by (intro exI [of _ t] exI [of _ ?v]) (simp add: t_def)
qed

lemma entered_sleeping: "sleeping q (entered e r d) t \<Longrightarrow> sleeping q (entered e r d') t"
  by (simp add: sleeping_def saved_def entered_def)

lemma keeps_view:
  assumes "keeps B s u" and "tr t = tr u" "pager_ok t = pager_ok u" "mem t = mem u" "used t = used u"
      "\<And>q. data_page q t = data_page q u"
  shows "keeps B s t"
proof -
  have "room b l t = room b l u" "places b l t = places b l u" "vld b l t = vld b l u" for b l
    using assms(2-) vld_view [OF assms(2,4)] by (simp_all add: room_def on_data_def places_def place_def)
  note e = this
  show ?thesis
    using assms(1) unfolding keeps_def assms(2) e .
qed

text \<open>The new task is the first of the queue, with the rest behind it.\<close>

lemma queue_task_queues:
  assumes "kernel_room (5 + k) s" and p: "tr s p \<noteq> None" "\<not> locks s (Queue_lock (unat p))"
  shows "\<exists>t stack. queue_task p entry s = Some ((), t) \<and> heap_kernel s \<noteq> 0 \<and> kernel_room k t
    \<and> unat (stack + thread_stack_size) mod 4096 = 0
    \<and> (\<forall>d. sleeping (heap_kernel s) (entered entry (stack + thread_stack_size) d) t)
    \<and> keeps (thread_bytes (heap_kernel s) t) s t
    \<and> core_at t = (core_at s)(p := (core_at s p)\<lparr>next_tid := next_tid (core_at s p) + 1, ready_list := heap_kernel s\<rparr>)
    \<and> thread_at t = (thread_at s)(heap_kernel s := (thread_at s (heap_kernel s))\<lparr>trsp := stack + (thread_stack_size - 56),
        tid := next_tid (core_at s p), stack_bottom := stack, tstatus := THREAD_STATUS_READY, tnext := ready_list (core_at s p)\<rparr>)
    \<and> this_cpu t = this_cpu s \<and> cores t = cores s \<and> lapic_base_virt t = lapic_base_virt s
    \<and> bsp_core_idx t = bsp_core_idx s \<and> locks t = locks s \<and> io t = io s"
proof -
  let ?th = "heap_kernel s" and ?c = "core_at s p"
  define s1 where "s1 = s\<lparr>core_at := (core_at s)(p := ?c\<lparr>next_tid := next_tid ?c + 1\<rparr>)\<rparr>"
  have "kernel_room (5 + k) s1" "heap_kernel s1 = ?th"
    using assms(1) by (simp_all add: s1_def)
  from create_thread_sleeps [OF this(1), of entry "next_tid ?c" undefined, unfolded this(2)] obtain u stack where
    u: "create_thread entry (next_tid ?c) s1 = Some (?th, u)" "?th \<noteq> 0" "kernel_room k u"
      "unat (stack + thread_stack_size) mod 4096 = 0"
      "sleeping ?th (entered entry (stack + thread_stack_size) undefined) u" "keeps (thread_bytes ?th u) s1 u"
      "core_at u = core_at s1" "this_cpu u = this_cpu s1" "cores u = cores s1" "lapic_base_virt u = lapic_base_virt s1"
      "bsp_core_idx u = bsp_core_idx s1" "locks u = locks s1" "io u = io s1"
      "thread_at u = (thread_at s1)(?th := (thread_at s1 ?th)\<lparr>trsp := stack + (thread_stack_size - 56),
        tid := next_tid ?c, stack_bottom := stack, tstatus := THREAD_STATUS_READY\<rparr>)"
    by (elim exE conjE)
  define t where "t = u\<lparr>thread_at := (thread_at u)(?th := (thread_at u ?th)\<lparr>tnext := ready_list ?c\<rparr>),
    core_at := (core_at u)(p := (core_at u p)\<lparr>ready_list := ?th\<rparr>)\<rparr>"
  have l: "(locks u)(Queue_lock (unat p) := False) = locks u" "\<not> locks u (Queue_lock (unat p))"
    using p(2) u(12) by (simp_all add: fun_upd_idem s1_def)
  have "tr u p = tr s p"
    using p(1) u(6) by (simp add: keeps_def s1_def)
  moreover have "tr u ?th \<noteq> None"
    using u(5) by (simp add: sleeping_def)
  ultimately have "queue_task p entry s = Some ((), t)"
    using p u(1,7) l by (simp add: queue_task_def core_of_def edit_core_def edit_thread_def spin_lock_def
        spin_unlock_def Let_def s1_def [symmetric] t_def del: not_None_eq) (simp add: s1_def)
  moreover have sl: "sleeping ?th (entered entry (stack + thread_stack_size) undefined) t" "thread_bytes ?th t = thread_bytes ?th u"
    by (rule sleeping_view [OF u(5)]; simp add: t_def)+
  moreover have "\<forall>d. sleeping ?th (entered entry (stack + thread_stack_size) d) t"
    using entered_sleeping [OF sl(1)] by blast
  moreover have "keeps (thread_bytes ?th t) s t"
  proof -
    have "keeps (thread_bytes ?th u) s1 t"
      by (rule keeps_view [OF u(6)]) (simp_all add: t_def)
    then show ?thesis
      unfolding keeps_def sl(2) by (simp only: s1_def smp_tr smp_room smp_places smp_vld)
  qed
  moreover have "kernel_room k t"
    using u(3) by (simp add: t_def)
  moreover have "core_at t = (core_at s)(p := ?c\<lparr>next_tid := next_tid ?c + 1, ready_list := ?th\<rparr>)"
    "thread_at t = (thread_at s)(?th := (thread_at s ?th)\<lparr>trsp := stack + (thread_stack_size - 56),
      tid := next_tid ?c, stack_bottom := stack, tstatus := THREAD_STATUS_READY, tnext := ready_list ?c\<rparr>)"
    "this_cpu t = this_cpu s" "cores t = cores s" "lapic_base_virt t = lapic_base_virt s"
    "bsp_core_idx t = bsp_core_idx s" "locks t = locks s" "io t = io s"
    using u(7-14) by (simp_all add: t_def s1_def)
  ultimately show ?thesis
    using u(2,4) by - (rule exI [of _ t], rule exI [of _ stack], intro conjI, assumption+)
qed

section \<open>Waking a core\<close>

definition wake_events :: "u8 \<Rightarrow> u8 \<Rightarrow> 'a smp_scheme \<Rightarrow> io_event list" where
  "wake_events apic vector s =
     (let low = place s (lapic_base_virt s + 0x300); high = place s (lapic_base_virt s + 0x310)
      in [MmioRead low, MmioWrite low (0x4000 OR ucast vector), MmioRead high, MmioWrite high (push_bit 24 (ucast apic))])"

lemma lapic_write_mapped:
  "tr s (lapic_base_virt s + ucast r) \<noteq> None \<Longrightarrow>
   lapic_write dev r v s = Some ((), s\<lparr>io := MmioRead (place s (lapic_base_virt s + ucast r))
      # MmioWrite (place s (lapic_base_virt s + ucast r)) v # io s\<rparr>)"
  by (auto simp: lapic_write_def lapic_read_def mmio_read_def mmio_write_def event_def place_def)

lemma send_wakeup_ipi_mapped:
  assumes "tr s (lapic_base_virt s + 0x300) \<noteq> None" "tr s (lapic_base_virt s + 0x310) \<noteq> None"
  shows "send_wakeup_ipi dev apic vector s = Some ((), s\<lparr>io := wake_events apic vector s @ io s\<rparr>)"
  using assms lapic_write_mapped [of s "0x310"] lapic_write_mapped [of "s\<lparr>io := h\<rparr>" "0x300" for h]
  by (simp add: send_wakeup_ipi_def wake_events_def Let_def del: not_None_eq)

lemma push_task_spec:
  assumes "kernel_room (5 + k) s" and "n \<le> 255" and "cores s ! unat n = p" and "p \<noteq> 0"
    and "tr s p \<noteq> None" and "\<not> locks s (Queue_lock (unat p))"
    and "tr s (lapic_base_virt s + 0x300) \<noteq> None" and "tr s (lapic_base_virt s + 0x310) \<noteq> None"
  shows "\<exists>t stack. smp_push_task dev n entry s = Some ((), t) \<and> kernel_room k t
    \<and> core_at t = (core_at s)(p := (core_at s p)\<lparr>next_tid := next_tid (core_at s p) + 1, ready_list := heap_kernel s\<rparr>)
    \<and> thread_at t = (thread_at s)(heap_kernel s := (thread_at s (heap_kernel s))\<lparr>trsp := stack + (thread_stack_size - 56),
        tid := next_tid (core_at s p), stack_bottom := stack, tstatus := THREAD_STATUS_READY, tnext := ready_list (core_at s p)\<rparr>)
    \<and> (\<forall>d. sleeping (heap_kernel s) (entered entry (stack + thread_stack_size) d) t)
    \<and> (\<forall>q d. sleeping q d s \<and> q \<noteq> heap_kernel s \<longrightarrow>
        sleeping q d t \<and> thread_bytes q t \<inter> thread_bytes (heap_kernel s) t = {})
    \<and> locks t = locks s \<and> keeps (thread_bytes (heap_kernel s) t) s t \<and> heap_kernel s \<noteq> 0
    \<and> unat (stack + thread_stack_size) mod 4096 = 0 \<and> this_cpu t = this_cpu s
    \<and> io t = (if cstatus (core_at s p) = CORE_STATUS_RUNNING then io s
        else wake_events (ucast (lapic_id (core_at s p))) 0x40 t @ io s)"
proof -
  let ?th = "heap_kernel s" and ?c = "core_at s p"
  from queue_task_queues [OF assms(1,5,6), of entry] obtain u stack where
    u: "queue_task p entry s = Some ((), u)" "kernel_room k u"
      "\<forall>d. sleeping ?th (entered entry (stack + thread_stack_size) d) u" "keeps (thread_bytes ?th u) s u"
      "core_at u = (core_at s)(p := ?c\<lparr>next_tid := next_tid ?c + 1, ready_list := ?th\<rparr>)"
      "thread_at u = (thread_at s)(?th := (thread_at s ?th)\<lparr>trsp := stack + (thread_stack_size - 56),
        tid := next_tid ?c, stack_bottom := stack, tstatus := THREAD_STATUS_READY, tnext := ready_list ?c\<rparr>)"
      "lapic_base_virt u = lapic_base_virt s" "locks u = locks s" "io u = io s" "?th \<noteq> 0"
      "unat (stack + thread_stack_size) mod 4096 = 0" "this_cpu u = this_cpu s"
    by (elim exE conjE)
  have tr: "tr u p = tr s p" "tr u (lapic_base_virt s + 0x300) \<noteq> None" "tr u (lapic_base_virt s + 0x310) \<noteq> None"
    using assms(5,7,8) u(4) by (simp_all add: keeps_def)
  have b: "\<not> 255 < n"
    using assms(2) by simp
  define v where "v = diag ''[SMP] Queueing new task for core %d'' [Num (ucast n)] u"
  define w where "w = diag ''[SMP] Sending Awake command for core %d'' [Num (ucast n)] v"
  define t where "t = (if cstatus ?c = CORE_STATUS_RUNNING then v
      else w\<lparr>io := wake_events (ucast (lapic_id ?c)) 0x40 w @ io w\<rparr>)"
  have "send_wakeup_ipi dev (ucast (lapic_id ?c)) 0x40 w
      = Some ((), w\<lparr>io := wake_events (ucast (lapic_id ?c)) 0x40 w @ io w\<rparr>)"
    by (rule send_wakeup_ipi_mapped) (use tr u(7) in \<open>simp_all add: w_def v_def diag_def del: not_None_eq\<close>)
  then have run: "smp_push_task dev n entry s = Some ((), t)"
    using u(1,5) assms(3-5) tr(1) b
    by (simp add: smp_push_task_def no_core_def core_of_def Let_def v_def [symmetric] w_def [symmetric] t_def del: not_None_eq)
       (simp add: v_def diag_def)
  have e: "kernel_room k t = kernel_room k u" "core_at t = core_at u" "thread_at t = thread_at u" "locks t = locks u"
      "thread_bytes q t = thread_bytes q u" "sleeping q d t = sleeping q d u"
      "keeps B s t = keeps B s u" "this_cpu t = this_cpu u" for q d B
    by (simp_all add: t_def w_def v_def diag_def thread_bytes_def sleeping_def keeps_def)
  have "io t = (if cstatus ?c = CORE_STATUS_RUNNING then io s else wake_events (ucast (lapic_id ?c)) 0x40 t @ io s)"
    using u(9) by (simp add: t_def w_def v_def diag_def wake_events_def)
  moreover have "\<forall>q d. sleeping q d s \<and> q \<noteq> ?th \<longrightarrow> sleeping q d t \<and> thread_bytes q t \<inter> thread_bytes ?th t = {}"
  proof (intro allI impI, elim conjE)
    fix q d
    assume q: "sleeping q d s" "q \<noteq> ?th"
    show "sleeping q d t \<and> thread_bytes q t \<inter> thread_bytes ?th t = {}"
      using keeps_sleeping [OF u(4) q(1)] q(2) u(6) by (simp add: e)
  qed
  ultimately show ?thesis
    using u run by - (rule exI [of _ t], rule exI [of _ stack], unfold e, intro conjI, assumption+)
qed

end
