(* ===== verification/Smp_Tasks.thy ===== *)
theory Smp_Tasks
  imports Smp_Threads
begin

text \<open>
  The properties of the threads of a core: yielding, queueing a task and running it, each with an
  example on a state with one page of data.
\<close>

unbundle bit_operations_syntax

section \<open>A state to start from\<close>

definition blank_core :: core_state where
  "blank_core = \<lparr>core_self = 0, gdt = replicate 7 0, tss = \<lparr>rsp0 = 0, rsp1 = 0, rsp2 = 0, ists = replicate 7 0,
     io_map_base = 0\<rparr>, gdt_desc = \<lparr>gdt_limit = 0, gdt_base = 0\<rparr>, lapic_id = 0, core_idx = 0, shutdown_core = 0,
     reserve_core = 0, cstatus = CORE_STATUS_READY, cur_thread = 0, idle_thread = 0, ready_list = 0, next_tid = 0,
     core_stack = 0\<rparr>"

definition blank_thread :: thread_state where
  "blank_thread = \<lparr>trsp = 0, tid = 0, stack_bottom = 0, tcontext = 0, tstatus = THREAD_STATUS_READY, tnext = 0\<rparr>"

definition blank_cpu :: cpu where
  "blank_cpu = \<lparr>gs_base = 0, gdtr = \<lparr>gdt_limit = 0, gdt_base = 0\<rparr>, task_register = 0, cpu_rbp = 1, cpu_rbx = 2,
     cpu_r12 = 3, cpu_r13 = 4, cpu_r14 = 5, cpu_r15 = 6, cpu_rsp = 7, cpu_rip = 8\<rparr>"

definition smp_over :: "pager \<Rightarrow> smp" where
  "smp_over p = pager.extend p (smp.fields
     \<lparr>mcfg_table = 0, madt_table = 0, fadt_table = 0, apic_ids = [], apic_id_count = 0, pm_timer_port = 0,
       pm_timer_24bit = False\<rparr>
     \<lparr>idt = 0, idt_ptr = 0, idt_tables = undefined, idt_ptrs = undefined\<rparr>
     \<lparr>tsc_ticks_per_ms = 0, rdtscp_supported = False\<rparr>
     (\<lambda>_. blank_core) (\<lambda>_. blank_thread) ((replicate 256 0)[2 := 0xFFFFA00000000000]) 0xFFFFA00000000000 0 0 0
     blank_cpu)"

definition fresh_smp :: smp where
  "fresh_smp = smp_over fresh_pager"

lemma fresh_smp_fields [simp]:
  "core_at fresh_smp p = blank_core" "thread_at fresh_smp p = blank_thread" "cores fresh_smp = (replicate 256 0)[2 := 0xFFFFA00000000000]"
  "this_cpu fresh_smp = blank_cpu" "locks fresh_smp l = False" "heap_kernel fresh_smp = 0xFFFFA00000000000"
  "lapic_base_virt fresh_smp = 0xFFFFA00000000000"
  by (simp_all add: fresh_smp_def smp_over_def pager.defs smp.defs fresh_pager_def boot_state_def space_defs)

lemma truncate_views:
  "tr (pager.truncate s) = tr s" "pager_ok (pager.truncate s) = pager_ok s"
  by (simp_all add: pager.defs tr_def root_def used_def pager_ok_def phys_ok_def fun_eq_iff)

lemma truncate_room: "kernel_room k (pager.truncate s) = kernel_room k s"
  by (simp add: kernel_room_def truncate_views range_free_def) (simp add: pager.defs pool_defs)

lemma fresh_smp_room: "kernel_room 20 fresh_smp"
proof -
  have "pager.truncate fresh_smp = fresh_pager"
    by (simp add: fresh_smp_def smp_over_def pager.defs)
  moreover have "kernel_room 20 fresh_pager"
    using pool_mono [OF fresh_pool, of 100]
    by (simp add: kernel_room_def fresh_ok fresh_tr range_free_def AVMF_STATIC_SIZE_def space_defs)
  ultimately show ?thesis
    by (metis truncate_room)
qed

text \<open>The same after the allocation of one page, which holds whatever the examples put there.\<close>

lemma one_page:
  "\<exists>t :: smp. kernel_room 19 t \<and> pager_ok t \<and> room 0xFFFFA00000000000 4096 t \<and> locks t = locks fresh_smp
    \<and> cores t = cores fresh_smp \<and> lapic_base_virt t = 0xFFFFA00000000000 \<and> heap_kernel t = 0xFFFFA00000001000
    \<and> (\<forall>k < 4096. tr t (0xFFFFA00000000000 + of_nat k) \<noteq> None)"
proof -
  have "kernel_room (1 + 19) fresh_smp"
    using fresh_smp_room by simp
  from alloc_room [OF this _ _ _ kernel_flags_ok, of 1] obtain t where
    t: "kernel_room 19 t" "unat (heap_kernel t) = unat (0xFFFFA00000000000 :: u64) + 4096" "pager_same fresh_smp t"
      "pager_ok t" "room 0xFFFFA00000000000 4096 t"
    by (auto simp: pages_of_def)
  have "tr t (0xFFFFA00000000000 + of_nat k) \<noteq> None" if "k < 4096" for k
    using t(5) that unfolding room_def on_data_def by force
  moreover have "heap_kernel t = 0xFFFFA00000001000"
    using t(2) by (simp add: word_unat_eq_iff)
  moreover have "pager.more t = pager.more fresh_smp" "locks t = locks fresh_smp"
    using t(3) by (simp_all add: pager_same_def)
  ultimately show ?thesis
    using t(1,4,5) pager_more_fields [of t fresh_smp] by (intro exI [of _ t]) simp
qed

lemma page_parts:
  assumes "room 0xFFFFA00000000000 4096 s"
  shows "room 0xFFFFA000000007C8 56 s" "room 0xFFFFA00000000C00 56 s"
    "places 0xFFFFA00000000C00 56 s \<inter> places 0xFFFFA000000007C8 56 s = {}"
proof -
  show "room 0xFFFFA000000007C8 56 s" "room 0xFFFFA00000000C00 56 s"
    using room_sub [OF assms, of "0x7C8" 56] room_sub [OF assms, of "0xC00" 56] by simp_all
  show "places 0xFFFFA00000000C00 56 s \<inter> places 0xFFFFA000000007C8 56 s = {}"
    using places_apart [OF assms, of "0xC00" 56 "0x7C8" 56] by simp
qed

section \<open>Properties\<close>

lemma sleeping_resumed: "sleeping q (resumed c d) s \<longleftrightarrow> sleeping q c s"
  by (simp add: sleeping_def saved_def resumed_def)

text \<open>
  C12. Yielding does not give way to another task. On a core whose idle thread sleeps with context
  \<open>c\<close>, \<open>smp_yield\<close> called by another thread switches to \<open>c\<close>, and the next round of the idle loop
  switches back to the caller, with every register as it was and the idle thread asleep with \<open>c\<close>
  again: the queue of the core, whatever tasks it holds, and all fields of all cores are the same as
  before the call, and every other thread whose stack is apart sleeps on.
\<close>

theorem smp_yield_resumes_caller:
  assumes "tr s (gs_base (this_cpu s)) \<noteq> None" and "core_self (core_at s (gs_base (this_cpu s))) = p"
    and "core_ready p s" and "shutdown_core (core_at s p) \<noteq> 1"
    and "cur = cur_thread (core_at s p)" and "idle = idle_thread (core_at s p)" and "cur \<noteq> 0" and "cur \<noteq> idle"
    and "sleeping idle c s" and "thread_bytes idle s \<inter> places (below s) 56 s = {}"
  shows "\<exists>t u. smp_yield s = Some ((), t) \<and> this_cpu t = resumed c (this_cpu s)
    \<and> ap_round dev p es t = Some (Task_run, u) \<and> this_cpu u = this_cpu s \<and> sleeping idle c u
    \<and> core_at u = core_at s \<and> tr u = tr s
    \<and> others_sleep {cur, idle} (thread_bytes idle s \<union> places (below s) 56 s) s u"
proof -
  let ?B = "places (below s) 56 s"
  note hyps = assms(5-10)
  from yield_sleeps [OF assms(1-3), folded assms(5,6), OF assms(9,8,10)] obtain t where
    t: "smp_yield s = Some ((), t)" "this_cpu t = resumed c (this_cpu s)" "sleeping cur (this_cpu s) t"
      "thread_bytes cur t = ?B" "others_sleep {cur} ?B s t"
      "core_at t = (core_at s)(p := (core_at s p)\<lparr>ready_list := cur, cur_thread := idle\<rparr>)"
      "thread_at t = (thread_at s)(cur := (thread_at s cur)\<lparr>tstatus := THREAD_STATUS_READY,
        tnext := ready_list (core_at s p), trsp := below s\<rparr>)"
      "locks t = locks s" "tr t = tr s" "pager_ok t"
    by (elim exE conjE)
  have i: "sleeping idle c t" "thread_bytes idle t = thread_bytes idle s"
    using t(5) assms(8-10) by (auto simp: others_sleep_def)
  have b: "below t = trsp (thread_at t idle)"
    using i(1) t(2) by (simp add: below_def sleeping_def)
  have B: "places (below t) 56 t = thread_bytes idle s"
    using i(2) unfolding b thread_bytes_def by simp
  have ready: "core_ready p t"
    using assms(3) i(1) t(6,8,9) unfolding core_ready_def b by (simp add: sleeping_def del: not_None_eq)
  have "ready_list (core_at t p) = cur" "shutdown_core (core_at t p) \<noteq> 1" "cur_thread (core_at t p) = idle"
    using t(6) assms(4) by simp_all
  from round_runs [OF ready this(2,1) assms(7) t(3), of dev es, unfolded this(3) t(4) B] assms(8,10)
  obtain u where u: "ap_round dev p es t = Some (Task_run, u)" "this_cpu u = resumed (this_cpu s) (this_cpu t)"
      "sleeping idle (this_cpu t) u" "others_sleep {idle} (thread_bytes idle s) t u"
      "core_at u = (core_at t)(p := (core_at t p)\<lparr>ready_list := tnext (thread_at t cur), cur_thread := cur\<rparr>)" "tr u = tr t"
    by (auto simp: Int_commute)
  have "core_at u = core_at s"
    unfolding u(5) t(6,7) using assms(5) by (simp add: fun_upd_idem)
  moreover have "others_sleep {cur, idle} (thread_bytes idle s \<union> ?B) s u"
    using others_sleep_trans [OF t(5) u(4)] by (simp add: insert_is_Un [of cur "{idle}"] Un_commute)
  moreover have "this_cpu u = this_cpu s"
    using u(2) t(2) by simp
  moreover have "sleeping idle c u"
    using u(3) by (simp add: t(2) sleeping_resumed)
  ultimately show ?thesis
    using t(1,2,9) u(1,6) by auto
qed

theorem smp_yield_resumes_caller_witness:
  "\<exists>(s :: smp) t u. smp_yield s = Some ((), t) \<and> cpu_rip (this_cpu t) = 0x2222
    \<and> ap_round (quiet_device 39) 0xFFFFA00000000000 0 t = Some (Task_run, u) \<and> cpu_rip (this_cpu u) = 0x1111
    \<and> this_cpu u = this_cpu s"
proof -
  obtain t :: smp where t: "pager_ok t" "room 0xFFFFA00000000000 4096 t" "locks t = locks fresh_smp"
      "\<forall>k < 4096. tr t (0xFFFFA00000000000 + of_nat k) \<noteq> None"
    using one_page by blast
  define c where "c = blank_cpu\<lparr>cpu_rsp := 0xFFFFA00000000C38, cpu_rip := 0x2222\<rparr>"
  have "room 0xFFFFA00000000C00 (8 * length (saved c)) t"
    using page_parts(2) [OF t(2)] by simp
  from push_room [OF this] obtain u where u: "same_map t u" "holds 0xFFFFA00000000C00 (rev (saved c)) u"
    by blast
  note r = same_map_places(4) [OF u(1) t(2)]
  have m: "tr u (0xFFFFA00000000000 + of_nat k) \<noteq> None" if "k < 4096" for k
    using t(4) u(1) that by (simp add: same_map_def)
  have m': "tr u 0xFFFFA00000000000 \<noteq> None" "tr u 0xFFFFA00000000100 \<noteq> None" "tr u 0xFFFFA00000000200 \<noteq> None"
    using m [of 0] m [of "0x100"] m [of "0x200"] by (simp_all del: not_None_eq)
  define s where "s = u\<lparr>core_at := \<lambda>_. blank_core\<lparr>core_self := 0xFFFFA00000000000, cur_thread := 0xFFFFA00000000100,
      idle_thread := 0xFFFFA00000000200\<rparr>,
    thread_at := \<lambda>_. blank_thread\<lparr>trsp := 0xFFFFA00000000C00\<rparr>,
    this_cpu := blank_cpu\<lparr>gs_base := 0xFFFFA00000000000, cpu_rsp := 0xFFFFA00000000800, cpu_rip := 0x1111\<rparr>\<rparr>"
  have l: "locks u l = False" for l
    using same_map_fields(5) [OF u(1)] t(3) by simp
  have b: "below s = 0xFFFFA000000007C8"
    by (simp add: s_def below_def)
  have sl: "sleeping 0xFFFFA00000000200 c s" "thread_bytes 0xFFFFA00000000200 s = places 0xFFFFA00000000C00 56 s"
    using m'(3) page_parts(2) [OF r] u(2)
    by (simp_all add: s_def sleeping_def c_def thread_bytes_def saved_def blank_cpu_def del: not_None_eq)
  have ready: "core_ready 0xFFFFA00000000000 s"
    using m'(1,2) l page_parts(1) [OF r] unfolding core_ready_def b by (simp add: s_def del: not_None_eq)
  have "\<exists>t u. smp_yield s = Some ((), t) \<and> this_cpu t = resumed c (this_cpu s)
    \<and> ap_round (quiet_device 39) 0xFFFFA00000000000 0 t = Some (Task_run, u) \<and> this_cpu u = this_cpu s
    \<and> sleeping 0xFFFFA00000000200 c u \<and> core_at u = core_at s \<and> tr u = tr s
    \<and> others_sleep {0xFFFFA00000000100, 0xFFFFA00000000200} (thread_bytes 0xFFFFA00000000200 s \<union> places (below s) 56 s) s u"
    by (rule smp_yield_resumes_caller [OF _ _ ready _ _ _ _ _ sl(1)])
       (use m'(1) page_parts(3) [OF r] sl(2) b in \<open>simp_all add: s_def blank_core_def del: not_None_eq\<close>)
  moreover have "cpu_rip (resumed c (this_cpu s)) = 0x2222" "cpu_rip (this_cpu s) = 0x1111"
    by (simp_all add: resumed_def c_def s_def)
  ultimately show ?thesis
    by metis
qed





end
