(* ===== verification/Smp_Cores.thy ===== *)
theory Smp_Cores
  imports Smp_Tasks
begin

text \<open>
  The cores themselves: the start of an application processor up to its loop, the search for a free
  core, and the shutdown of all cores.
\<close>

unbundle bit_operations_syntax

section \<open>The descriptor of a task state segment\<close>

text \<open>The base and the limit the processor reads from the two words of a descriptor.\<close>

definition segment_base :: "u64 \<Rightarrow> u64 \<Rightarrow> u64" where
  "segment_base lo hi = drop_bit 16 lo AND mask 24 OR push_bit 24 (drop_bit 56 lo) OR push_bit 32 (take_bit 32 hi)"

definition segment_limit :: "u64 \<Rightarrow> u64" where
  "segment_limit lo = take_bit 16 lo OR push_bit 16 (drop_bit 48 lo AND mask 4)"

lemma word_masks: "(0xFFFF :: u64) = mask 16" "(0xFF :: u64) = mask 8" "(0xFFFFFFFF :: u64) = mask 32"
  by (simp_all add: mask_eq_exp_minus_1)

lemma bit_beyond:
  "16 \<le> n \<Longrightarrow> \<not> bit (x :: u16) n" "8 \<le> n \<Longrightarrow> \<not> bit (y :: u8) n" "32 \<le> n \<Longrightarrow> \<not> bit (z :: u32) n"
  by (auto dest: bit_imp_le_length)

lemma bit_low_word:
  fixes l b :: u16 and m a f h :: u8
  assumes "n < 64"
  shows "bit (ucast l OR push_bit 16 (ucast b) OR push_bit 32 (ucast m) OR push_bit 40 (ucast a)
      OR push_bit 48 (ucast f) OR push_bit 56 (ucast h) :: u64) n
    = (if n < 16 then bit l n else if n < 32 then bit b (n - 16) else if n < 40 then bit m (n - 32)
       else if n < 48 then bit a (n - 40) else if n < 56 then bit f (n - 48) else bit h (n - 56))"
proof -
  consider "n < 16" | "16 \<le> n" "n < 32" | "32 \<le> n" "n < 40" | "40 \<le> n" "n < 48" | "48 \<le> n" "n < 56" | "56 \<le> n"
    by linarith
  then show ?thesis
    using assms by cases (auto simp: bit_or_iff bit_push_bit_iff bit_unsigned_iff bit_beyond)
qed

lemma low_word_parts:
  fixes l b :: u16 and m a f h :: u8
  defines "w \<equiv> (ucast l OR push_bit 16 (ucast b) OR push_bit 32 (ucast m) OR push_bit 40 (ucast a)
      OR push_bit 48 (ucast f) OR push_bit 56 (ucast h) :: u64)"
  shows "drop_bit 16 w AND mask 24 = ucast b OR push_bit 16 (ucast m)" "drop_bit 56 w = ucast h"
    "take_bit 16 w = ucast l" "drop_bit 48 w AND mask 4 = ucast f AND mask 4" "drop_bit 40 w AND mask 8 = ucast a"
proof -
  note w = bit_low_word [of _ l b m a f h, folded w_def]
  have far: "\<not> bit w n" if "64 \<le> n" for n
    using that by (auto dest: bit_imp_le_length)
  note bits = bit_and_iff bit_or_iff bit_push_bit_iff bit_drop_bit_eq bit_take_bit_iff bit_unsigned_iff bit_mask_iff
  show "drop_bit 16 w AND mask 24 = ucast b OR push_bit 16 (ucast m)"
  proof (rule bit_word_eqI)
    fix n
    assume "n < LENGTH(64)"
    consider "n < 16" | "16 \<le> n" "n < 24" | "24 \<le> n"
      by linarith
    then show "bit (drop_bit 16 w AND mask 24) n = bit (ucast b OR push_bit 16 (ucast m) :: u64) n"
      using \<open>n < LENGTH(64)\<close> by cases (auto simp: bits w bit_beyond)
  qed
  show "drop_bit 56 w = ucast h"
  proof (rule bit_word_eqI)
    fix n
    assume "n < LENGTH(64)"
    then show "bit (drop_bit 56 w) n = bit (ucast h :: u64) n"
      by (cases "n < 8") (simp_all add: bits w far bit_beyond)
  qed
  show "take_bit 16 w = ucast l"
  proof (rule bit_word_eqI)
    fix n
    assume "n < LENGTH(64)"
    then show "bit (take_bit 16 w) n = bit (ucast l :: u64) n"
      by (cases "n < 16") (simp_all add: bits w bit_beyond)
  qed
  show "drop_bit 48 w AND mask 4 = ucast f AND mask 4"
  proof (rule bit_word_eqI)
    fix n
    assume "n < LENGTH(64)"
    then show "bit (drop_bit 48 w AND mask 4) n = bit (ucast f AND mask 4 :: u64) n"
      by (cases "n < 4") (simp_all add: bits w bit_beyond)
  qed
  show "drop_bit 40 w AND mask 8 = ucast a"
  proof (rule bit_word_eqI)
    fix n
    assume "n < LENGTH(64)"
    then show "bit (drop_bit 40 w AND mask 8) n = bit (ucast a :: u64) n"
      by (cases "n < 8") (simp_all add: bits w bit_beyond)
  qed
qed

lemma base_parts:
  fixes base :: u64
  shows "ucast (ucast (base AND mask 16) :: u16) OR push_bit 16 (ucast (ucast (drop_bit 16 base AND mask 8) :: u8))
    OR push_bit 24 (ucast (ucast (drop_bit 24 base AND mask 8) :: u8))
    OR push_bit 32 (take_bit 32 (ucast (ucast (drop_bit 32 base AND mask 32) :: u32) OR push_bit 32 0)) = base"
proof (rule bit_word_eqI)
  fix n
  assume n: "n < LENGTH(64)"
  note bits = bit_and_iff bit_or_iff bit_push_bit_iff bit_drop_bit_eq bit_take_bit_iff bit_unsigned_iff bit_mask_iff
  consider "n < 16" | "16 \<le> n" "n < 24" | "24 \<le> n" "n < 32" | "32 \<le> n"
    by linarith
  then show "bit (ucast (ucast (base AND mask 16) :: u16) OR push_bit 16 (ucast (ucast (drop_bit 16 base AND mask 8) :: u8))
    OR push_bit 24 (ucast (ucast (drop_bit 24 base AND mask 8) :: u8))
    OR push_bit 32 (take_bit 32 (ucast (ucast (drop_bit 32 base AND mask 32) :: u32) OR push_bit 32 0)) :: u64) n = bit base n"
    using n by cases (auto simp: bits)
qed

lemma tss_descriptor_decodes:
  assumes "descriptor_words (tss_descriptor base) = [lo, hi]"
  shows "segment_base lo hi = base" "segment_limit lo = 105" "drop_bit 40 lo AND mask 8 = 0x89"
proof -
  have lo: "lo = ucast (limit_low (tss_descriptor base)) OR push_bit 16 (ucast (base_low (tss_descriptor base)))
      OR push_bit 32 (ucast (base_mid (tss_descriptor base)))
      OR push_bit 40 (ucast (access (tss_descriptor base))) OR push_bit 48 (ucast (limit_high_flags (tss_descriptor base)))
      OR push_bit 56 (ucast (base_high_mid (tss_descriptor base)))"
    and hi: "hi = ucast (base_high (tss_descriptor base)) OR push_bit 32 (ucast (desc_reserved (tss_descriptor base)))"
    using assms by (simp_all add: descriptor_words_def)
  show "segment_base lo hi = base"
    using base_parts [of base]
    unfolding segment_base_def lo low_word_parts hi by (simp add: tss_descriptor_def word_masks or.assoc)
  show "segment_limit lo = 105" "drop_bit 40 lo AND mask 8 = 0x89"
    unfolding segment_limit_def lo low_word_parts by (simp_all add: tss_descriptor_def)
qed

section \<open>Starting a processor\<close>

definition lapic_mapped :: "'a smp_scheme \<Rightarrow> bool" where
  "lapic_mapped s \<longleftrightarrow> (\<forall>r \<in> {0x20, 0x80, 0xF0, 0x300, 0x310, 0x320, 0x380, 0x3E0}. tr s (lapic_base_virt s + r) \<noteq> None)"

lemma older_keeps: "older s t \<Longrightarrow> pager_ok t \<Longrightarrow> keeps {} s t"
  by (simp add: keeps_def older_room) (simp add: older_def)

lemma keeps_trans: "keeps {} s t \<Longrightarrow> keeps {} t u \<Longrightarrow> keeps {} s u"
proof -
  assume a: "keeps {} s t" "keeps {} t u"
  have "tr u v = tr s v" if "tr s v \<noteq> None" for v
    using a that unfolding keeps_def by (metis (no_types))
  moreover have "room b l u \<and> places b l u = places b l s \<and> vld b l u = vld b l s" if "room b l s" for b l
    using a that unfolding keeps_def by (metis (no_types))
  ultimately show ?thesis
    by (simp add: keeps_def)
qed

section \<open>Stopping the cores\<close>

text \<open>What \<open>smp_shutdown\<close> writes for one core, newest event first.\<close>

definition stop_events :: "u64 \<Rightarrow> 'a smp_scheme \<Rightarrow> io_event list" where
  "stop_events p s =
     (let low = place s (lapic_base_virt s + 0x300); high = place s (lapic_base_virt s + 0x310)
      in if p = 0 then []
         else [MmioRead low, MmioWrite low 0x4000, MmioRead low, MmioWrite low 0x4500,
               MmioRead high, MmioWrite high (push_bit 24 (lapic_id (core_at s p)))])"

definition stopped :: "u64 set \<Rightarrow> (u64 \<Rightarrow> core_state) \<Rightarrow> u64 \<Rightarrow> core_state" where
  "stopped P cs q = (if q \<noteq> 0 \<and> q \<in> P then (cs q)\<lparr>shutdown_core := 1\<rparr> else cs q)"

lemma delay_uncalibrated: "tsc_ticks_per_ms (ftimer_st s) = 0 \<Longrightarrow> delay dev ms s = Some ((), s)"
  by (cases s) (simp add: delay_def fdelay_def)

lemma stop_core_stops:
  assumes "tr s (lapic_base_virt s + 0x300) \<noteq> None" "tr s (lapic_base_virt s + 0x310) \<noteq> None"
    and "tsc_ticks_per_ms (ftimer_st s) = 0" and "p \<noteq> 0 \<Longrightarrow> tr s p \<noteq> None"
  shows "stop_core dev p s = Some ((), s\<lparr>core_at := stopped {p} (core_at s), io := stop_events p s @ io s\<rparr>)"
proof (cases "p = 0")
  case True
  have "stopped {0} (core_at s) = core_at s"
    by (simp add: fun_eq_iff stopped_def)
  then show ?thesis
    using True by (simp add: stop_core_def stop_events_def)
next
  case False
  have st: "(core_at s)(p := (core_at s p)\<lparr>shutdown_core := 1\<rparr>) = stopped {p} (core_at s)"
    using False by (auto simp: stopped_def)
  have w: "lapic_write dev r v (s\<lparr>core_at := c, io := h\<rparr>) = Some ((), s\<lparr>core_at := c,
      io := MmioRead (place s (lapic_base_virt s + ucast r)) # MmioWrite (place s (lapic_base_virt s + ucast r)) v # h\<rparr>)"
    if "tr s (lapic_base_virt s + ucast r) \<noteq> None" for r v c h
    using that lapic_write_mapped [of "s\<lparr>core_at := c, io := h\<rparr>" r dev v] by (simp del: not_None_eq)
  have w0: "lapic_write dev r v (s\<lparr>core_at := c\<rparr>) = Some ((), s\<lparr>core_at := c,
      io := MmioRead (place s (lapic_base_virt s + ucast r)) # MmioWrite (place s (lapic_base_virt s + ucast r)) v # io s\<rparr>)"
    if "tr s (lapic_base_virt s + ucast r) \<noteq> None" for r v c
    using that lapic_write_mapped [of "s\<lparr>core_at := c\<rparr>" r dev v] by (simp del: not_None_eq)
  show ?thesis
    using assms False
    by (simp add: stop_core_def edit_core_def core_of_def w w0 st delay_uncalibrated lapic_defs stop_events_def Let_def
        del: not_None_eq) (simp add: stopped_def)
qed

lemma stop_cores_stop:
  assumes "\<forall>i \<in> set is. cores s ! i \<noteq> 0 \<longrightarrow> tr s (cores s ! i) \<noteq> None"
    and "tr s (lapic_base_virt s + 0x300) \<noteq> None" "tr s (lapic_base_virt s + 0x310) \<noteq> None"
    and "tsc_ticks_per_ms (ftimer_st s) = 0"
  shows "for_each (\<lambda>i s. stop_core dev (cores s ! i) s) is s
    = Some ((), s\<lparr>core_at := stopped (set (map ((!) (cores s)) is)) (core_at s),
        io := concat (map (\<lambda>i. stop_events (cores s ! i) s) (rev is)) @ io s\<rparr>)"
  using assms
proof (induction "is" arbitrary: s)
  case Nil
  have "stopped {} (core_at s) = core_at s"
    by (simp add: fun_eq_iff stopped_def)
  then show ?case
    by simp
next
  case (Cons i "is")
  let ?p = "cores s ! i"
  let ?s = "s\<lparr>core_at := stopped {?p} (core_at s), io := stop_events ?p s @ io s\<rparr>"
  have "stop_core dev ?p s = Some ((), ?s)"
    by (rule stop_core_stops) (use Cons.prems in simp_all)
  moreover have "for_each (\<lambda>i s. stop_core dev (cores s ! i) s) is ?s
    = Some ((), ?s\<lparr>core_at := stopped (set (map ((!) (cores ?s)) is)) (core_at ?s),
        io := concat (map (\<lambda>i. stop_events (cores ?s ! i) ?s) (rev is)) @ io ?s\<rparr>)"
    by (rule Cons.IH) (use Cons.prems in \<open>simp_all del: not_None_eq\<close>)
  moreover have "stopped P (stopped {?p} (core_at s)) = stopped (insert ?p P) (core_at s)" for P
    by (auto simp: fun_eq_iff stopped_def)
  moreover have "stop_events q ?s = stop_events q s" for q
    by (simp add: stop_events_def stopped_def Let_def)
  ultimately show ?case
    by simp
qed

lemma smp_shutdown_result:
  assumes "length (cores s) = 256" and "\<forall>p \<in> set (cores s). p \<noteq> 0 \<longrightarrow> tr s p \<noteq> None"
    and "tr s (lapic_base_virt s + 0x300) \<noteq> None" "tr s (lapic_base_virt s + 0x310) \<noteq> None"
    and "tsc_ticks_per_ms (ftimer_st s) = 0"
  shows "smp_shutdown dev s = Some ((), s\<lparr>core_at := stopped (set (cores s)) (core_at s),
    io := concat (map (\<lambda>p. stop_events p s) (rev (cores s))) @ io s\<rparr>)"
proof -
  have m: "map ((!) (cores s)) [0..<256] = cores s"
    using map_nth [of "cores s"] assms(1) by simp
  have "for_each (\<lambda>i s. stop_core dev (cores s ! i) s) [0..<256] s
    = Some ((), s\<lparr>core_at := stopped (set (map ((!) (cores s)) [0..<256])) (core_at s),
        io := concat (map (\<lambda>i. stop_events (cores s ! i) s) (rev [0..<256])) @ io s\<rparr>)"
    by (rule stop_cores_stop) (use assms in simp_all)
  moreover have "map (\<lambda>i. stop_events (cores s ! i) s) (rev [0..<256]) = map (\<lambda>p. stop_events p s) (rev (cores s))"
    unfolding arg_cong [OF m, of rev, symmetric] by (simp add: rev_map)
  ultimately show ?thesis
    unfolding m smp_shutdown_def by simp
qed

section \<open>A window on low memory\<close>

text \<open>The example state with a page of data at the start of the direct map as well.\<close>

lemma low_window:
  "\<exists>t :: smp. kernel_room 18 t \<and> room AOS_DIRECT_MAP_BASE 4096 t \<and> heap_kernel t = 0xFFFFA00000001000
    \<and> lapic_base_virt t = 0xFFFFA00000000000 \<and> (\<forall>k < 4096. tr t (0xFFFFA00000000000 + of_nat k) \<noteq> None)"
proof -
  have can: "canonical AOS_DIRECT_MAP_BASE"
    by (intro canonical_high) (simp add: space_defs)
  have "kernel_room (1 + 19) fresh_smp"
    using fresh_smp_room by simp
  from kernel_room_alloc [OF this _ _ _ kernel_flags_ok, of 1] obtain p t where
    t: "0 < p" "p + 1 \<le> BITMAP_SIZE" "kernel_room 19 t" "unat (heap_kernel t) = unat (0xFFFFA00000000000 :: u64) + 4096"
      "pager_same fresh_smp t" "p \<in> used t" "data_page p t"
      "tr t = filled 0xFFFFA00000000000 (frame p) 4096 (attr (scast kernel_flags)) (tr fresh_smp)"
    by (auto simp: pages_of_def)
  have fresh: "tr fresh_smp = (\<lambda>_. None)"
  proof -
    have "pager.truncate fresh_smp = fresh_pager"
      by (simp add: fresh_smp_def smp_over_def pager.defs)
    then show ?thesis
      using truncate_views(1) [of fresh_smp] fresh_tr by (simp only:)
  qed
  have none: "tr t AOS_DIRECT_MAP_BASE = None"
    by (simp add: t(8) filled_def fresh space_defs)
  have small: "\<forall>e. leaf (mem t) (root t) (vpath AOS_DIRECT_MAP_BASE) \<noteq> Some (e, 1)"
    using none can by (auto simp: tr_def translate_def page_of_def)
  note r = t(3) [unfolded kernel_room_def]
  have pool: "pool t (92 + 3)"
    using r by simp
  have "unat (frame p) < 2 ^ 29"
    using t(2) by (simp add: unat_frame BITMAP_SIZE_def)
  moreover have "(2 :: nat) ^ 29 \<le> 2 ^ unat (cpu_phys_bits t)"
    using r by (intro power_increasing) (simp_all add: word_le_nat_alt)
  ultimately have "unat (frame p) < 2 ^ unat (cpu_phys_bits t)"
    by linarith
  from pager_map_spec [OF _ pool _ this can small, of 3] r obtain w where
    w: "pager_map AOS_DIRECT_MAP_BASE (frame p) 3 t = Some (firmware_pml4 t, w)" "pager_ok w" "pool w 92"
      "pager_same t w" "kept t w" "tr w = remap 12 AOS_DIRECT_MAP_BASE (frame p) 3 (tr t)"
    by (auto simp: PAGE_HUGE_def)
  have h: "header_index w \<le> header_index t + 3" "heap_kernel w = heap_kernel t"
    using modest_map [OF w(1)] by (simp_all add: modest_def)
  have hw: "heap_kernel w = 0xFFFFA00000001000"
    using t(4) h(2) by (simp add: word_unat_eq_iff)
  have far: "drop_bit 12 v \<noteq> drop_bit 12 AOS_DIRECT_MAP_BASE" if "unat (0xFFFFA00000000000 :: u64) \<le> unat v" for v
  proof
    assume "drop_bit 12 v = drop_bit 12 AOS_DIRECT_MAP_BASE"
    then have "unat v div 4096 = unat AOS_DIRECT_MAP_BASE div 4096"
      using unat_drop [of 12 v] unat_drop [of 12 AOS_DIRECT_MAP_BASE] by simp
    then have "unat v < unat AOS_DIRECT_MAP_BASE + 4096"
      using mod_less_divisor [of 4096 "unat v"] div_mult_mod_eq [of "unat v" 4096]
        div_mult_mod_eq [of "unat AOS_DIRECT_MAP_BASE" 4096] by linarith
    then show False
      using that by (simp add: space_defs)
  qed
  have "kernel_room 18 w"
    unfolding kernel_room_def
  proof (intro conjI)
    show "range_free (heap_kernel w) (4096 * 18) w"
      using r far unfolding range_free_def w(6) h(2) remap_def by (auto simp: t(4))
    show "pool w (5 * 18)"
      by (rule pool_mono [OF w(3)]) simp
  qed (use r w(2,4) h in \<open>simp_all add: pager_same_def\<close>)
  moreover have "room AOS_DIRECT_MAP_BASE 4096 w"
  proof -
    have pw: "p \<in> used w" "data_page p w"
      using keptD [OF w(5) t(6)] t(2,7) by (simp_all add: data_page_def)
    have tw: "tr w (AOS_DIRECT_MAP_BASE + of_nat k) = Some (frame p + of_nat k, attr 3)" if k: "k < 4096" for k
    proof -
      have u: "unat (AOS_DIRECT_MAP_BASE + of_nat k) = unat AOS_DIRECT_MAP_BASE + k"
        using k by (subst unat_plus_less) (simp_all add: unat_of_nat_small space_defs)
      have d: "drop_bit 12 (AOS_DIRECT_MAP_BASE + of_nat k) = drop_bit 12 AOS_DIRECT_MAP_BASE"
        using k by (simp add: word_unat_eq_iff unat_drop u) (simp add: space_defs)
      have m: "(AOS_DIRECT_MAP_BASE + of_nat k) AND mask 12 = of_nat k"
      proof -
        have "unat AOS_DIRECT_MAP_BASE mod 4096 = 0"
          by (simp add: space_defs)
        then have "(unat AOS_DIRECT_MAP_BASE + k) mod 4096 = k"
          using k mod_add_left_eq [of "unat AOS_DIRECT_MAP_BASE" 4096 k] by (simp only: add_0 mod_less)
        then show ?thesis
          using k by (simp add: word_unat_eq_iff unat_and_mask u unat_of_nat_small)
      qed
      have "canonical (AOS_DIRECT_MAP_BASE + of_nat k)"
        using k by (intro canonical_high) (simp add: word_le_nat_alt u, simp add: space_defs)
      then show ?thesis
        unfolding w(6) remap_def d m using t(2) by (simp add: frame_page)
    qed
    have "on_data AOS_DIRECT_MAP_BASE 4096 w"
      unfolding on_data_def using pw tw by blast
    moreover have "inj_on (\<lambda>k. place w (AOS_DIRECT_MAP_BASE + of_nat k)) {..<4096}"
    proof (rule inj_onI)
      fix i j :: nat
      assume ij: "i \<in> {..<4096}" "j \<in> {..<4096}"
        "place w (AOS_DIRECT_MAP_BASE + of_nat i) = place w (AOS_DIRECT_MAP_BASE + of_nat j)"
      then have e: "(of_nat i :: u64) = of_nat j"
        using tw [of i] tw [of j] by (simp add: place_def)
      have "i < 2 ^ LENGTH(64)" "j < 2 ^ LENGTH(64)"
        using ij(1,2) by simp_all
      note u = unat_of_nat_small [OF this(1)] unat_of_nat_small [OF this(2)]
      show "i = j"
        using arg_cong [OF e, of unat] unfolding u .
    qed
    ultimately show ?thesis
      using w(2) by (simp add: room_def)
  qed
  moreover have "tr w (0xFFFFA00000000000 + of_nat k) \<noteq> None" if "k < 4096" for k
  proof -
    have "unat (0xFFFFA00000000000 + of_nat k :: u64) = unat (0xFFFFA00000000000 :: u64) + k"
      using that by (subst unat_plus_less) (simp_all add: unat_of_nat_small)
    then show ?thesis
      using that by (simp add: w(6) remap_def t(8) filled_def)
  qed
  moreover have "lapic_base_virt w = 0xFFFFA00000000000"
  proof -
    have "pager.more t = pager.more fresh_smp" "pager.more w = pager.more t"
      using t(5) w(4) by (simp_all add: pager_same_def)
    then show ?thesis
      using pager_more_fields [of w t] pager_more_fields [of t fresh_smp] by simp
  qed
  ultimately show ?thesis
    using hw by blast
qed

section \<open>Properties\<close>



text \<open>
  \<open>smp_get_first_free_core\<close> is a search: when the structures of the registered cores are mapped
  it returns the index stored in the first registered core that is ready, or nothing.
\<close>

theorem first_free_core_is_first:
  assumes "\<forall>p \<in> set (cores s). p \<noteq> 0 \<longrightarrow> tr s p \<noteq> None"
  shows "smp_get_first_free_core s = Some (map_option (\<lambda>p. core_idx (core_at s p))
    (find (\<lambda>p. p \<noteq> 0 \<and> cstatus (core_at s p) = CORE_STATUS_READY) (cores s)), s)"
proof -
  have "first_free ps s = Some (map_option (\<lambda>p. core_idx (core_at s p))
      (find (\<lambda>p. p \<noteq> 0 \<and> cstatus (core_at s p) = CORE_STATUS_READY) ps))"
    if "\<forall>p \<in> set ps. p \<noteq> 0 \<longrightarrow> tr s p \<noteq> None" for ps
    using that by (induction ps) (simp_all add: core_of_def del: not_None_eq)
  from this [OF assms] show ?thesis
    by (simp add: smp_get_first_free_core_def)
qed

theorem first_free_core_is_first_witness:
  "\<exists>s :: smp. smp_get_first_free_core s = Some (Some 7, s)"
proof -
  obtain t :: smp where t: "cores t = (replicate 256 0)[2 := 0xFFFFA00000000000]"
      "\<forall>k < 4096. tr t (0xFFFFA00000000000 + of_nat k) \<noteq> None"
    using one_page by auto
  define s where "s = t\<lparr>core_at := \<lambda>_. blank_core\<lparr>core_idx := 7\<rparr>\<rparr>"
  have c: "cores s = replicate 2 0 @ 0xFFFFA00000000000 # replicate 253 0"
    by (simp add: s_def t(1) upd_conv_take_nth_drop)
  have "\<forall>p \<in> set (cores s). p \<noteq> 0 \<longrightarrow> tr s p \<noteq> None"
    using t(2) [rule_format, of 0] unfolding c by (simp add: s_def del: not_None_eq)
  note free = first_free_core_is_first [OF this]
  have "replicate 2 (0 :: u64) = [0, 0]"
    by (simp add: numeral_2_eq_2)
  then have "find (\<lambda>p. p \<noteq> 0 \<and> cstatus (core_at s p) = CORE_STATUS_READY) (cores s) = Some 0xFFFFA00000000000"
    unfolding c by (simp add: s_def blank_core_def)
  then have "smp_get_first_free_core s = Some (Some 7, s)"
    using free by (simp add: s_def)
  then show ?thesis
    by blast
qed

text \<open>
  C16. \<open>smp_shutdown\<close>, with the time stamp counter never calibrated, flags every registered core, the
  one that executes it included, and sends each of them, in the order of the table, the assertion and
  the release of INIT, and does nothing else.
\<close>

theorem smp_shutdown_stops_every_core:
  assumes "length (cores s) = 256" and "\<forall>p \<in> set (cores s). p \<noteq> 0 \<longrightarrow> tr s p \<noteq> None"
    and "tr s (lapic_base_virt s + 0x300) \<noteq> None" "tr s (lapic_base_virt s + 0x310) \<noteq> None"
    and "tsc_ticks_per_ms (ftimer_st s) = 0"
  shows "smp_shutdown dev s = Some ((), s\<lparr>core_at := stopped (set (cores s)) (core_at s),
    io := concat (map (\<lambda>p. stop_events p s) (rev (cores s))) @ io s\<rparr>)"
  by (rule smp_shutdown_result [OF assms])

theorem smp_shutdown_stops_every_core_witness:
  "\<exists>(s :: smp) t. smp_shutdown (quiet_device 39) s = Some ((), t)
    \<and> shutdown_core (core_at t 0xFFFFA00000000000) = 1 \<and> length (io t) = length (io s) + 6"
proof -
  obtain t :: smp where t: "cores t = (replicate 256 0)[2 := 0xFFFFA00000000000]" "lapic_base_virt t = 0xFFFFA00000000000"
      "\<forall>k < 4096. tr t (0xFFFFA00000000000 + of_nat k) \<noteq> None"
    using one_page by auto
  define s where "s = t\<lparr>ftimer_st := \<lparr>tsc_ticks_per_ms = 0, rdtscp_supported = False\<rparr>\<rparr>"
  have c: "cores s = replicate 2 0 @ 0xFFFFA00000000000 # replicate 253 0"
    by (simp add: s_def t(1) upd_conv_take_nth_drop)
  have trs: "tr s = tr t"
    by (rule tr_view) (simp_all add: s_def)
  have lb: "lapic_base_virt s = 0xFFFFA00000000000"
    by (simp add: s_def t(2))
  have m: "\<forall>p \<in> set (cores s). p \<noteq> 0 \<longrightarrow> tr s p \<noteq> None" "tr s (lapic_base_virt s + 0x300) \<noteq> None"
      "tr s (lapic_base_virt s + 0x310) \<noteq> None"
    using t(3) [rule_format, of 0] t(3) [rule_format, of "0x300"] t(3) [rule_format, of "0x310"]
    unfolding c trs lb by (simp_all del: not_None_eq)
  have "length (cores s) = 256" "tsc_ticks_per_ms (ftimer_st s) = 0"
    by (simp_all add: c) (simp add: s_def)
  from smp_shutdown_stops_every_core [OF this(1) m this(2), of "quiet_device 39"] show ?thesis
    by (intro exI [of _ s] exI conjI, assumption) (simp_all add: c stopped_def stop_events_def Let_def)
qed

end
