(* ===== verification/Acpi_Power.thy ===== *)
theory Acpi_Power
  imports Smp_Cores
begin

text \<open>
  Reboot and shutdown of acpi.c. Both clear the byte of the CMOS memory that the kernel left there
  and wait until it reads back as zero; the reboot then tries every way to reset the machine, one
  after the other. \<open>local_idt\<close> stands for the address of the local table descriptor on the stack.
  A function that stops the processor ends in the state with the \<open>Hlt\<close>.
\<close>

unbundle bit_operations_syntax

section \<open>Operations\<close>

definition CMOS_BYTE_IDX_KERNEL_INFO :: u8 where "CMOS_BYTE_IDX_KERNEL_INFO = 0x1B"

text \<open>The bounded wait for the keyboard controller.\<close>

fun poll_8042 :: "device \<Rightarrow> nat \<Rightarrow> 'a mach_scheme \<Rightarrow> 'a mach_scheme" where
  "poll_8042 dev 0 s = s"
| "poll_8042 dev (Suc n) s =
     (let (v, s) = inb dev 0x64 s in if v AND 0x02 = 0 then s else poll_8042 dev n s)"

definition polls_8042 :: nat where "polls_8042 = 100000"

definition acpi_8042_reboot :: "device \<Rightarrow> 'a mach_scheme \<Rightarrow> 'a mach_scheme" where
  "acpi_8042_reboot dev s = outb 0x64 0xFE (poll_8042 dev polls_8042 s)"

definition reset_reg_field :: "u64 \<Rightarrow> string \<Rightarrow> u64" where
  "reset_reg_field fadt f = fld (fld fadt acpi_fadt ''reset_reg'') acpi_generic_address_structure f"

definition acpi_io_reboot :: "('a smp_scheme, unit) op" where
  "acpi_io_reboot s =
     (let fadt = fadt_table (acpi_st s) in
      if fadt = 0 then Some ((), s)
      else do {
        addr \<leftarrow> vrd64 (reset_reg_field fadt ''address'') s;
        val \<leftarrow> vrd8 (fld fadt acpi_fadt ''reset_val'') s;
        Some ((), outb (ucast addr) val s) })"

definition acpi_pci_reboot :: "device \<Rightarrow> ('a smp_scheme, unit) op" where
  "acpi_pci_reboot dev s = do {
     (_, s) \<leftarrow> delay dev 1 (outb 0xCF9 0x02 s);
     Some ((), outb 0xCF9 0x06 s) }"

definition acpi_triple_fault_reboot :: "u64 \<Rightarrow> 'a mach_scheme \<Rightarrow> 'a mach_scheme" where
  "acpi_triple_fault_reboot local_idt s = event Int3 (event (Lidt local_idt) s)"

text \<open>The writes to the CMOS memory and the loop until the byte reads zero, which has no bound.\<close>

definition cmos_select :: "device \<Rightarrow> 'a mach_scheme \<Rightarrow> u8 \<times> 'a mach_scheme" where
  "cmos_select dev s = inb dev 0x71 (outb 0x70 (CMOS_BYTE_IDX_KERNEL_INFO OR 0x80) s)"

partial_function (option) cmos_wait :: "device \<Rightarrow> 'a mach_scheme \<Rightarrow> (unit \<times> 'a mach_scheme) option" where
  "cmos_wait dev s =
     (if fst (cmos_select dev s) \<noteq> 0 then cmos_wait dev (snd (cmos_select dev s))
      else Some ((), snd (cmos_select dev s)))"

definition cmos_clear :: "device \<Rightarrow> ('a mach_scheme, unit) op" where
  "cmos_clear dev s = do {
     (_, s) \<leftarrow> cmos_wait dev (outb 0x71 0 (outb 0x70 (CMOS_BYTE_IDX_KERNEL_INFO OR 0x80) s));
     Some ((), outb 0x70 0 s) }"

text \<open>The ways that are left after the reset register, then the halt.\<close>

definition reset_machine :: "device \<Rightarrow> u64 \<Rightarrow> ('a smp_scheme, unit) op" where
  "reset_machine dev local_idt s = do {
     (_, s) \<leftarrow> acpi_pci_reboot dev (acpi_8042_reboot dev s);
     Some ((), event Hlt (acpi_triple_fault_reboot local_idt s)) }"

definition acpi_reboot :: "device \<Rightarrow> u64 \<Rightarrow> ('a smp_scheme, unit) op" where
  "acpi_reboot dev local_idt s = do {
     (_, s) \<leftarrow> smp_shutdown dev s;
     (_, s) \<leftarrow> cmos_clear dev s;
     let fadt = fadt_table (acpi_st s);
     if fadt = 0 then reset_machine dev local_idt s
     else do {
       (virt, s) \<leftarrow> avmf_alloc_virt 1 MALLOC_TYPE_KERNEL s;
       if virt = 0 then reset_machine dev local_idt s
       else do {
         space \<leftarrow> vrd8 (reset_reg_field fadt ''address_space'') s;
         (_, s) \<leftarrow> (if space = 0 then do {
              addr \<leftarrow> vrd64 (reset_reg_field fadt ''address'') s;
              val \<leftarrow> vrd8 (fld fadt acpi_fadt ''reset_val'') s;
              s \<leftarrow> vst (AOS_DIRECT_MAP_BASE + addr) [val] s;
              Some ((), s) }
            else acpi_io_reboot s);
         reset_machine dev local_idt s } } }"

definition acpi_shutdown :: "device \<Rightarrow> ('a smp_scheme, unit) op" where
  "acpi_shutdown dev s = do {
     (_, s) \<leftarrow> cmos_clear dev s;
     Some ((), event Hlt (cli s)) }"

section \<open>The wait for the CMOS memory\<close>

lemma cmos_stuck:
  "cmos_wait dev s = Some r \<Longrightarrow> \<forall>h. dev_in8 dev h 0x71 \<noteq> 0 \<Longrightarrow> False"
proof (induction dev s r rule: cmos_wait.raw_induct [rotated, consumes 1, case_names step])
  case (step rec dev s r)
  then have "rec dev (snd (cmos_select dev s)) = Some r"
    by (simp add: cmos_select_def inb_def)
  then show ?case
    using step(1,3) by (cases r) blast
qed

lemma cmos_clear_ready:
  assumes "\<forall>h. dev_in8 dev h 0x71 = 0"
  shows "cmos_clear dev s = Some ((), s\<lparr>io := [Out8 0x70 0, In8 0x71, Out8 0x70 0x9B, Out8 0x71 0, Out8 0x70 0x9B] @ io s\<rparr>)"
  using assms
  by (simp add: cmos_clear_def cmos_wait.simps [of dev] cmos_select_def inb_def outb_def event_def
      CMOS_BYTE_IDX_KERNEL_INFO_def)

lemma reset_machine_events:
  assumes "\<forall>h. dev_in8 dev h 0x64 AND 0x02 = 0" and "tsc_ticks_per_ms (ftimer_st s) = 0"
  shows "reset_machine dev local_idt s = Some ((), s\<lparr>io := [Hlt, Int3, Lidt local_idt, Out8 0xCF9 0x06, Out8 0xCF9 0x02,
    Out8 0x64 0xFE, In8 0x64] @ io s\<rparr>)"
proof -
  have "poll_8042 dev polls_8042 t = event (In8 0x64) t" for t :: "'a smp_scheme"
  proof -
    have "poll_8042 dev (Suc n) t = event (In8 0x64) t" for n
      using assms(1) by (simp add: inb_def)
    moreover have "polls_8042 = Suc 99999"
      by (simp add: polls_8042_def)
    ultimately show ?thesis
      by metis
  qed
  then show ?thesis
    using assms(2)
    by (simp add: reset_machine_def acpi_8042_reboot_def acpi_pci_reboot_def acpi_triple_fault_reboot_def delay_uncalibrated
        outb_def event_def)
qed

section \<open>Properties\<close>

text \<open>
  C18. A CMOS byte that never reads zero stops both functions for ever: \<open>acpi_shutdown\<close> never halts
  the processor and \<open>acpi_reboot\<close> resets nothing, whatever the state.
\<close>

theorem power_waits_for_cmos:
  assumes "\<forall>h. dev_in8 dev h 0x71 \<noteq> 0"
  shows "acpi_shutdown dev s = None \<and> acpi_reboot dev local_idt s = None"
proof -
  have "cmos_wait dev t = None" for t :: "'a smp_scheme"
    using cmos_stuck [OF _ assms] by (cases "cmos_wait dev t") auto
  then have "cmos_clear dev t = None" for t :: "'a smp_scheme"
    by (simp add: cmos_clear_def)
  then show ?thesis
    by (auto simp: acpi_shutdown_def acpi_reboot_def split: Option.bind_split)
qed

theorem power_waits_for_cmos_witness:
  "acpi_shutdown (quiet_device 39\<lparr>dev_in8 := \<lambda>_ _. 0xFF\<rparr>) fresh_smp = None"
  using power_waits_for_cmos [of "quiet_device 39\<lparr>dev_in8 := \<lambda>_ _. 0xFF\<rparr>" fresh_smp] by simp

text \<open>
  C17. The order of a reboot. With the time stamp counter never calibrated, a keyboard controller that
  is ready, a CMOS byte that reads zero and a fixed description table that names an I/O port as its
  reset register, \<open>acpi_reboot\<close> does exactly this: it stops every registered core, clears the CMOS
  byte and reads it back, writes the reset value to the low 16 bits of the register's address, and
  then tries the keyboard controller, the PCI reset port and the fault without a table before it
  halts. Memory is as it was.
\<close>

theorem acpi_reboot_order:
  assumes "length (cores s) = 256" and "\<forall>p \<in> set (cores s). p \<noteq> 0 \<longrightarrow> tr s p \<noteq> None"
    and "tr s (lapic_base_virt s + 0x300) \<noteq> None" "tr s (lapic_base_virt s + 0x310) \<noteq> None"
    and "tsc_ticks_per_ms (ftimer_st s) = 0"
    and "\<forall>h. dev_in8 dev h 0x71 = 0" and "\<forall>h. dev_in8 dev h 0x64 AND 0x02 = 0"
    and "fadt_table (acpi_st s) = fadt" and "fadt \<noteq> 0"
    and "\<not> locks s Avmf_lock" and "heap_kernel s \<noteq> 0"
    and "heap_kernel s + 0x1000 \<le> AOS_DRIVER_SPACE_BASE"
    and "vrd8 (fadt + 116) s = Some space" and "space \<noteq> 0"
    and "vrd64 (fadt + 120) s = Some addr" and "vrd8 (fadt + 128) s = Some val"
  shows "\<exists>t. acpi_reboot dev local_idt s = Some ((), t) \<and> mem t = mem s
    \<and> io t = [Hlt, Int3, Lidt local_idt, Out8 0xCF9 0x06, Out8 0xCF9 0x02, Out8 0x64 0xFE, In8 0x64,
        Out8 (ucast addr) val,
        Out8 0x70 0, In8 0x71, Out8 0x70 0x9B, Out8 0x71 0, Out8 0x70 0x9B]
      @ concat (map (\<lambda>p. stop_events p s) (rev (cores s))) @ io s"
proof -
  let ?cmos = "[Out8 0x70 0, In8 0x71, Out8 0x70 0x9B, Out8 0x71 0, Out8 0x70 0x9B]"
  let ?stops = "concat (map (\<lambda>p. stop_events p s) (rev (cores s)))"
  define s1 where "s1 = s\<lparr>core_at := stopped (set (cores s)) (core_at s), io := ?cmos @ ?stops @ io s\<rparr>"
  define s2 where "s2 = s1\<lparr>heap_kernel := heap_kernel s + 0x1000\<rparr>"
  have f: "fld p acpi_generic_address_structure ''address'' = p + 4"
    "fld p acpi_generic_address_structure ''address_space'' = p" for p
    by (simp_all add: fld_def acpi_generic_address_structure_def)
  have start: "smp_shutdown dev s = Some ((), s\<lparr>core_at := stopped (set (cores s)) (core_at s), io := ?stops @ io s\<rparr>)"
    by (rule smp_shutdown_result [OF assms(1-5)])
  have al: "align4k 1 = 0x1000"
    by (simp add: align4k_def PAGE_SIZE_def)
  have v: "avmf_alloc_virt 1 MALLOC_TYPE_KERNEL s1 = Some (heap_kernel s, s2)"
  proof -
    have "\<not> AOS_DRIVER_SPACE_BASE < heap_kernel s + 0x1000"
      using assms(12) by (simp add: not_less)
    moreover have "\<not> locks s1 Avmf_lock" "heap_kernel s1 = heap_kernel s"
      using assms(10) by (simp_all add: s1_def)
    ultimately show ?thesis
      using alloc_virt_cases [of s1 1 MALLOC_TYPE_KERNEL] by (simp add: s2_def al)
  qed
  have rd: "vld a n s2 = vld a n s" for a n
  proof -
    have "vld a n s2 = vld a n s1"
      by (rule vld_view) (simp_all add: s2_def tr_def root_def fun_eq_iff)
    then show ?thesis
      by (simp add: s1_def)
  qed
  have rds: "vrd8 a s2 = vrd8 a s" "vrd64 a s2 = vrd64 a s" for a
    unfolding vrd8_def vrd64_def rd by simp_all
  have fadt2: "fadt_table (acpi_st s2) = fadt"
    using assms(8) by (simp add: s2_def s1_def)
  have "acpi_io_reboot s2 = Some ((), outb (ucast addr) val s2)"
    using assms(9,15,16) by (simp add: acpi_io_reboot_def reset_reg_field_def f rds fadt2 Let_def add.commute)
  moreover have "vrd8 (reset_reg_field fadt ''address_space'') s2 = Some space"
    using assms(13) by (simp add: reset_reg_field_def f rds add.commute)
  ultimately have "acpi_reboot dev local_idt s = reset_machine dev local_idt (outb (ucast addr) val s2)"
    using assms(8,9,11,14) v by (simp add: acpi_reboot_def start cmos_clear_ready [OF assms(6)] s1_def [symmetric] Let_def)
       (simp add: s1_def)
  moreover have "tsc_ticks_per_ms (ftimer_st (outb (ucast addr) val s2)) = 0"
    using assms(5) by (simp add: outb_def event_def s2_def s1_def)
  ultimately show ?thesis
    by (simp add: reset_machine_events [OF assms(7)] outb_def event_def s2_def s1_def)
qed

text \<open>A controller and a CMOS memory that are always ready.\<close>

definition ready_device :: device where
  "ready_device = quiet_device 39\<lparr>dev_in8 := \<lambda>_ _. 0\<rparr>"

theorem acpi_reboot_order_witness:
  "\<exists>(s :: smp) t. acpi_reboot ready_device 0x7000 s = Some ((), t) \<and> Out8 0xCF9 0x0E \<in> set (io t) \<and> hd (io t) = Hlt"
proof -
  let ?V = "0xFFFFA00000000000 :: u64" and ?bs = "[1, 0, 0, 0] @ le_bytes 8 (0xCF9 :: u64) @ [0x0E] :: u8 list"
  obtain t :: smp where t: "kernel_room 19 t" "room ?V 4096 t" "cores t = (replicate 256 0)[2 := ?V]"
      "lapic_base_virt t = ?V" "heap_kernel t = 0xFFFFA00000001000" "locks t = locks fresh_smp"
      "\<forall>k < 4096. tr t (?V + of_nat k) \<noteq> None"
    using one_page by auto
  have "room (?V + of_nat 116) (length ?bs) t"
    by (rule room_sub [OF t(2)]) simp
  then have "room (?V + 116) (length ?bs) t"
    by simp
  from vst_room [OF this] obtain u where u: "same_map t u" "vld (?V + 116) (length ?bs) u = Some ?bs"
    by blast
  define s where "s = u\<lparr>acpi_st := (acpi_st u)\<lparr>fadt_table := ?V\<rparr>, heap_kernel := 0xFFFFA00000001000,
    ftimer_st := \<lparr>tsc_ticks_per_ms = 0, rdtscp_supported = False\<rparr>\<rparr>"
  note f = same_map_fields [OF u(1)]
  have trs: "tr s = tr t"
  proof -
    have "tr s = tr u"
      by (rule tr_view) (simp_all add: s_def)
    then show ?thesis
      using u(1) by (simp add: same_map_def)
  qed
  have "vld a n s = vld a n u" for a n
    by (rule vld_view) (use trs u(1) in \<open>simp_all add: same_map_def\<close>, simp add: s_def)
  then have bs: "vld (?V + 116) (1 + (3 + (8 + 1))) s = Some ([1] @ [0, 0, 0] @ le_bytes 8 (0xCF9 :: u64) @ [0x0E])"
    using u(2) by (simp del: vld.simps le_bytes.simps)
  obtain b1 b2 b3 b4 where b: "vld (?V + 116) 1 s = Some b1" "vld (?V + 117) 3 s = Some b2" "vld (?V + 120) 8 s = Some b3"
      "vld (?V + 128) 1 s = Some b4" "b1 @ b2 @ b3 @ b4 = [1] @ [0, 0, 0] @ le_bytes 8 (0xCF9 :: u64) @ [0x0E]"
    using bs unfolding vld_split by (auto split: option.splits simp: add.assoc simp del: vld.simps le_bytes.simps)
  have len: "length b1 = 1" "length b2 = 3" "length b3 = 8"
    using b(1-3) [THEN length_vld] by simp_all
  have e1: "b1 = [1] \<and> b2 @ b3 @ b4 = [0, 0, 0] @ le_bytes 8 (0xCF9 :: u64) @ [0x0E]"
    by (rule iffD1 [OF append_eq_append_conv b(5)]) (simp add: len)
  have e2: "b2 = [0, 0, 0] \<and> b3 @ b4 = le_bytes 8 (0xCF9 :: u64) @ [0x0E]"
    by (rule iffD1 [OF append_eq_append_conv conjunct2 [OF e1]]) (simp add: len)
  have e3: "b3 = le_bytes 8 (0xCF9 :: u64) \<and> b4 = [0x0E]"
    by (rule iffD1 [OF append_eq_append_conv conjunct2 [OF e2]]) (simp add: len)
  note v = conjunct1 [OF e1] conjunct1 [OF e3] conjunct2 [OF e3]
  have rd: "vrd8 (?V + 116) s = Some 1" "vrd64 (?V + 120) s = Some 0xCF9" "vrd8 (?V + 128) s = Some 0x0E"
    unfolding vrd8_def vrd64_def b v by (simp_all add: le_word_le_bytes take_bit_full del: le_bytes.simps)
  have c: "cores s = replicate 2 0 @ ?V # replicate 253 0"
    using f(4) t(3) by (simp add: s_def upd_conv_take_nth_drop)
  have lb: "lapic_base_virt s = ?V"
    using f(7) t(4) by (simp add: s_def)
  have m: "\<forall>p \<in> set (cores s). p \<noteq> 0 \<longrightarrow> tr s p \<noteq> None" "tr s (lapic_base_virt s + 0x300) \<noteq> None"
      "tr s (lapic_base_virt s + 0x310) \<noteq> None"
    using t(7) [rule_format, of 0] t(7) [rule_format, of "0x300"] t(7) [rule_format, of "0x310"]
    unfolding c trs lb by (simp_all del: not_None_eq)
  have l: "length (cores s) = 256"
    by (simp add: c)
  have dev: "\<forall>h. dev_in8 ready_device h 0x71 = 0" "\<forall>h. dev_in8 ready_device h 0x64 AND 0x02 = 0"
    by (simp_all add: ready_device_def)
  have "\<exists>t. acpi_reboot ready_device 0x7000 s = Some ((), t) \<and> mem t = mem s
    \<and> io t = [Hlt, Int3, Lidt 0x7000, Out8 0xCF9 0x06, Out8 0xCF9 0x02, Out8 0x64 0xFE, In8 0x64,
        Out8 (ucast (0xCF9 :: u64)) 0x0E,
        Out8 0x70 0, In8 0x71, Out8 0x70 0x9B, Out8 0x71 0, Out8 0x70 0x9B]
      @ concat (map (\<lambda>p. stop_events p s) (rev (cores s))) @ io s"
    by (rule acpi_reboot_order [OF l m _ dev _ _ _ _ _ rd(1) _ rd(2,3)])
       (use f(5) t(6) in \<open>simp_all add: s_def space_defs\<close>)
  then show ?thesis
    by (elim exE conjE) (rule exI [of _ s], rule exI, rule conjI, assumption, simp)
qed

end
