(* ===== verification/Boot.thy ===== *)
theory Boot
  imports Acpi_Power Serial
begin

text \<open>
  The start-up code of main.c: every component in turn, on one state that holds the static
  variables of all of them.
\<close>

unbundle bit_operations_syntax

section \<open>Operations\<close>

record boot = smp +
  e820_st :: e820
  pcie_st :: pcie_state
  module_st :: module_state

text \<open>The calls up to the one that loads the page tables, and those that need the ACPI tables.\<close>

definition boot_message :: string where
  "boot_message = ''PFI Bootup successful!'' @ [CHR 0x0A]"

definition pfi_start :: "device \<Rightarrow> image \<Rightarrow> ('a boot_scheme, unit) op" where
  "pfi_start dev img s = do {
     (_, s) \<leftarrow> with_idt (idt_init img) s;
     (_, s) \<leftarrow> serial_init s;
     (_, s) \<leftarrow> serial_print dev boot_message s;
     tbl \<leftarrow> init_basic_e820 (e820_st s);
     let s = s\<lparr>e820_st := tbl\<rparr>;
     pager_init dev tbl s }"

definition pfi_devices ::
  "device \<Rightarrow> smp_image \<Rightarrow> (nat \<Rightarrow> u8 \<Rightarrow> ('a boot_scheme, unit) op) \<Rightarrow> ('a boot_scheme, unit) op" where
  "pfi_devices dev simg aps s = do {
     (_, s) \<leftarrow> with_acpi acpi_init s;
     (_, s) \<leftarrow> smp_init dev simg aps s;
     (_, (c, a, m, s)) \<leftarrow> pcie_init dev (pcie_st s, acpi_st s, module_st s, s);
     Some ((), s\<lparr>pcie_st := c, acpi_st := a, module_st := m\<rparr>) }"

definition pfi_main ::
  "device \<Rightarrow> image \<Rightarrow> smp_image \<Rightarrow> (nat \<Rightarrow> u8 \<Rightarrow> ('a boot_scheme, unit) op) \<Rightarrow> ('a boot_scheme, unit) op" where
  "pfi_main dev img simg aps s = do {
     (_, s) \<leftarrow> pfi_start dev img s;
     (_, s) \<leftarrow> with_idt (idt_global_init img) s;
     (_, s) \<leftarrow> pfi_devices dev simg aps s;
     Some ((), event Hlt s) }"

section \<open>The first calls\<close>

text \<open>Printing on the serial port changes nothing but the record of events.\<close>

lemma put_all_events:
  assumes "uart_ok dev"
  shows "\<not> locks s Serialc_lock \<Longrightarrow> \<exists>h. put_all (serial_printc dev) str s = Some ((), s\<lparr>io := h\<rparr>) \<and> sent h = sent (io s) @ str"
proof (induction str arbitrary: s)
  case Nil
  then show ?case
    by (intro exI [of _ "io s"]) simp
next
  case (Cons c str)
  obtain n where n: "serial_printc dev c s = Some ((), s\<lparr>io := Out8 SERIAL_PORT (of_char c)
      # replicate n (In8 (SERIAL_PORT + 5)) @ io s\<rparr>)"
    using serial_printc_sends [OF assms Cons.prems] by blast
  let ?s = "s\<lparr>io := Out8 SERIAL_PORT (of_char c) # replicate n (In8 (SERIAL_PORT + 5)) @ io s\<rparr>"
  have "\<not> locks ?s Serialc_lock"
    using Cons.prems by simp
  from Cons.IH [OF this] n show ?case
    by (auto simp: of_char_byte)
qed

lemma serial_print_events:
  assumes "uart_ok dev" and "\<not> locks s Serialc_lock" and "\<not> locks s Serialp_lock"
  shows "\<exists>h. serial_print dev str s = Some ((), s\<lparr>io := h\<rparr>) \<and> sent h = sent (io s) @ crlf str"
proof -
  have "\<not> locks (taken Serialp_lock s) Serialc_lock"
    using assms(2) by (simp add: taken_def cli_def)
  from put_all_events [OF assms(1) this, of "crlf str"] obtain h where
    "serial_print_loop dev str (taken Serialp_lock s) = Some ((), (taken Serialp_lock s)\<lparr>io := h\<rparr>)"
    "sent h = sent (io s) @ crlf str"
    unfolding serial_print_loop_puts by auto
  then show ?thesis
    using assms(3) by (cases s) (auto simp: serial_print_def locked_free taken_def cli_def fun_upd_idem)
qed

text \<open>The first byte below is the divisor that \<open>serial_init\<close> writes to the same port.\<close>

definition serial_setup :: "io_event list" where
  "serial_setup = [Out8 (SERIAL_PORT + 4) 0x0B, Out8 (SERIAL_PORT + 2) 0xC7, Out8 (SERIAL_PORT + 3) 0x03,
     Out8 (SERIAL_PORT + 1) 0x00, Out8 SERIAL_PORT 0x03, Out8 (SERIAL_PORT + 3) 0x80, Out8 (SERIAL_PORT + 1) 0x00]"

lemma serial_init_events:
  "serial_init s = Some ((), s\<lparr>io := serial_setup @ io s,
     locks := (locks s)(Serial_lock := False, Serialp_lock := False, Serialf_lock := False, Serialc_lock := False)\<rparr>)"
proof -
  have e: "L(Serialp_lock := False, Serialf_lock := False, Serialc_lock := False, Serial_lock := False)
      = L(Serial_lock := False, Serialp_lock := False, Serialf_lock := False, Serialc_lock := False)"
    for L :: "lock_id \<Rightarrow> bool"
    by (rule ext) simp
  show ?thesis
    by (cases s) (simp add: serial_init_def locked_free taken_def cli_def outb_def event_def serial_setup_def e)
qed

section \<open>Example states\<close>

definition boot_over :: "pager \<Rightarrow> boot" where
  "boot_over p = smp.extend (smp_over p) (boot.fields g_e820 \<lparr>pcie_mcfg = 0, mcfg_num_segs = 0\<rparr> no_modules)"

lemma boot_over_truncate: "pager.truncate (boot_over p) = p"
  by (cases p) (simp add: boot_over_def smp_over_def pager.defs smp.defs boot.defs)

lemma boot_over_fields [simp]: "e820_st (boot_over p) = g_e820" "locks (boot_over p) = locks p" "mem (boot_over p) = mem p"
  by (cases p; simp add: boot_over_def smp_over_def pager.defs smp.defs boot.defs)+

definition example_image :: image where
  "example_image = undefined\<lparr>idt_local := 0x9000, idt_ptr_local := 0xA000\<rparr>"

lemma uart_always: "uart_ok (quiet_device 39\<lparr>dev_in8 := \<lambda>_ _. 0x20\<rparr>)"
  unfolding uart_ok_def by (intro allI exI [of _ 0]) simp

section \<open>Properties\<close>



text \<open>
  C20. Without a root pointer the firmware hangs while it starts. \<open>acpi_init\<close> returns with its lock
  taken, and the next call, \<open>smp_init\<close>, spins on it: the part of \<open>pfi_main\<close> that starts the devices
  never returns, so no PCIe device is looked for.
\<close>

theorem boot_hangs_without_rsdp:
  assumes "direct 0x110000 s" and "find (rsdp_valid (mem s)) (rsdp_places (mem s)) = None"
    and "\<not> locks s Acpi_lock"
  shows "\<exists>t. with_acpi acpi_init s = Some ((), t) \<and> smp_init dev simg aps t = None
    \<and> pfi_devices dev simg aps s = None"
proof -
  let ?t = "diag ''[ACPI] RSDP Descriptor Not Found!'' [] (taken Acpi_lock s)"
  have "acpi_find_rsdp (taken Acpi_lock s) = Some 0"
    using find_rsdp_direct [of "taken Acpi_lock s"] assms by simp
  then have r: "with_acpi acpi_init s = Some ((), ?t\<lparr>acpi_st := acpi_st s\<rparr>)"
    using assms(3) by (simp add: with_acpi_def acpi_init_def spin_lock_irqsave_def spin_lock_def taken_def cli_def)
  have "locks (?t\<lparr>acpi_st := acpi_st s\<rparr>) Acpi_lock"
    by (simp add: taken_def)
  then have "smp_init dev simg aps (?t\<lparr>acpi_st := acpi_st s\<rparr>) = None"
    by (simp add: smp_init_def with_acpi_def acpi_get_apic_info_def holding_held)
  with r show ?thesis
    by (simp add: pfi_devices_def)
qed

theorem boot_hangs_without_rsdp_witness:
  "pfi_devices (quiet_device 39) \<lparr>smp_trampoline_start = 0, smp_trampoline_end = 0, ap_kernel_entry_addr = 0\<rparr>
     (\<lambda>_ _ s. Some ((), s)) (boot_over (big_page (\<lambda>_. 0))) = None"
proof -
  let ?s = "boot_over (big_page (\<lambda>_. 0))"
  have z: "ld_bytes (mem ?s) 0x40E (Suc (Suc 0)) = [0, 0]"
    by (simp add: big_page_mem)
  then have "ld16 (mem ?s) 0x40E = 0"
    by (simp add: ld16_def eval_nat_numeral del: ld_bytes.simps)
  then have "rsdp_places (mem ?s) = every16 0 1024 @ every16 0xE0000 0x20000"
    by (simp add: rsdp_places_def)
  moreover have "mem ?s p = 0" if "p \<in> set (every16 0 1024 @ every16 0xE0000 0x20000)" for p
    using that every16_bound [of p 0 1024] every16_bound [of p "0xE0000" "0x20000"]
    by (simp, intro big_page_mem) auto
  ultimately have f: "find (rsdp_valid (mem ?s)) (rsdp_places (mem ?s)) = None"
    unfolding find_None_iff using not_rsdp_zero [of "mem ?s"] by metis
  have "tr ?s = tr (big_page (\<lambda>_. 0))"
    using truncate_views(1) boot_over_truncate by metis
  then have d: "direct 0x110000 ?s"
    using direct_mono [OF big_page_direct, of "0x110000" "\<lambda>_. 0"] by (simp add: direct_def)
  have l: "\<not> locks ?s Acpi_lock"
    by simp
  from boot_hangs_without_rsdp [OF d f l] show ?thesis
    by blast
qed

end
