(* ===== verification/Spec2Isabelle.thy ===== *)
theory Spec2Isabelle
  imports Memory_Manager Vmem Spinlock Core Idt Fexceptions Acpi_Timer Pcie Ata Ps2 Boot
begin

text \<open>
  Verification of the Pheonix Firmware Interface.
\<close>

end
